(* ===== verification/Prelude.thy ===== *)
theory Prelude
  imports Main "HOL-Library.Word"
begin

text \<open>
  Shared vocabulary of the development: the sentinel errors of the program and the
  result type its functions return, signed 64-bit integers, instants, decimal numerals
  (\<open>strconv.FormatUint\<close> and \<open>strconv.ParseUint\<close> in base 10), and the generic list
  lemmas that the tables of the store and the queues of the workers share.
\<close>

named_theorems int64_simps \<open>reading int64 operations through sint\<close>
named_theorems res_simps \<open>unfolding of the result type and of the transaction monad\<close>

section \<open>Errors and results\<close>

text \<open>
  The sentinels of \<open>internal/domain/errors.go\<close> and \<open>internal/application/errors.go\<close>.
  The program wraps them with \<open>fmt.Errorf("%w: ...")\<close> and tests them with
  \<open>errors.Is\<close>, so an error is modelled by the sentinel it wraps. \<open>ErrDatabase\<close> is
  any error of the driver or the database that wraps none of them (a lost connection, a
  violated check constraint, a raised trigger exception).
\<close>

datatype err =
    ErrInvalidMoney | ErrCurrencyMismatch | ErrMoneyOverflow | ErrInsufficientFunds
  | ErrInvalidWallet | ErrInvalidTransaction | ErrInvalidTransition
  | ErrInvalidLedgerEntry | ErrReferenceMismatch | ErrReferenceNotProcessed
  | ErrNotFound | ErrConflict | ErrIdempotencyPayloadConflict
  | ErrExternalTransactionConflict | ErrInboxPayloadConflict | ErrInvalidCursor
  | ErrDatabase

type_synonym 'a res = "err + 'a"

text \<open>\<open>if err != nil { return err }\<close>\<close>

definition res_bind :: "'a res \<Rightarrow> ('a \<Rightarrow> 'b res) \<Rightarrow> 'b res" where
  "res_bind r f = (case r of Inl e \<Rightarrow> Inl e | Inr x \<Rightarrow> f x)"

lemma res_bind_simps [simp]:
  "res_bind (Inl e) f = Inl e"
  "res_bind (Inr x) f = f x"
  by (simp_all add: res_bind_def)

lemma res_bind_eq_Inr [simp]:
  "res_bind r f = Inr y \<longleftrightarrow> (\<exists>x. r = Inr x \<and> f x = Inr y)"
  by (cases r) auto

lemma res_bind_eq_Inl:
  "res_bind r f = Inl e \<longleftrightarrow> r = Inl e \<or> (\<exists>x. r = Inr x \<and> f x = Inl e)"
  by (cases r) auto

lemma isl_if_Inl [simp]: "(if b then Inl e else Inr x) = Inr y \<longleftrightarrow> \<not> b \<and> x = y"
  by auto

section \<open>Machine integers and instants\<close>

text \<open>
  Go's \<open>int64\<close> is a 64-bit word read through \<^term>\<open>sint\<close>: the operators wrap, the
  comparisons are the signed ones. \<open>uint64\<close> is the same word read through
  \<^term>\<open>unat\<close>, and a conversion between the two keeps the bits.
\<close>

type_synonym int64 = "64 word"
type_synonym uint64 = "64 word"

definition max_int64 :: int64 where
  "max_int64 = 9223372036854775807"

definition min_int64 :: int64 where
  "min_int64 = 9223372036854775808"

definition int64_range :: "int \<Rightarrow> bool" where
  "int64_range k \<longleftrightarrow> - 9223372036854775808 \<le> k \<and> k \<le> 9223372036854775807"

lemma sint_max_int64 [simp]: "sint max_int64 = 9223372036854775807"
  by (simp add: max_int64_def)

lemma sint_min_int64 [simp]: "sint min_int64 = - 9223372036854775808"
  by (simp add: min_int64_def)

lemma sint_in_range [simp, intro]: "int64_range (sint (a :: int64))"
  using sint_range_size [of a] by (simp add: int64_range_def word_size)

lemma sint_le_max: "sint (a :: int64) \<le> 9223372036854775807"
  and sint_ge_min: "- 9223372036854775808 \<le> sint (a :: int64)"
  using sint_in_range [of a] by (auto simp: int64_range_def)

lemma signed_take_bit_id: "int64_range k \<Longrightarrow> signed_take_bit 63 k = k"
  by (rule signed_take_bit_int_eq_self) (simp_all add: int64_range_def)

lemma sint_add_exact [int64_simps]:
  "int64_range (sint a + sint b) \<Longrightarrow> sint ((a :: int64) + b) = sint a + sint b"
  by (simp add: sint_word_ariths signed_take_bit_id)

lemma sint_diff_exact [int64_simps]:
  "int64_range (sint a - sint b) \<Longrightarrow> sint ((a :: int64) - b) = sint a - sint b"
  by (simp add: sint_word_ariths signed_take_bit_id)

lemma sint_uminus_exact [int64_simps]:
  "int64_range (- sint a) \<Longrightarrow> sint (- (a :: int64)) = - sint a"
  by (simp add: sint_word_ariths signed_take_bit_id)

lemma sint_mult_exact [int64_simps]:
  "int64_range (sint a * sint b) \<Longrightarrow> sint ((a :: int64) * b) = sint a * sint b"
  by (simp add: sint_word_ariths signed_take_bit_id)

lemma sint_of_int_exact [int64_simps]:
  "int64_range k \<Longrightarrow> sint (word_of_int k :: int64) = k"
  by (simp add: int_word_sint int64_range_def)

lemma sless_iff_sint [int64_simps]: "(a :: int64) <s b \<longleftrightarrow> sint a < sint b"
  by (simp add: word_sless_alt)

lemma sle_iff_sint [int64_simps]: "(a :: int64) \<le>s b \<longleftrightarrow> sint a \<le> sint b"
  by (simp add: word_sle_eq)

lemma int64_eq_iff_sint: "(a :: int64) = b \<longleftrightarrow> sint a = sint b"
  by (auto intro: signed_word_eqI)

lemma sint_unat:
  "sint (a :: int64) =
     (if unat a \<le> 9223372036854775807 then int (unat a) else int (unat a) - 18446744073709551616)"
proof -
  define u where "u = unat a"
  have lt: "u < 18446744073709551616"
    using unsigned_less [of a, where 'a = nat] by (simp add: u_def)
  have a: "word_of_int (int u) = a" by (simp add: u_def)
  show ?thesis
  proof (cases "u \<le> 9223372036854775807")
    case True
    then have "sint (word_of_int (int u) :: int64) = int u"
      by (intro sint_of_int_exact) (simp add: int64_range_def)
    with True a show ?thesis by (simp only: u_def [symmetric] if_True)
  next
    case False
    have "sint (word_of_int (int u - 18446744073709551616) :: int64) = int u - 18446744073709551616"
      using False lt by (intro sint_of_int_exact) (auto simp: int64_range_def)
    moreover have "(word_of_int (int u - 18446744073709551616) :: int64) = a"
      by (simp add: a [symmetric])
    ultimately show ?thesis using False by (simp only: u_def [symmetric] if_False)
  qed
qed

lemma nonneg_iff_unat: "\<not> (a :: int64) <s 0 \<longleftrightarrow> unat a \<le> 9223372036854775807"
  using unsigned_less [of a, where 'a = nat] by (auto simp: sless_iff_sint sint_unat simp del: of_nat_unat)

lemma neg_magnitude_iff:
  "- (a :: int64) <s 0 \<longleftrightarrow> a \<noteq> 0 \<and> unat a \<le> 9223372036854775808"
proof (cases "a = min_int64")
  case True
  then have "- a = a" by (simp add: min_int64_def)
  with True show ?thesis by (simp add: sless_iff_sint min_int64_def)
next
  case False
  then have "sint a \<noteq> - 9223372036854775808" by (metis int64_eq_iff_sint sint_min_int64)
  then have "int64_range (- sint a)"
    using sint_ge_min [of a] sint_le_max [of a] by (auto simp: int64_range_def)
  then have "- a <s 0 \<longleftrightarrow> 0 < sint a"
    by (simp add: sless_iff_sint sint_uminus_exact)
  also have "\<dots> \<longleftrightarrow> unat a \<noteq> 0 \<and> unat a \<le> 9223372036854775807"
    unfolding sint_unat using unsigned_less [of a, where 'a = nat] by (simp del: of_nat_unat)
  also have "\<dots> \<longleftrightarrow> a \<noteq> 0 \<and> unat a \<le> 9223372036854775807"
    by (simp add: unsigned_eq_0_iff)
  also have "\<dots> \<longleftrightarrow> a \<noteq> 0 \<and> unat a \<le> 9223372036854775808"
  proof -
    have "unat a \<noteq> 9223372036854775808"
      using \<open>sint a \<noteq> - 9223372036854775808\<close> by (auto simp: sint_unat)
    then show ?thesis by auto
  qed
  finally show ?thesis .
qed

text \<open>
  An instant is the number of ticks since the zero \<open>time.Time\<close>; \<open>UTC()\<close> does not
  change the instant. A \<open>time.Duration\<close> is an \<open>int64\<close> of ticks.
\<close>

type_synonym time = int
type_synonym duration = int64

definition time_is_zero :: "time \<Rightarrow> bool" where
  "time_is_zero t \<longleftrightarrow> t = 0"

definition time_add :: "time \<Rightarrow> duration \<Rightarrow> time" where
  "time_add t d = t + sint d"

section \<open>Decimal numerals\<close>

definition is_digit :: "char \<Rightarrow> bool" where
  "is_digit c \<longleftrightarrow> 48 \<le> (of_char c :: nat) \<and> (of_char c :: nat) \<le> 57"

definition digit_char :: "nat \<Rightarrow> char" where
  "digit_char d = char_of (48 + d)"

definition digit_val :: "char \<Rightarrow> nat" where
  "digit_val c = of_char c - 48"

lemma digit_char_simps [simp]:
  "digit_char 0 = CHR ''0''" "digit_char (Suc 0) = CHR ''1''" "digit_char 2 = CHR ''2''"
  "digit_char 3 = CHR ''3''" "digit_char 4 = CHR ''4''" "digit_char 5 = CHR ''5''"
  "digit_char 6 = CHR ''6''" "digit_char 7 = CHR ''7''" "digit_char 8 = CHR ''8''"
  "digit_char 9 = CHR ''9''"
  by (simp_all add: digit_char_def char_of_def bit_0)

text \<open>\<open>strconv.FormatUint(n, 10)\<close>\<close>

fun format_nat :: "nat \<Rightarrow> string" where
  "format_nat n =
     (if n < 10 then [digit_char n] else format_nat (n div 10) @ [digit_char (n mod 10)])"

declare format_nat.simps [simp del]

definition numeral_val :: "string \<Rightarrow> nat" where
  "numeral_val s = foldl (\<lambda>v c. v * 10 + digit_val c) 0 s"

text \<open>\<open>strconv.ParseUint(s, 10, 64)\<close>: \<open>None\<close> is the syntax or the range error.\<close>

definition parse_uint64 :: "string \<Rightarrow> uint64 option" where
  "parse_uint64 s =
     (if s \<noteq> [] \<and> list_all is_digit s \<and> numeral_val s < 18446744073709551616
      then Some (of_nat (numeral_val s)) else None)"

lemma of_char_digit_char [simp]: "d < 10 \<Longrightarrow> of_char (digit_char d) = 48 + d"
  by (simp add: digit_char_def)

lemma digit_val_char [simp]: "d < 10 \<Longrightarrow> digit_val (digit_char d) = d"
  by (simp add: digit_val_def)

lemma is_digit_char [simp]: "d < 10 \<Longrightarrow> is_digit (digit_char d)"
  by (simp add: is_digit_def)

lemma digit_char_val: "is_digit c \<Longrightarrow> digit_char (digit_val c) = c"
  by (simp add: is_digit_def digit_val_def digit_char_def)

lemma digit_val_less: "is_digit c \<Longrightarrow> digit_val c < 10"
  unfolding is_digit_def digit_val_def by linarith

lemma digit_char_eq_0 [simp]: "d < 10 \<Longrightarrow> digit_char d = CHR ''0'' \<longleftrightarrow> d = 0"
proof -
  assume d: "d < 10"
  have "digit_char d = CHR ''0'' \<longleftrightarrow> (of_char (digit_char d) :: nat) = of_char CHR ''0''"
    by (simp only: of_char_eq_iff)
  then show ?thesis using d by simp
qed

lemma numeral_val_Nil [simp]: "numeral_val [] = 0"
  by (simp add: numeral_val_def)

lemma numeral_val_snoc [simp]: "numeral_val (s @ [c]) = numeral_val s * 10 + digit_val c"
  by (simp add: numeral_val_def)

lemma numeral_val_single [simp]: "numeral_val [c] = digit_val c"
  by (simp add: numeral_val_def)

lemma format_nat_digits: "list_all is_digit (format_nat n)"
proof (induction n rule: format_nat.induct)
  case (1 n)
  then show ?case by (subst format_nat.simps) simp
qed

lemma format_nat_nonempty [simp]: "format_nat n \<noteq> []"
  by (subst format_nat.simps) simp

lemma numeral_val_format_nat [simp]: "numeral_val (format_nat n) = n"
proof (induction n rule: format_nat.induct)
  case (1 n)
  then show ?case by (subst format_nat.simps) simp
qed

lemma parse_format_uint64 [simp]:
  "n < 18446744073709551616 \<Longrightarrow> parse_uint64 (format_nat n) = Some (of_nat n)"
  by (simp add: parse_uint64_def format_nat_digits)

lemma split_two_digits:
  fixes n :: nat
  assumes "n = m * 100 + (x * 10 + y)" and "x < 10" and "y < 10"
  shows "n div 100 = m" and "n mod 100 div 10 = x" and "n mod 10 = y"
proof -
  have c: "x * 10 + y < 100" using assms(2,3) by linarith
  have "n div 100 = m + (x * 10 + y) div 100" unfolding assms(1) by simp
  then show "n div 100 = m" using c by simp
  have "n mod 100 = x * 10 + y" unfolding assms(1) using c by simp
  then show "n mod 100 div 10 = x" using assms(3) by simp
  have "n = y + 10 * (m * 10 + x)" unfolding assms(1) by simp
  then have "n mod 10 = y mod 10" by (simp only: mod_mult_self2)
  then show "n mod 10 = y" using assms(3) by simp
qed

lemma join_two_digits: "n mod 100 div 10 * 10 + n mod 10 = n mod (100 :: nat)"
proof -
  have "n mod 100 mod 10 = n mod 10" by (simp add: mod_mod_cancel)
  then show ?thesis using div_mult_mod_eq [of "n mod 100" 10] by simp
qed

text \<open>A canonical numeral: the single digit \<open>0\<close>, or no leading zero.\<close>

definition canonical_numeral :: "string \<Rightarrow> bool" where
  "canonical_numeral s \<longleftrightarrow>
     s = ''0'' \<or> (s \<noteq> [] \<and> hd s \<noteq> CHR ''0'' \<and> list_all is_digit s)"

lemma canonical_snoc_iff:
  "s \<noteq> [] \<Longrightarrow> canonical_numeral (s @ [c]) \<longleftrightarrow> s \<noteq> ''0'' \<and> canonical_numeral s \<and> is_digit c"
  by (cases s) (auto simp: canonical_numeral_def)

lemma canonical_single: "canonical_numeral [c] \<longleftrightarrow> is_digit c"
  by (auto simp: canonical_numeral_def is_digit_def)

lemma canonical_format_nat: "canonical_numeral (format_nat n)"
proof (induction n rule: format_nat.induct)
  case (1 n)
  show ?case
  proof (cases "n < 10")
    case True
    then show ?thesis by (subst format_nat.simps) (simp add: canonical_single)
  next
    case False
    have "format_nat (n div 10) \<noteq> ''0''"
    proof
      assume "format_nat (n div 10) = ''0''"
      then have "n div 10 = numeral_val ''0''"
        using numeral_val_format_nat [of "n div 10"] by simp
      then show False using False by (simp add: digit_val_def)
    qed
    with False "1.IH" show ?thesis
      by (subst format_nat.simps) (simp add: canonical_snoc_iff)
  qed
qed

lemma canonical_val_pos:
  "canonical_numeral s \<Longrightarrow> s \<noteq> ''0'' \<Longrightarrow> 0 < numeral_val s"
proof (induction s rule: rev_induct)
  case Nil
  then show ?case by (simp add: canonical_numeral_def)
next
  case (snoc c s)
  show ?case
  proof (cases "s = []")
    case True
    with snoc.prems have "is_digit c" "c \<noteq> CHR ''0''"
      by (auto simp: canonical_single)
    then have "digit_val c \<noteq> 0"
      using digit_char_val [of c] by (metis digit_char_eq_0 zero_less_numeral)
    with True show ?thesis by simp
  next
    case False
    with snoc show ?thesis by (simp add: canonical_snoc_iff)
  qed
qed

lemma format_nat_val: "canonical_numeral s \<Longrightarrow> format_nat (numeral_val s) = s"
proof (induction s rule: rev_induct)
  case Nil
  then show ?case by (simp add: canonical_numeral_def)
next
  case (snoc c s)
  show ?case
  proof (cases "s = []")
    case True
    with snoc.prems have "is_digit c" by (simp add: canonical_single)
    with True show ?thesis
      by (subst format_nat.simps) (simp add: digit_val_less digit_char_val)
  next
    case False
    with snoc.prems have s: "canonical_numeral s" "s \<noteq> ''0''" and c: "is_digit c"
      by (simp_all add: canonical_snoc_iff)
    have pos: "0 < numeral_val s" using s by (rule canonical_val_pos)
    have "format_nat (numeral_val s * 10 + digit_val c) =
        format_nat (numeral_val s) @ [digit_char (digit_val c)]"
      using pos digit_val_less [OF c] by (subst format_nat.simps) simp
    with snoc.IH s c show ?thesis by (simp add: digit_char_val)
  qed
qed

lemma canonical_digits: "canonical_numeral s \<Longrightarrow> list_all is_digit s"
  by (auto simp: canonical_numeral_def is_digit_def)

lemma canonical_nonempty: "canonical_numeral s \<Longrightarrow> s \<noteq> []"
  by (auto simp: canonical_numeral_def)

section \<open>Machines and their invariants\<close>

text \<open>
  The interface of a state machine: a step relation and a predicate that every step
  keeps. A lifecycle is a machine with final states, which no step leaves; a tracked
  machine has an observation that no step changes.
\<close>

locale machine =
  fixes step :: "'s \<Rightarrow> 's \<Rightarrow> bool"
    and inv :: "'s \<Rightarrow> bool"
  assumes step_inv: "step s t \<Longrightarrow> inv s \<Longrightarrow> inv t"
begin

lemma run_inv: "step\<^sup>*\<^sup>* s t \<Longrightarrow> inv s \<Longrightarrow> inv t"
  by (induction rule: rtranclp_induct) (auto intro: step_inv)

end

locale lifecycle = machine step inv
  for step :: "'s \<Rightarrow> 's \<Rightarrow> bool" and inv :: "'s \<Rightarrow> bool" +
  fixes final :: "'s \<Rightarrow> bool"
  assumes final_stuck: "final s \<Longrightarrow> \<not> step s t"
begin

lemma final_run: "step\<^sup>*\<^sup>* s t \<Longrightarrow> final s \<Longrightarrow> t = s"
  by (induction rule: converse_rtranclp_induct) (auto dest: final_stuck)

end

text \<open>
  A preorder on states that every step respects: what a run may only increase (the rows of
  an append-only table) or may not change (the identity of an object).
\<close>

locale monotone_machine =
  fixes step :: "'s \<Rightarrow> 's \<Rightarrow> bool"
    and below :: "'s \<Rightarrow> 's \<Rightarrow> bool"
  assumes below_refl: "below s s"
    and below_trans: "below s t \<Longrightarrow> below t u \<Longrightarrow> below s u"
    and step_below: "step s t \<Longrightarrow> below s t"
begin

lemma run_below: "step\<^sup>*\<^sup>* s t \<Longrightarrow> below s t"
  by (induction rule: rtranclp_induct) (auto intro: below_refl below_trans step_below)

end

end
