(* ===== verification/Encoding.thy ===== *)
theory Encoding
  imports Prelude
begin

text \<open>
  The text encodings that the ledger cursor uses (\<open>application/cursor.go\<close>): the
  unpadded URL alphabet of \<open>base64.RawURLEncoding\<close> and \<open>strings.SplitN\<close>.
\<close>

section \<open>Base 64\<close>

definition b64_alphabet :: string where
  "b64_alphabet = ''ABCDEFGHIJKLMNOPQRSTUVWXYZabcdefghijklmnopqrstuvwxyz0123456789-_''"

definition sextet :: "nat \<Rightarrow> char" where
  "sextet n = b64_alphabet ! n"

definition sextet_val :: "char \<Rightarrow> nat option" where
  "sextet_val c =
     (if c \<in> set b64_alphabet then Some (length (takeWhile (\<lambda>x. x \<noteq> c) b64_alphabet)) else None)"

text \<open>Three bytes make four characters; a rest of one or two bytes makes two or three.\<close>

fun b64_encode :: "nat list \<Rightarrow> string" where
  "b64_encode (a # b # c # xs) =
     sextet (a div 4) # sextet (a mod 4 * 16 + b div 16) # sextet (b mod 16 * 4 + c div 64) #
     sextet (c mod 64) # b64_encode xs"
| "b64_encode [a, b] = [sextet (a div 4), sextet (a mod 4 * 16 + b div 16), sextet (b mod 16 * 4)]"
| "b64_encode [a] = [sextet (a div 4), sextet (a mod 4 * 16)]"
| "b64_encode [] = []"

text \<open>The unused low bits of a last character are not looked at.\<close>

fun b64_groups :: "nat list \<Rightarrow> nat list option" where
  "b64_groups (p # q # r # s # xs) =
     map_option (\<lambda>rest. (p * 4 + q div 16) # (q mod 16 * 16 + r div 4) # (r mod 4 * 64 + s) # rest)
       (b64_groups xs)"
| "b64_groups [p, q, r] = Some [p * 4 + q div 16, q mod 16 * 16 + r div 4]"
| "b64_groups [p, q] = Some [p * 4 + q div 16]"
| "b64_groups [p] = None"
| "b64_groups [] = Some []"

definition raw_url_encode :: "string \<Rightarrow> string" where
  "raw_url_encode s = b64_encode (map of_char s)"

text \<open>Line ends are skipped; any other character outside the alphabet is an error.\<close>

definition raw_url_decode :: "string \<Rightarrow> string option" where
  "raw_url_decode s =
     Option.bind (those (map sextet_val (filter (\<lambda>c. c \<noteq> CHR 0x0A \<and> c \<noteq> CHR 0x0D) s)))
       (\<lambda>vs. map_option (map char_of) (b64_groups vs))"

text \<open>\<open>strings.SplitN(s, "|", 2)\<close>, as its two parts when there are two.\<close>

definition split_bar :: "string \<Rightarrow> (string \<times> string) option" where
  "split_bar s =
     (case dropWhile (\<lambda>c. c \<noteq> CHR ''|'') s of
        [] \<Rightarrow> None
      | _ # after \<Rightarrow> Some (takeWhile (\<lambda>c. c \<noteq> CHR ''|'') s, after))"

lemma split_bar_join: "CHR ''|'' \<notin> set a \<Longrightarrow> split_bar (a @ CHR ''|'' # b) = Some (a, b)"
  by (induction a) (auto simp: split_bar_def split: list.splits)

section \<open>Decoding undoes encoding\<close>

lemma alphabet_sextets:
  "\<forall>n \<in> set [0..<64]. sextet_val (sextet n) = Some n \<and> sextet n \<noteq> CHR 0x0A \<and> sextet n \<noteq> CHR 0x0D"
  by code_simp

lemma sextet_val_sextet [simp]: "n < 64 \<Longrightarrow> sextet_val (sextet n) = Some n"
  and sextet_printable [simp]: "n < 64 \<Longrightarrow> sextet n \<noteq> CHR 0x0A" "n < 64 \<Longrightarrow> sextet n \<noteq> CHR 0x0D"
  using alphabet_sextets by auto

definition b64_vals :: "string \<Rightarrow> nat list option" where
  "b64_vals s = those (map sextet_val (filter (\<lambda>c. c \<noteq> CHR 0x0A \<and> c \<noteq> CHR 0x0D) s))"

lemma b64_vals_simps [simp]:
  "b64_vals [] = Some []"
  "n < 64 \<Longrightarrow> b64_vals (sextet n # s) = map_option ((#) n) (b64_vals s)"
  by (simp_all add: b64_vals_def)

lemma small_div:
  fixes b :: nat
  shows "b < 256 \<Longrightarrow> b div 16 div 16 = 0" and "b < 256 \<Longrightarrow> b div 64 div 4 = 0"
  by (simp_all flip: div_mult2_eq)

lemma small_mod:
  fixes b :: nat
  shows "b < 256 \<Longrightarrow> b div 16 mod 16 = b div 16" and "b < 256 \<Longrightarrow> b div 64 mod 4 = b div 64"
  by simp_all

lemma regroup:
  fixes a b c :: nat
  shows "b < 256 \<Longrightarrow> a div 4 * 4 + (a mod 4 * 16 + b div 16) div 16 = a"
    and "b < 256 \<Longrightarrow> c < 256 \<Longrightarrow> (a mod 4 * 16 + b div 16) mod 16 * 16 + (b mod 16 * 4 + c div 64) div 4 = b"
    and "c < 256 \<Longrightarrow> (b mod 16 * 4 + c div 64) mod 4 * 64 + c mod 64 = c"
  using small_div small_mod by simp_all

lemma b64_roundtrip: "list_all (\<lambda>b. b < 256) bs \<Longrightarrow> Option.bind (b64_vals (b64_encode bs)) b64_groups = Some bs"
proof (induction bs rule: b64_encode.induct)
  case (1 a b c xs)
  then obtain vs where vs: "b64_vals (b64_encode xs) = Some vs" "b64_groups vs = Some xs"
    by (auto simp: bind_eq_Some_conv)
  have lt: "a div 4 < 64" "a mod 4 * 16 + b div 16 < 64" "b mod 16 * 4 + c div 64 < 64" "c mod 64 < 64"
    using 1(2) by auto
  have "a div 4 * 4 + (a mod 4 * 16 + b div 16) div 16 = a"
    "(a mod 4 * 16 + b div 16) mod 16 * 16 + (b mod 16 * 4 + c div 64) div 4 = b"
    "(b mod 16 * 4 + c div 64) mod 4 * 64 + c mod 64 = c"
    by (rule regroup; use 1(2) in simp)+
  with vs lt show ?case by simp
next
  case (2 a b)
  then have "a div 4 < 64" "a mod 4 * 16 + b div 16 < 64" "b mod 16 * 4 < 64" by auto
  moreover have "a div 4 * 4 + (a mod 4 * 16 + b div 16) div 16 = a"
    "(a mod 4 * 16 + b div 16) mod 16 * 16 + (b mod 16 * 4 + 0 div 64) div 4 = b"
    using 2 regroup(1) [of b a] regroup(2) [of b 0 a] by auto
  ultimately show ?case by simp
next
  case (3 a)
  then have "a div 4 < 64" "a mod 4 * 16 < 64" "a div 4 * 4 + (a mod 4 * 16) div 16 = a" by simp_all
  then show ?case by simp
qed simp

lemma raw_url_roundtrip [simp]: "raw_url_decode (raw_url_encode s) = Some s"
proof -
  have "list_all (\<lambda>b. b < 256) (map of_char s :: nat list)" by (simp add: list_all_iff)
  from b64_roundtrip [OF this] show ?thesis
    by (auto simp: raw_url_decode_def raw_url_encode_def b64_vals_def [symmetric] bind_eq_Some_conv)
qed

end
