(* ===== verification/Calendar.thy ===== *)
theory Calendar
  imports Prelude "HOL-Library.Monad_Syntax"
begin

text \<open>
  \<open>time.RFC3339Nano\<close>, as the ledger cursor writes and reads it
  (\<open>application/cursor.go\<close>): the proleptic Gregorian calendar of package
  \<open>time\<close>, on instants counted in nanoseconds from the first of January of year 1.
\<close>

section \<open>Days\<close>

definition leap :: "int \<Rightarrow> bool" where
  "leap y \<longleftrightarrow> y mod 4 = 0 \<and> (y mod 100 \<noteq> 0 \<or> y mod 400 = 0)"

definition month_lengths :: "int \<Rightarrow> int list" where
  "month_lengths y = [31, if leap y then 29 else 28, 31, 30, 31, 30, 31, 31, 30, 31, 30, 31]"

text \<open>The days before the first of January of a year.\<close>

definition days_before :: "int \<Rightarrow> int" where
  "days_before y = 365 * (y - 1) + (y - 1) div 4 - (y - 1) div 100 + (y - 1) div 400"

definition days_of :: "int \<Rightarrow> nat \<Rightarrow> int \<Rightarrow> int" where
  "days_of y m d = days_before y + sum_list (take (m - 1) (month_lengths y)) + (d - 1)"

text \<open>Cycles of 400, 100 and 4 years, then years.\<close>

definition year_of :: "int \<Rightarrow> int" where
  "year_of n =
     (let r = n mod 146097;
          century = min 3 (r div 36524); r1 = r - 36524 * century;
          r2 = r1 mod 1461;
          y = min 3 (r2 div 365)
      in 400 * (n div 146097) + 100 * century + 4 * (r1 div 1461) + y + 1)"

fun month_of :: "int list \<Rightarrow> nat \<Rightarrow> int \<Rightarrow> nat \<times> int" where
  "month_of [] m d = (m, d)"
| "month_of (l # ls) m d = (if d < l then (m, d) else month_of ls (m + 1) (d - l))"

definition date_of :: "int \<Rightarrow> int \<times> nat \<times> int" where
  "date_of n =
     (let y = year_of n; (m, d) = month_of (month_lengths y) 1 (n - days_before y) in (y, m, d + 1))"

lemma digit_div:
  fixes k r n :: int
  assumes "0 \<le> r" and "r < n" shows "(n * k + r) div n = k" and "(n * k + r) mod n = r"
  using assms by (simp_all add: div_pos_pos_trivial mod_pos_pos_trivial)

lemma div_bounds:
  fixes r n :: int
  assumes "0 \<le> r" and "0 < n" shows "0 \<le> r div n" and "n * (r div n) \<le> r" and "r < n * (r div n) + n"
proof -
  have "n * (r div n) + r mod n = r" "0 \<le> r mod n" "r mod n < n" using assms(2) by simp_all
  then show "n * (r div n) \<le> r" "r < n * (r div n) + n" by linarith+
  show "0 \<le> r div n" using assms by (simp add: pos_imp_zdiv_nonneg_iff)
qed

lemma mod_eq_0_small: "0 < k \<Longrightarrow> k \<le> n \<Longrightarrow> k mod n = 0 \<longleftrightarrow> k = (n :: int)"
  by (cases "k = n") simp_all

lemma year_split:
  fixes c q f g :: int
  assumes "0 \<le> q" "q \<le> 3" "0 \<le> f" "f \<le> 24" "0 \<le> g" "g \<le> 3"
  shows "days_before (400 * c + 100 * q + 4 * f + g + 1) = 146097 * c + 36524 * q + 1461 * f + 365 * g"
    and "leap (400 * c + 100 * q + 4 * f + g + 1) \<longleftrightarrow> g = 3 \<and> (f \<noteq> 24 \<or> q = 3)"
proof -
  let ?y = "400 * c + 100 * q + 4 * f + g"
  have a: "?y div 4 = 100 * c + 25 * q + f"
    using digit_div(1) [of g 4 "100 * c + 25 * q + f"] assms by (simp add: algebra_simps)
  have b: "?y div 100 = 4 * c + q"
    using digit_div(1) [of "4 * f + g" 100 "4 * c + q"] assms by (simp add: algebra_simps)
  have e: "?y div 400 = c"
    using digit_div(1) [of "100 * q + 4 * f + g" 400 c] assms by (simp add: algebra_simps)
  show "days_before (?y + 1) = 146097 * c + 36524 * q + 1461 * f + 365 * g"
    using a b e by (simp add: days_before_def)
  have "(?y + 1) mod 4 = 0 \<longleftrightarrow> g = 3"
  proof -
    have "?y + 1 = 4 * (100 * c + 25 * q + f) + (g + 1)" by simp
    then have "(?y + 1) mod 4 = 0 \<longleftrightarrow> (g + 1) mod 4 = 0" by (metis mod_mult_self4)
    moreover have "(g + 1) mod 4 = 0 \<longleftrightarrow> g + 1 = 4"
      by (rule mod_eq_0_small) (use assms in linarith)+
    ultimately show ?thesis by linarith
  qed
  moreover have "(?y + 1) mod 100 = 0 \<longleftrightarrow> g = 3 \<and> f = 24"
  proof -
    have "?y + 1 = 100 * (4 * c + q) + (4 * f + g + 1)" by simp
    then have "(?y + 1) mod 100 = 0 \<longleftrightarrow> (4 * f + g + 1) mod 100 = 0" by (metis mod_mult_self4)
    moreover have "(4 * f + g + 1) mod 100 = 0 \<longleftrightarrow> 4 * f + g + 1 = 100"
      by (rule mod_eq_0_small) (use assms in linarith)+
    ultimately show ?thesis using assms by linarith
  qed
  moreover have "(?y + 1) mod 400 = 0 \<longleftrightarrow> g = 3 \<and> f = 24 \<and> q = 3"
  proof -
    have "?y + 1 = 400 * c + (100 * q + 4 * f + g + 1)" by simp
    then have "(?y + 1) mod 400 = 0 \<longleftrightarrow> (100 * q + 4 * f + g + 1) mod 400 = 0" by (metis mod_mult_self4)
    moreover have "(100 * q + 4 * f + g + 1) mod 400 = 0 \<longleftrightarrow> 100 * q + 4 * f + g + 1 = 400"
      by (rule mod_eq_0_small) (use assms in linarith)+
    ultimately show ?thesis using assms by linarith
  qed
  ultimately show "leap (?y + 1) \<longleftrightarrow> g = 3 \<and> (f \<noteq> 24 \<or> q = 3)" by (auto simp: leap_def)
qed

lemma year_of_bounds:
  shows "days_before (year_of n) \<le> n" and "n < days_before (year_of n) + (if leap (year_of n) then 366 else 365)"
    and "0 \<le> n \<Longrightarrow> 1 \<le> year_of n"
proof -
  define c r where "c = n div 146097" and "r = n mod 146097"
  define q where "q = min 3 (r div 36524)"
  define r1 where "r1 = r - 36524 * q"
  define f r2 where "f = r1 div 1461" and "r2 = r1 mod 1461"
  define g where "g = min 3 (r2 div 365)"
  have r: "0 \<le> r" "r \<le> 146096" by (simp_all add: r_def)
  note e = div_bounds [OF r(1), of 36524, simplified]
  have q: "0 \<le> q" "q \<le> 3" using e by (simp_all add: q_def)
  have r1: "0 \<le> r1" "r1 \<le> 36524" "q < 3 \<Longrightarrow> r1 \<le> 36523"
    using r e unfolding r1_def q_def min_def by (simp_all split: if_splits)
  note h = div_bounds [OF r1(1), of 1461, simplified]
  have f: "0 \<le> f" "f \<le> 24" using h r1(2) unfolding f_def by linarith+
  have r2: "0 \<le> r2" "r2 \<le> 1460" by (simp_all add: r2_def)
  have f24: "f = 24 \<Longrightarrow> q < 3 \<Longrightarrow> r2 \<le> 1459"
    using r1(3) minus_mult_div_eq_mod [of r1 1461] unfolding f_def r2_def by linarith
  note e2 = div_bounds [OF r2(1), of 365, simplified]
  have g: "0 \<le> g" "g \<le> 3" "365 * g \<le> r2" "r2 \<le> 365 * g + 365" "g < 3 \<Longrightarrow> r2 < 365 * g + 365"
    using r2 e2 unfolding g_def min_def by (simp_all split: if_splits)
  have y: "year_of n = 400 * c + 100 * q + 4 * f + g + 1"
    by (simp add: year_of_def Let_def c_def r_def q_def r1_def f_def r2_def g_def)
  note s = year_split [OF q f g(1,2), of c]
  have n: "n = 146097 * c + 36524 * q + 1461 * f + r2"
  proof -
    have "1461 * f + r2 = r1" unfolding f_def r2_def by (rule mult_div_mod_eq)
    moreover have "146097 * c + r = n" unfolding c_def r_def by (rule mult_div_mod_eq)
    ultimately show ?thesis by (simp add: r1_def)
  qed
  show "1 \<le> year_of n" if "0 \<le> n"
  proof -
    have "0 \<le> c" using that by (simp add: c_def pos_imp_zdiv_nonneg_iff)
    then show ?thesis using y q f g by simp
  qed
  show "days_before (year_of n) \<le> n" using n g s y by simp
  show "n < days_before (year_of n) + (if leap (year_of n) then 366 else 365)"
  proof (cases "g = 3 \<and> (f \<noteq> 24 \<or> q = 3)")
    case True
    then show ?thesis using n g(4) s y by simp
  next
    case False
    have "r2 < 365 * g + 365"
    proof (cases "g < 3")
      case False
      with \<open>\<not> (g = 3 \<and> (f \<noteq> 24 \<or> q = 3))\<close> f24 q(2) g(2) show ?thesis by simp
    qed (use g(5) in simp)
    then show ?thesis using n s y False by simp
  qed
qed

lemma month_of_bounds:
  assumes "0 \<le> d" and "d < sum_list ls" and "month_of ls m d = (m', d')"
  shows "m \<le> m'" and "m' < m + length ls" and "0 \<le> d'" and "d' < ls ! (m' - m)"
    and "sum_list (take (m' - m) ls) + d' = d"
proof -
  have "m \<le> m' \<and> m' < m + length ls \<and> 0 \<le> d' \<and> d' < ls ! (m' - m) \<and> sum_list (take (m' - m) ls) + d' = d"
    using assms
  proof (induction ls m d rule: month_of.induct)
    case (2 l ls m d)
    show ?case
    proof (cases "d < l")
      case False
      with 2 have "m + 1 \<le> m' \<and> m' < m + 1 + length ls \<and> 0 \<le> d' \<and> d' < ls ! (m' - (m + 1)) \<and>
          sum_list (take (m' - (m + 1)) ls) + d' = d - l" by simp
      moreover from this have "m' - m = Suc (m' - (m + 1))" by linarith
      ultimately show ?thesis by simp
    qed (use 2 in simp)
  qed simp
  then show "m \<le> m'" "m' < m + length ls" "0 \<le> d'" "d' < ls ! (m' - m)"
    "sum_list (take (m' - m) ls) + d' = d" by simp_all
qed

definition days_in :: "nat \<Rightarrow> int \<Rightarrow> int" where
  "days_in m y = month_lengths y ! (m - 1)"

lemma days_in_le: "1 \<le> m \<Longrightarrow> m \<le> 12 \<Longrightarrow> days_in m y \<le> 31"
  by (auto simp: days_in_def month_lengths_def nth_Cons split: nat.splits)

lemma date_of_days:
  assumes "date_of n = (y, m, d)"
  shows "days_of y m d = n" and "1 \<le> m" and "m \<le> 12" and "1 \<le> d" and "d \<le> days_in m y" and "y = year_of n"
proof -
  show y: "y = year_of n" using assms by (auto simp: date_of_def Let_def split: prod.splits)
  have l: "sum_list (month_lengths y) = (if leap y then 366 else 365)" "length (month_lengths y) = 12"
    by (simp_all add: month_lengths_def)
  from assms y have m: "month_of (month_lengths y) 1 (n - days_before y) = (m, d - 1)"
    by (auto simp: date_of_def Let_def split: prod.splits)
  note b = month_of_bounds [OF _ _ m]
  have d: "0 \<le> n - days_before y" "n - days_before y < sum_list (month_lengths y)"
    using year_of_bounds(1) [of n] year_of_bounds(2) [of n] unfolding l(1) by (cases "leap y", simp_all add: y)
  note b = b [OF d]
  show "days_of y m d = n" using b(5) by (simp add: days_of_def)
  show "1 \<le> m" "m \<le> 12" "1 \<le> d" "d \<le> days_in m y" using b l by (simp_all add: days_in_def)
qed

lemma dates:
  "date_of 0 = (1, 1, 1)" "date_of 719162 = (1970, 1, 1)" "date_of 730178 = (2000, 2, 29)"
  "date_of 739583 = (2025, 11, 29)"
  by (simp_all add: date_of_def year_of_def days_before_def month_lengths_def leap_def Let_def)

section \<open>Texts\<close>

text \<open>\<open>appendInt\<close>: decimal, padded with zeros to a width.\<close>

definition pad_nat :: "nat \<Rightarrow> nat \<Rightarrow> string" where
  "pad_nat w n = replicate (w - length (format_nat n)) CHR ''0'' @ format_nat n"

definition append_int :: "nat \<Rightarrow> int \<Rightarrow> string" where
  "append_int w x = (if x < 0 then CHR ''-'' # pad_nat w (nat (- x)) else pad_nat w (nat x))"

definition second_ticks :: int where
  "second_ticks = 1000000000"

text \<open>\<open>appendNano\<close> with \<open>.999999999\<close>: nine digits without the zeros at the end.\<close>

definition trim_zeros :: "string \<Rightarrow> string" where
  "trim_zeros s = rev (dropWhile (\<lambda>c. c = CHR ''0'') (rev s))"

definition format_fraction :: "nat \<Rightarrow> string" where
  "format_fraction ns = (if ns = 0 then [] else CHR ''.'' # trim_zeros (pad_nat 9 ns))"

text \<open>\<open>t.UTC().Format(time.RFC3339Nano)\<close>\<close>

definition format_rfc3339 :: "time \<Rightarrow> string" where
  "format_rfc3339 t =
     (let secs = t div second_ticks; (y, m, d) = date_of (secs div 86400); tod = nat (secs mod 86400)
      in append_int 4 y @ CHR ''-'' # pad_nat 2 m @ CHR ''-'' # append_int 2 d @ CHR ''T'' #
         pad_nat 2 (tod div 3600) @ CHR '':'' # pad_nat 2 (tod div 60 mod 60) @ CHR '':'' #
         pad_nat 2 (tod mod 60) @ format_fraction (nat (t mod second_ticks)) @ ''Z'')"

definition digits_between :: "nat \<Rightarrow> nat \<Rightarrow> string \<Rightarrow> nat option" where
  "digits_between lo hi s =
     (if list_all is_digit s \<and> lo \<le> numeral_val s \<and> numeral_val s \<le> hi then Some (numeral_val s) else None)"

text \<open>Digits past the ninth are dropped.\<close>

definition parse_fraction :: "string \<Rightarrow> nat \<times> string" where
  "parse_fraction s =
     (case s of
        p # c # cs \<Rightarrow>
          if p = CHR ''.'' \<and> is_digit c then
            (let ds = take 9 (takeWhile is_digit (c # cs))
             in (numeral_val ds * 10 ^ (9 - length ds), dropWhile is_digit (c # cs)))
          else (0, s)
      | _ \<Rightarrow> (0, s))"

text \<open>The offset of the zone, in seconds.\<close>

definition parse_zone :: "string \<Rightarrow> int option" where
  "parse_zone s =
     (if s = ''Z'' then Some 0
      else case s of
        [sign, h1, h2, colon, m1, m2] \<Rightarrow>
          do { h \<leftarrow> digits_between 0 23 [h1, h2];
               m \<leftarrow> digits_between 0 59 [m1, m2];
               if (sign = CHR ''-'' \<or> sign = CHR ''+'') \<and> colon = CHR '':''
               then Some (let offset = (int h * 60 + int m) * 60 in if sign = CHR ''-'' then - offset else offset)
               else None }
      | _ \<Rightarrow> None)"

text \<open>\<open>parseRFC3339\<close>\<close>

definition parse_rfc3339 :: "string \<Rightarrow> time option" where
  "parse_rfc3339 s =
     (if length s < 19 then None
      else do {
        y \<leftarrow> digits_between 0 9999 (take 4 s);
        mo \<leftarrow> digits_between 1 12 (take 2 (drop 5 s));
        d \<leftarrow> digits_between 1 (nat (days_in mo (int y))) (take 2 (drop 8 s));
        h \<leftarrow> digits_between 0 23 (take 2 (drop 11 s));
        mi \<leftarrow> digits_between 0 59 (take 2 (drop 14 s));
        se \<leftarrow> digits_between 0 59 (take 2 (drop 17 s));
        if s ! 4 = CHR ''-'' \<and> s ! 7 = CHR ''-'' \<and> s ! 10 = CHR ''T'' \<and> s ! 13 = CHR '':'' \<and> s ! 16 = CHR '':''
        then (let (ns, rest) = parse_fraction (drop 19 s) in
          do { zone \<leftarrow> parse_zone rest;
               Some ((((days_of (int y) mo (int d) * 24 + int h) * 60 + int mi) * 60 + int se - zone) * second_ticks
                 + int ns) })
        else None })"

section \<open>Parsing undoes formatting\<close>

lemma numeral_val_append: "numeral_val (s @ s') = numeral_val s * 10 ^ length s' + numeral_val s'"
  by (induction s' rule: rev_induct) (simp_all flip: append_assoc add: algebra_simps)

lemma numeral_val_zeros [simp]: "numeral_val (replicate k CHR ''0'') = 0"
  by (induction k) (simp_all add: replicate_append_same [symmetric] digit_val_def)

lemma numeral_val_pad [simp]: "numeral_val (pad_nat w n) = n"
  by (simp add: pad_nat_def numeral_val_append)

lemma digits_pad [simp]: "list_all is_digit (pad_nat w n)"
  using format_nat_digits [of n] by (auto simp: pad_nat_def list_all_iff is_digit_def)

lemma length_format_nat: "n < 10 ^ k \<Longrightarrow> 0 < k \<Longrightarrow> length (format_nat n) \<le> k"
proof (induction k arbitrary: n)
  case (Suc k)
  show ?case
  proof (cases "n < 10")
    case False
    then have "0 < k" using Suc.prems(1) by (cases k) simp_all
    with False Suc show ?thesis by (subst format_nat.simps) (simp add: less_mult_imp_div_less mult.commute)
  qed (subst format_nat.simps, simp)
qed simp

lemma length_pad: "n < 10 ^ w \<Longrightarrow> 0 < w \<Longrightarrow> length (pad_nat w n) = w"
  using length_format_nat [of n w] by (simp add: pad_nat_def)

lemma trim_zeros_split: "\<exists>k. s = trim_zeros s @ replicate k CHR ''0''"
proof -
  have "rev s = takeWhile (\<lambda>c. c = CHR ''0'') (rev s) @ rev (trim_zeros s)"
    by (simp add: trim_zeros_def)
  moreover have "takeWhile (\<lambda>c. c = CHR ''0'') (rev s) =
      replicate (length (takeWhile (\<lambda>c. c = CHR ''0'') (rev s))) CHR ''0''"
    by (rule replicate_length_same [symmetric]) (auto dest: set_takeWhileD)
  ultimately have "s = trim_zeros s @ rev (replicate (length (takeWhile (\<lambda>c. c = CHR ''0'') (rev s))) CHR ''0'')"
    by (metis rev_append rev_rev_ident)
  then show ?thesis by (metis rev_replicate)
qed

lemma parse_format_fraction:
  assumes n: "n < 1000000000" and z: "\<not> is_digit z" and "z \<noteq> CHR ''.''"
  shows "parse_fraction (format_fraction n @ z # rest) = (n, z # rest)"
proof (cases "n = 0")
  case True
  with z assms(3) show ?thesis by (auto simp: format_fraction_def parse_fraction_def split: list.splits)
next
  case False
  obtain k where k: "pad_nat 9 n = trim_zeros (pad_nat 9 n) @ replicate k CHR ''0''"
    using trim_zeros_split by blast
  let ?ds = "trim_zeros (pad_nat 9 n)"
  have l: "length ?ds + k = 9" using arg_cong [OF k, of length] length_pad [of n 9] n by simp
  have v: "numeral_val ?ds * 10 ^ k = n"
    using arg_cong [OF k, of numeral_val] by (simp add: numeral_val_append)
  have ds: "list_all is_digit ?ds" using digits_pad [of 9 n] by (subst (asm) k) simp
  have "?ds \<noteq> []" using v False by auto
  then obtain c cs where c: "?ds = c # cs" by (cases ?ds) auto
  have k9: "k = 9 - length ?ds" using l by simp
  have "takeWhile is_digit (?ds @ z # rest) = ?ds" "dropWhile is_digit (?ds @ z # rest) = z # rest"
    using ds z by (simp_all add: takeWhile_append2 dropWhile_append2 list_all_iff)
  then show ?thesis
    using False c ds v l k9 by (simp add: format_fraction_def parse_fraction_def)
qed

lemma format_fraction_zone [simp]:
  "n < 1000000000 \<Longrightarrow> parse_fraction (format_fraction n @ ''Z'') = (n, ''Z'')"
  by (rule parse_format_fraction) (simp_all add: is_digit_def)

lemma digits_between_pad [simp]: "lo \<le> n \<Longrightarrow> n \<le> hi \<Longrightarrow> digits_between lo hi (pad_nat w n) = Some n"
  by (simp add: digits_between_def)

text \<open>What the positions of a formatted instant hold.\<close>

lemma fixed_layout:
  assumes "length y = 4" "length mo = 2" "length d = 2" "length h = 2" "length mi = 2" "length se = 2"
    and s: "s = y @ a # mo @ b # d @ c # h @ e # mi @ f # se @ rest"
  shows "length s \<ge> 19" and "take 4 s = y" and "take 2 (drop 5 s) = mo" and "take 2 (drop 8 s) = d"
    and "take 2 (drop 11 s) = h" and "take 2 (drop 14 s) = mi" and "take 2 (drop 17 s) = se" and "drop 19 s = rest"
    and "s ! 4 = a" and "s ! 7 = b" and "s ! 10 = c" and "s ! 13 = e" and "s ! 16 = f"
  using assms(1-6) unfolding s by (auto simp: length_Suc_conv numeral_eq_Suc)

definition rfc3339_range :: "time \<Rightarrow> bool" where
  "rfc3339_range t \<longleftrightarrow> 0 \<le> t \<and> t < days_before 10000 * 86400 * second_ticks"

lemma days_before_le: "x \<le> y \<Longrightarrow> days_before x \<le> days_before y"
proof -
  assume "x \<le> y"
  then have "(x - 1) div 4 \<le> (y - 1) div 4" "(x - 1) div 400 \<le> (y - 1) div 400"
    "(y - 1) div 100 - (x - 1) div 100 \<le> y - x" by (simp_all add: zdiv_mono1)
  with \<open>x \<le> y\<close> show ?thesis by (simp add: days_before_def)
qed

theorem parse_format_rfc3339:
  assumes t: "rfc3339_range t" shows "parse_rfc3339 (format_rfc3339 t) = Some t"
proof -
  let ?secs = "t div second_ticks"
  obtain y m d where dt: "date_of (?secs div 86400) = (y, m, d)" by (cases "date_of (?secs div 86400)")
  note D = date_of_days [OF dt]
  have days: "0 \<le> ?secs div 86400" "?secs div 86400 < days_before 10000"
    using t by (auto simp: rfc3339_range_def second_ticks_def days_before_def zdiv_zmult2_eq [symmetric])
  have "y \<le> 9999"
  proof (rule ccontr)
    assume "\<not> y \<le> 9999"
    then have "days_before 10000 \<le> days_before y" by (intro days_before_le) simp
    then show False using year_of_bounds(1) [of "?secs div 86400"] D(6) days(2) by simp
  qed
  with year_of_bounds(3) [OF days(1)] D(6) have y: "1 \<le> y" "y \<le> 9999" by simp_all
  define tod ns where "tod = nat (?secs mod 86400)" and "ns = nat (t mod second_ticks)"
  define h mi se where "h = tod div 3600" and "mi = tod div 60 mod 60" and "se = tod mod 60"
  let ?s = "format_rfc3339 t"
  have s: "?s = pad_nat 4 (nat y) @ CHR ''-'' # pad_nat 2 m @ CHR ''-'' # pad_nat 2 (nat d) @ CHR ''T'' #
      pad_nat 2 h @ CHR '':'' # pad_nat 2 mi @ CHR '':'' # pad_nat 2 se @ (format_fraction ns @ ''Z'')"
    using y D(4) by (simp add: format_rfc3339_def Let_def dt append_int_def h_def mi_def se_def tod_def ns_def)
  have d: "nat d \<le> nat (days_in m y)" "d \<le> 31" "1 \<le> nat d"
    using D(4,5) days_in_le [OF D(2,3), of y] by simp_all
  have tod: "tod < 86400" "int tod = ?secs mod 86400" by (simp_all add: tod_def nat_less_iff)
  have hms: "h \<le> 23" "mi \<le> 59" "se \<le> 59" using tod(1) by (simp_all add: h_def mi_def se_def)
  have ns: "ns < 1000000000" "?secs * second_ticks + int ns = t"
    by (simp_all add: nat_less_iff second_ticks_def ns_def)
  have yd: "nat y < 10 ^ 4" "nat d < 10 ^ 2" "m < 10 ^ 2" "h < 10 ^ 2" "mi < 10 ^ 2" "se < 10 ^ 2"
    using y d D(3) hms by simp_all
  have len: "length (pad_nat 4 (nat y)) = 4" "length (pad_nat 2 m) = 2" "length (pad_nat 2 (nat d)) = 2"
    "length (pad_nat 2 h) = 2" "length (pad_nat 2 mi) = 2" "length (pad_nat 2 se) = 2"
    using length_pad [OF yd(1)] length_pad [OF yd(2)] length_pad [OF yd(3)] length_pad [OF yd(4)]
      length_pad [OF yd(5)] length_pad [OF yd(6)] by simp_all
  note L = fixed_layout [OF len s]
  have "h * 60 + mi = tod div 60"
    using div_mult_mod_eq [of "tod div 60" 60] by (simp add: h_def mi_def flip: div_mult2_eq)
  then have "(h * 60 + mi) * 60 + se = tod" using div_mult_mod_eq [of tod 60] by (simp add: se_def)
  then have tod': "int tod = (int h * 60 + int mi) * 60 + int se"
    by (metis of_nat_add of_nat_mult of_nat_numeral)
  have "?secs div 86400 * 86400 + int tod = ?secs" using tod(2) by simp
  then have "((days_of y m d * 24 + int h) * 60 + int mi) * 60 + int se = ?secs"
    unfolding D(1) tod' by (simp add: algebra_simps)
  with ns(2) show ?thesis
    using L y d D(2,3,4) hms ns(1) by (simp add: parse_rfc3339_def parse_zone_def)
qed

end
