(* ===== verification/Money.thy ===== *)
theory Money
  imports Prelude
begin

text \<open>
  The value type \<open>Money\<close> of \<open>internal/domain/money.go\<close>: an \<open>int64\<close> of minor
  units and an ISO 4217 code. The parser, the printer, the JSON form, and the arithmetic
  with its overflow checks are translated as written. \<open>currency.ParseISO\<close> of
  \<open>golang.org/x/text\<close> is the parameter \<open>iso4217\<close>: whether it recognises a code.
\<close>

section \<open>The type and its validation\<close>

record money =
  money_minor :: int64
  money_currency :: string

definition no_money :: money where
  "no_money = \<lparr>money_minor = 0, money_currency = []\<rparr>"

definition parse_currency :: "(string \<Rightarrow> bool) \<Rightarrow> string \<Rightarrow> bool" where
  "parse_currency iso4217 code \<longleftrightarrow>
     length code = 3 \<and>
     list_all (\<lambda>c. 65 \<le> (of_char c :: nat) \<and> (of_char c :: nat) \<le> 90) code \<and>
     iso4217 code"

definition validate_money :: "(string \<Rightarrow> bool) \<Rightarrow> money \<Rightarrow> unit res" where
  "validate_money iso4217 m =
     (if parse_currency iso4217 (money_currency m) then Inr () else Inl ErrInvalidMoney)"

definition new_money_from_minor :: "(string \<Rightarrow> bool) \<Rightarrow> int64 \<Rightarrow> string \<Rightarrow> money res" where
  "new_money_from_minor iso4217 minor cur =
     (if parse_currency iso4217 cur
      then Inr \<lparr>money_minor = minor, money_currency = cur\<rparr> else Inl ErrInvalidMoney)"

definition zero_money :: "(string \<Rightarrow> bool) \<Rightarrow> string \<Rightarrow> money res" where
  "zero_money iso4217 cur = new_money_from_minor iso4217 0 cur"

definition is_zero :: "money \<Rightarrow> bool" where
  "is_zero m \<longleftrightarrow> money_minor m = 0"

definition is_positive :: "money \<Rightarrow> bool" where
  "is_positive m \<longleftrightarrow> 0 <s money_minor m"

definition is_negative :: "money \<Rightarrow> bool" where
  "is_negative m \<longleftrightarrow> money_minor m <s 0"

section \<open>Parsing and printing\<close>

text \<open>
  \<open>FindStringSubmatch\<close> with \<open>^(0|[1-9][0-9]*)\.([0-9]{2})$\<close>: the two groups of the
  match. The last three characters are fixed by the pattern, so the text is read from its
  end.
\<close>

definition match_amount :: "string \<Rightarrow> (string \<times> string) option" where
  "match_amount s =
     (case rev s of
        c2 # c1 # dot # major \<Rightarrow>
          if dot = CHR ''.'' \<and> is_digit c1 \<and> is_digit c2 \<and> canonical_numeral (rev major)
          then Some (rev major, [c1, c2]) else None
      | _ \<Rightarrow> None)"

definition parse_non_negative_minor :: "string \<Rightarrow> uint64 \<Rightarrow> uint64 res" where
  "parse_non_negative_minor amount maximum =
     (case match_amount amount of
        None \<Rightarrow> Inl ErrInvalidMoney
      | Some (m1, m2) \<Rightarrow>
          (case parse_uint64 m1 of
             None \<Rightarrow> Inl ErrMoneyOverflow
           | Some major \<Rightarrow>
               (let cents = (case parse_uint64 m2 of None \<Rightarrow> 0 | Some c \<Rightarrow> c)
                in if (maximum - cents) div 100 < major then Inl ErrMoneyOverflow
                   else Inr (major * 100 + cents))))"

definition parse_money :: "(string \<Rightarrow> bool) \<Rightarrow> string \<Rightarrow> string \<Rightarrow> money res" where
  "parse_money iso4217 amount cur =
     (if \<not> parse_currency iso4217 cur then Inl ErrInvalidMoney
      else res_bind (parse_non_negative_minor amount max_int64)
             (\<lambda>minor. Inr \<lparr>money_minor = minor, money_currency = cur\<rparr>))"

text \<open>\<open>Money.Amount\<close>: the magnitude is computed in \<open>uint64\<close> as \<open>-(minor+1)+1\<close>.\<close>

definition amount_magnitude :: "money \<Rightarrow> uint64" where
  "amount_magnitude m =
     (if money_minor m <s 0 then - (money_minor m + 1) + 1 else money_minor m)"

definition format_magnitude :: "uint64 \<Rightarrow> string" where
  "format_magnitude a =
     format_nat (unat (a div 100)) @ ''.'' @
     (if unat (a mod 100) < 10 then ''0'' else []) @ format_nat (unat (a mod 100))"

definition money_amount :: "money \<Rightarrow> string" where
  "money_amount m =
     (if money_minor m <s 0 then ''-'' else []) @ format_magnitude (amount_magnitude m)"

section \<open>The JSON form\<close>

text \<open>
  \<open>serializedMoney\<close> is the object with the two string fields; the JSON text itself is
  \<open>encoding/json\<close>'s. \<open>None\<close> is a text that \<open>json.Unmarshal\<close> rejects for this
  struct (for instance a numeric amount).
\<close>

record serialized_money =
  ser_amount :: string
  ser_currency :: string

definition marshal_money :: "(string \<Rightarrow> bool) \<Rightarrow> money \<Rightarrow> serialized_money res" where
  "marshal_money iso4217 m =
     res_bind (validate_money iso4217 m)
       (\<lambda>_. Inr \<lparr>ser_amount = money_amount m, ser_currency = money_currency m\<rparr>)"

definition unmarshal_money ::
    "(string \<Rightarrow> bool) \<Rightarrow> serialized_money option \<Rightarrow> money res" where
  "unmarshal_money iso4217 encoded =
     (case encoded of
        None \<Rightarrow> Inl ErrInvalidMoney
      | Some e \<Rightarrow>
          (let negative = (ser_amount e \<noteq> [] \<and> hd (ser_amount e) = CHR ''-'');
               amount = (if negative then tl (ser_amount e) else ser_amount e)
           in if \<not> negative then parse_money iso4217 amount (ser_currency e)
              else if \<not> parse_currency iso4217 (ser_currency e) then Inl ErrInvalidMoney
              else res_bind (parse_non_negative_minor amount (max_int64 + 1))
                (\<lambda>absolute.
                   if absolute = 0 then Inl ErrInvalidMoney
                   else Inr \<lparr>money_minor =
                               (if absolute = max_int64 + 1 then min_int64 else - absolute),
                             money_currency = ser_currency e\<rparr>)))"

section \<open>Arithmetic\<close>

definition compatible :: "(string \<Rightarrow> bool) \<Rightarrow> money \<Rightarrow> money \<Rightarrow> unit res" where
  "compatible iso4217 m other =
     res_bind (validate_money iso4217 m) (\<lambda>_.
     res_bind (validate_money iso4217 other) (\<lambda>_.
     if money_currency m \<noteq> money_currency other then Inl ErrCurrencyMismatch else Inr ()))"

definition money_add :: "(string \<Rightarrow> bool) \<Rightarrow> money \<Rightarrow> money \<Rightarrow> money res" where
  "money_add iso4217 m other =
     res_bind (compatible iso4217 m other) (\<lambda>_.
     if (0 <s money_minor other \<and> max_int64 - money_minor other <s money_minor m) \<or>
        (money_minor other <s 0 \<and> money_minor m <s min_int64 - money_minor other)
     then Inl ErrMoneyOverflow
     else Inr \<lparr>money_minor = money_minor m + money_minor other,
               money_currency = money_currency m\<rparr>)"

definition money_negate :: "(string \<Rightarrow> bool) \<Rightarrow> money \<Rightarrow> money res" where
  "money_negate iso4217 m =
     res_bind (validate_money iso4217 m) (\<lambda>_.
     if money_minor m = min_int64 then Inl ErrMoneyOverflow
     else Inr \<lparr>money_minor = - money_minor m, money_currency = money_currency m\<rparr>)"

definition money_subtract :: "(string \<Rightarrow> bool) \<Rightarrow> money \<Rightarrow> money \<Rightarrow> money res" where
  "money_subtract iso4217 m other =
     res_bind (money_negate iso4217 other) (\<lambda>negated. money_add iso4217 m negated)"

definition money_compare :: "(string \<Rightarrow> bool) \<Rightarrow> money \<Rightarrow> money \<Rightarrow> int res" where
  "money_compare iso4217 m other =
     res_bind (compatible iso4217 m other) (\<lambda>_.
     if money_minor m <s money_minor other then Inr (- 1)
     else if money_minor other <s money_minor m then Inr 1
     else Inr 0)"

section \<open>Lemmas: arithmetic is exact or refused\<close>

lemma validate_money_ok [simp]:
  "validate_money iso4217 m = Inr u \<longleftrightarrow> parse_currency iso4217 (money_currency m)"
  by (simp add: validate_money_def)

lemma validate_money_err [simp]:
  "validate_money iso4217 m = Inl e \<longleftrightarrow>
     \<not> parse_currency iso4217 (money_currency m) \<and> e = ErrInvalidMoney"
  by (auto simp: validate_money_def)

lemma overflow_test_exact:
  "(0 <s b \<and> max_int64 - b <s a) \<or> (b <s 0 \<and> a <s min_int64 - b) \<longleftrightarrow>
     \<not> int64_range (sint a + sint (b :: int64))"
proof (cases "0 < sint b")
  case True
  have "sint (max_int64 - b) = sint max_int64 - sint b"
    by (rule sint_diff_exact) (use True sint_le_max [of b] in \<open>simp add: int64_range_def\<close>)
  with True show ?thesis
    using sint_ge_min [of a] by (auto simp: sless_iff_sint int64_range_def)
next
  case False
  have "sint (min_int64 - b) = sint min_int64 - sint b"
    by (rule sint_diff_exact) (use False sint_ge_min [of b] in \<open>simp add: int64_range_def\<close>)
  with False show ?thesis
    using sint_le_max [of a] sint_ge_min [of a]
    by (cases "sint b = 0") (auto simp: sless_iff_sint int64_range_def)
qed

lemma money_add_spec:
  "money_add iso4217 m n =
     (if \<not> parse_currency iso4217 (money_currency m) \<or> \<not> parse_currency iso4217 (money_currency n)
      then Inl ErrInvalidMoney
      else if money_currency m \<noteq> money_currency n then Inl ErrCurrencyMismatch
      else if int64_range (sint (money_minor m) + sint (money_minor n))
      then Inr \<lparr>money_minor = word_of_int (sint (money_minor m) + sint (money_minor n)),
                money_currency = money_currency m\<rparr>
      else Inl ErrMoneyOverflow)"
  unfolding money_add_def overflow_test_exact
  by (simp add: compatible_def validate_money_def res_bind_def)

lemma money_add_ok:
  "money_add iso4217 m n = Inr r \<longleftrightarrow>
     parse_currency iso4217 (money_currency m) \<and> money_currency n = money_currency m \<and>
     money_currency r = money_currency m \<and>
     sint (money_minor r) = sint (money_minor m) + sint (money_minor n)"
  (is "?L \<longleftrightarrow> ?R")
proof
  assume ?L
  then show ?R by (auto simp: money_add_spec sint_add_exact split: if_splits)
next
  assume ?R
  moreover from this have "int64_range (sint (money_minor m) + sint (money_minor n))"
    by (metis sint_in_range)
  moreover from \<open>?R\<close> have "money_minor r = word_of_int (sint (money_minor m) + sint (money_minor n))"
    by (metis int64_eq_iff_sint sint_in_range sint_of_int_exact)
  ultimately show ?L by (cases r) (simp add: money_add_spec)
qed

lemma money_negate_ok:
  "money_negate iso4217 m = Inr r \<longleftrightarrow>
     parse_currency iso4217 (money_currency m) \<and> money_currency r = money_currency m \<and>
     sint (money_minor r) = - sint (money_minor m)"
  (is "?L \<longleftrightarrow> ?R")
proof (cases "money_minor m = min_int64")
  case True
  have "sint (money_minor r) \<noteq> 9223372036854775808"
    using sint_le_max [of "money_minor r"] by linarith
  with True show ?thesis by (simp add: money_negate_def)
next
  case False
  then have "int64_range (- sint (money_minor m))"
    using sint_le_max [of "money_minor m"] sint_ge_min [of "money_minor m"]
    by (auto simp: int64_range_def int64_eq_iff_sint)
  then have "sint (- money_minor m) = - sint (money_minor m)"
    by (rule sint_uminus_exact)
  with False show ?thesis
    by (cases r) (auto simp: money_negate_def int64_eq_iff_sint)
qed

lemma money_subtract_ok:
  "money_subtract iso4217 m n = Inr r \<longleftrightarrow>
     parse_currency iso4217 (money_currency m) \<and> money_currency n = money_currency m \<and>
     money_currency r = money_currency m \<and> money_minor n \<noteq> min_int64 \<and>
     sint (money_minor r) = sint (money_minor m) - sint (money_minor n)"
  (is "?L \<longleftrightarrow> ?R")
proof
  assume ?L
  then obtain k where k: "money_negate iso4217 n = Inr k" "money_add iso4217 m k = Inr r"
    by (auto simp: money_subtract_def)
  from k(1) have "money_minor n \<noteq> min_int64" by (auto simp: money_negate_def split: if_splits)
  with k show ?R by (simp add: money_negate_ok money_add_ok)
next
  assume R: ?R
  let ?k = "\<lparr>money_minor = - money_minor n, money_currency = money_currency n\<rparr>"
  from R have k: "money_negate iso4217 n = Inr ?k" by (simp add: money_negate_def)
  then have "sint (money_minor ?k) = - sint (money_minor n)" by (simp only: money_negate_ok)
  with R k show ?L by (simp add: money_subtract_def money_add_ok)
qed

section \<open>Lemmas: the parser accepts exactly the printed amounts\<close>

lemma format_nat_two_digits:
  assumes "n < 100"
  shows "(if n < 10 then ''0'' else []) @ format_nat n = [digit_char (n div 10), digit_char (n mod 10)]"
proof (cases "n < 10")
  case True
  then show ?thesis by (simp add: format_nat.simps [of n])
next
  case False
  have "n div 10 < 10" using assms by simp
  with False show ?thesis by (simp add: format_nat.simps [of n] format_nat.simps [of "n div 10"])
qed

lemma match_amount_iff:
  "match_amount s = Some (m1, m2) \<longleftrightarrow>
     (\<exists>c1 c2. m2 = [c1, c2] \<and> s = m1 @ [CHR ''.'', c1, c2] \<and> is_digit c1 \<and> is_digit c2 \<and>
        canonical_numeral m1)"
proof -
  have "s = m1 @ [d, c1, c2] \<longleftrightarrow> rev s = c2 # c1 # d # rev m1" for d c1 c2
    by (metis append.assoc append_Cons append_Nil rev.simps(2) rev_append rev_rev_ident rev_singleton_conv)
  then show ?thesis
    by (auto simp: match_amount_def split: list.splits if_splits)
qed

lemma match_amount_none:
  "match_amount s = None \<Longrightarrow> parse_non_negative_minor s mx = Inl ErrInvalidMoney"
  by (simp add: parse_non_negative_minor_def)

lemma unat_diff_div_100:
  assumes "c \<le> 99" and "99 \<le> unat (mx :: uint64)"
  shows "unat ((mx - of_nat c) div 100) = (unat mx - c) div 100"
proof -
  have c: "unat (of_nat c :: uint64) = c"
    using assms(1) by (simp add: unat_of_nat)
  have "of_nat c \<le> mx"
    using assms c by (simp add: word_le_nat_alt)
  then have "unat (mx - of_nat c) = unat mx - c"
    by (simp add: unat_sub c)
  then show ?thesis by (simp add: unat_div)
qed

lemma parse_minor_value:
  assumes m: "match_amount s = Some (m1, m2)" and mx: "99 \<le> unat (mx :: uint64)"
  shows "parse_non_negative_minor s mx =
    (if numeral_val m1 * 100 + numeral_val m2 \<le> unat mx
     then Inr (of_nat (numeral_val m1 * 100 + numeral_val m2)) else Inl ErrMoneyOverflow)"
proof -
  define M c where "M = numeral_val m1" and "c = numeral_val m2"
  from m obtain c1 c2 where m2: "m2 = [c1, c2]" and d: "is_digit c1" "is_digit c2"
    and m1: "canonical_numeral m1"
    by (auto simp: match_amount_iff)
  have ceq: "c = digit_val c1 * 10 + digit_val c2"
    using numeral_val_snoc [of "[c1]" c2] by (simp add: c_def m2)
  then have c: "c \<le> 99" using digit_val_less [OF d(1)] digit_val_less [OF d(2)] by simp
  have p2: "parse_uint64 m2 = Some (of_nat c)"
    using d c by (simp add: parse_uint64_def m2 flip: c_def [unfolded m2])
  have p1: "parse_uint64 m1 = (if M < 18446744073709551616 then Some (of_nat M) else None)"
    using m1 by (simp add: parse_uint64_def M_def canonical_digits canonical_nonempty)
  have mx64: "unat mx < 18446744073709551616"
    using unsigned_less [of mx, where 'a = nat] by simp
  show ?thesis
  proof (cases "M < 18446744073709551616")
    case False
    then have "\<not> M * 100 + c \<le> unat mx" using mx64 by simp
    with False m p1 show ?thesis
      by (simp add: parse_non_negative_minor_def M_def c_def)
  next
    case True
    then have uM: "unat (of_nat M :: uint64) = M" by (simp add: unat_of_nat)
    have "(mx - of_nat c) div 100 < of_nat M \<longleftrightarrow> (unat mx - c) div 100 < M"
      using unat_diff_div_100 [OF c mx] by (simp add: word_less_nat_alt uM)
    also have "\<dots> \<longleftrightarrow> \<not> M * 100 + c \<le> unat mx"
      using c mx by linarith
    finally have test: "(mx - of_nat c) div 100 < of_nat M \<longleftrightarrow> \<not> M * 100 + c \<le> unat mx" .
    from True m p1 p2 test show ?thesis
      by (simp add: parse_non_negative_minor_def M_def c_def)
  qed
qed

lemma format_magnitude_eq:
  "format_magnitude a =
     format_nat (unat a div 100) @ [CHR ''.'', digit_char (unat a mod 100 div 10), digit_char (unat a mod 10)]"
proof -
  have "unat a mod 100 mod 10 = unat a mod 10" by (simp add: mod_mod_cancel)
  moreover have "unat a mod 100 < 100" by simp
  ultimately show ?thesis
    using format_nat_two_digits [of "unat a mod 100"]
    by (simp add: format_magnitude_def unat_div unat_mod)
qed

lemma format_magnitude_match:
  "\<exists>m2. match_amount (format_magnitude a) = Some (format_nat (unat a div 100), m2) \<and>
     numeral_val m2 = unat a mod 100"
proof -
  let ?m2 = "[digit_char (unat a mod 100 div 10), digit_char (unat a mod 10)]"
  have d: "unat a mod 100 div 10 < 10" "unat a mod 10 < 10" by simp_all
  have "match_amount (format_magnitude a) = Some (format_nat (unat a div 100), ?m2)"
    using d by (simp add: match_amount_iff format_magnitude_eq canonical_format_nat)
  moreover have "numeral_val ?m2 = unat a mod 100 div 10 * 10 + unat a mod 10"
    using numeral_val_snoc [of "[digit_char (unat a mod 100 div 10)]"] d by simp
  moreover note join_two_digits [of "unat a"]
  ultimately show ?thesis by (metis (no_types))
qed

lemma parse_format_magnitude:
  assumes "unat a \<le> unat (mx :: uint64)" and "99 \<le> unat mx"
  shows "parse_non_negative_minor (format_magnitude a) mx = Inr a"
proof -
  obtain m2 where m2: "match_amount (format_magnitude a) = Some (format_nat (unat a div 100), m2)"
    "numeral_val m2 = unat a mod 100"
    using format_magnitude_match by blast
  have "unat a div 100 * 100 + unat a mod 100 = unat a" by (rule div_mult_mod_eq)
  with parse_minor_value [OF m2(1) assms(2)] m2(2) assms(1) show ?thesis by simp
qed

lemma format_magnitude_of_parts:
  assumes "canonical_numeral m1" and d: "is_digit c1" "is_digit c2"
    and a: "unat a = numeral_val m1 * 100 + numeral_val [c1, c2]"
  shows "format_magnitude a = m1 @ [CHR ''.'', c1, c2]"
proof -
  have c: "numeral_val [c1, c2] = digit_val c1 * 10 + digit_val c2"
    using numeral_val_snoc [of "[c1]" c2] by simp
  have "digit_val c1 < 10" "digit_val c2 < 10" using d by (simp_all add: digit_val_less)
  note parts = split_two_digits [OF a [unfolded c] this]
  show ?thesis
    unfolding format_magnitude_eq parts using assms(1-3)
    by (simp add: format_nat_val digit_char_val)
qed

lemma parse_minor_iff:
  assumes mx: "99 \<le> unat (mx :: uint64)"
  shows "parse_non_negative_minor s mx = Inr a \<longleftrightarrow> unat a \<le> unat mx \<and> s = format_magnitude a"
  (is "?L \<longleftrightarrow> ?R")
proof
  assume L: ?L
  then obtain m1 m2 where m: "match_amount s = Some (m1, m2)"
    by (cases "match_amount s") (auto simp: match_amount_none)
  from L m parse_minor_value [OF m mx]
  have le: "numeral_val m1 * 100 + numeral_val m2 \<le> unat mx"
    and a: "a = of_nat (numeral_val m1 * 100 + numeral_val m2)"
    by (auto split: if_splits)
  have "unat mx < 18446744073709551616" using unsigned_less [of mx, where 'a = nat] by simp
  with le a have ua: "unat a = numeral_val m1 * 100 + numeral_val m2"
    by (simp add: unat_of_nat del: of_nat_add of_nat_mult)
  from m obtain c1 c2 where "m2 = [c1, c2]" "s = m1 @ [CHR ''.'', c1, c2]" "is_digit c1" "is_digit c2"
    "canonical_numeral m1" by (auto simp: match_amount_iff)
  with ua le show ?R by (simp add: format_magnitude_of_parts)
next
  assume ?R
  then show ?L using mx by (simp add: parse_format_magnitude)
qed

lemma amount_nonneg: "\<not> is_negative m \<Longrightarrow> money_amount m = format_magnitude (money_minor m)"
  by (simp add: money_amount_def amount_magnitude_def is_negative_def)

lemma amount_neg: "is_negative m \<Longrightarrow> money_amount m = CHR ''-'' # format_magnitude (- money_minor m)"
  by (simp add: money_amount_def amount_magnitude_def is_negative_def)

lemma unat_max_int64 [simp]: "unat max_int64 = 9223372036854775807"
  by (simp add: max_int64_def)

lemma unat_max_int64_Suc [simp]: "unat (max_int64 + 1) = 9223372036854775808"
  by (simp add: max_int64_def)

lemma parse_money_iff:
  "parse_money iso4217 s cur = Inr m \<longleftrightarrow>
     parse_currency iso4217 cur \<and> money_currency m = cur \<and> \<not> is_negative m \<and> money_amount m = s"
proof -
  have "\<not> is_negative m \<Longrightarrow> money_amount m = s \<longleftrightarrow> s = format_magnitude (money_minor m)"
    by (auto simp: amount_nonneg)
  moreover have "\<not> is_negative m \<longleftrightarrow> unat (money_minor m) \<le> 9223372036854775807"
    by (simp add: is_negative_def nonneg_iff_unat)
  ultimately show ?thesis
    by (cases m) (auto simp: parse_money_def parse_minor_iff)
qed

lemma format_magnitude_hd: "is_digit (hd (format_magnitude a))" "format_magnitude a \<noteq> []"
  using format_nat_digits [of "unat a div 100"]
  by (auto simp: format_magnitude_eq list_all_iff hd_append)

lemma not_digit_minus [simp]: "\<not> is_digit CHR ''-''"
  by (simp add: is_digit_def)

lemma format_magnitude_not_minus: "hd (format_magnitude a) \<noteq> CHR ''-''"
  by (metis format_magnitude_hd(1) not_digit_minus)

lemma negative_minor_of_magnitude:
  "(if a = max_int64 + 1 then min_int64 else - a) = - (a :: uint64)"
  by (simp add: max_int64_def min_int64_def)

lemma unmarshal_negative:
  "unmarshal_money iso4217 (Some \<lparr>ser_amount = CHR ''-'' # s, ser_currency = cur\<rparr>) = Inr m \<longleftrightarrow>
     parse_currency iso4217 cur \<and> money_currency m = cur \<and> is_negative m \<and>
     s = format_magnitude (- money_minor m)"
proof -
  have "is_negative m \<longleftrightarrow> - money_minor m \<noteq> 0 \<and> unat (- money_minor m) \<le> 9223372036854775808"
    using neg_magnitude_iff [of "- money_minor m"] by (simp add: is_negative_def)
  moreover have "r = \<lparr>money_minor = - a, money_currency = c\<rparr> \<longleftrightarrow> a = - money_minor r \<and> money_currency r = c"
    for r :: money and a c by (cases r) auto
  ultimately show ?thesis
    by (auto simp: unmarshal_money_def parse_minor_iff negative_minor_of_magnitude Let_def
        simp del: minus_equation_iff)
qed

lemma unmarshal_plain:
  "s = [] \<or> hd s \<noteq> CHR ''-'' \<Longrightarrow>
   unmarshal_money iso4217 (Some \<lparr>ser_amount = s, ser_currency = cur\<rparr>) = parse_money iso4217 s cur"
  by (auto simp: unmarshal_money_def)

lemma unmarshal_marshal_iff:
  "unmarshal_money iso4217 (Some e) = Inr m \<longleftrightarrow> marshal_money iso4217 m = Inr e"
proof (cases e)
  case (fields s cur)
  have marshal: "marshal_money iso4217 m = Inr e \<longleftrightarrow>
      parse_currency iso4217 cur \<and> money_currency m = cur \<and> money_amount m = s"
    by (auto simp: marshal_money_def fields)
  show ?thesis
  proof (cases "s \<noteq> [] \<and> hd s = CHR ''-''")
    case True
    then obtain s' where s: "s = CHR ''-'' # s'" by (cases s) auto
    have "money_amount m = s \<longleftrightarrow> is_negative m \<and> s' = format_magnitude (- money_minor m)"
      using format_magnitude_not_minus [of "money_minor m"] format_magnitude_hd(2) [of "money_minor m"]
      by (cases "is_negative m") (auto simp: s amount_neg amount_nonneg)
    then show ?thesis by (auto simp: fields s unmarshal_negative marshal [unfolded fields s])
  next
    case False
    then have "money_amount m = s \<Longrightarrow> \<not> is_negative m" by (auto simp: amount_neg)
    with False show ?thesis
      by (auto simp: fields unmarshal_plain parse_money_iff marshal [unfolded fields])
  qed
qed

section \<open>Properties\<close>

text \<open>\<open>Money.Add\<close> returns a sum exactly when both operands are valid, share their
  currency and the true sum of the minor units fits in an \<open>int64\<close>; the returned minor is
  then that true sum, never a wrapped one. Every other case is one of the three errors:
  the currency is checked before the range.\<close>

lemma money_add_exact_or_refused:
  "(money_add iso4217 m n = Inr r \<longleftrightarrow>
      parse_currency iso4217 (money_currency m) \<and> money_currency n = money_currency m \<and>
      money_currency r = money_currency m \<and>
      sint (money_minor r) = sint (money_minor m) + sint (money_minor n)) \<and>
   (money_add iso4217 m n = Inl e \<longleftrightarrow>
      (if parse_currency iso4217 (money_currency m) \<and> parse_currency iso4217 (money_currency n)
       then if money_currency m = money_currency n
         then e = ErrMoneyOverflow \<and> \<not> int64_range (sint (money_minor m) + sint (money_minor n))
         else e = ErrCurrencyMismatch
       else e = ErrInvalidMoney))"
  by (intro conjI money_add_ok) (auto simp: money_add_spec)

text \<open>C21: \<open>ParseMoney\<close> accepts exactly the texts that \<open>Amount\<close> prints for a
  non-negative value of a valid currency, and returns that value: no other spelling (sign,
  spaces, leading zeros, another scale, a value beyond \<open>int64\<close>) is accepted.\<close>

theorem parse_money_accepts_canonical:
  "parse_money iso4217 s cur = Inr m \<longleftrightarrow>
     parse_currency iso4217 cur \<and> money_currency m = cur \<and> \<not> is_negative m \<and> money_amount m = s"
  by (rule parse_money_iff)

text \<open>C22: \<open>UnmarshalJSON\<close> and \<open>MarshalJSON\<close> are inverse to each other on every
  \<open>int64\<close>, \<open>math.MinInt64\<close> included: an object decodes to a value exactly when the
  value encodes to that object.\<close>

theorem money_json_roundtrip:
  "unmarshal_money iso4217 (Some e) = Inr m \<longleftrightarrow> marshal_money iso4217 m = Inr e"
  by (rule unmarshal_marshal_iff)

end
