(* ===== verification/Wallet.thy ===== *)
theory Wallet
  imports Money
begin

text \<open>
  The aggregate \<open>Wallet\<close> of \<open>internal/domain/wallet.go\<close> and the append-only
  \<open>WalletLedgerEntry\<close> of \<open>internal/domain/ledger.go\<close>. The methods of \<open>*Wallet\<close>
  that mutate the receiver return the new wallet next to their results.
\<close>

section \<open>Wallet\<close>

record wallet =
  wallet_id :: string
  wallet_player :: string
  wallet_balance :: money
  wallet_version :: int64
  wallet_created :: time
  wallet_updated :: time

definition new_wallet ::
    "(string \<Rightarrow> bool) \<Rightarrow> string \<Rightarrow> string \<Rightarrow> money \<Rightarrow> time \<Rightarrow> wallet res" where
  "new_wallet iso4217 wid player initial now =
     (if wid = [] \<or> player = [] \<or> time_is_zero now \<or> is_negative initial
      then Inl ErrInvalidWallet
      else case validate_money iso4217 initial of
        Inl _ \<Rightarrow> Inl ErrInvalidWallet
      | Inr _ \<Rightarrow> Inr \<lparr>wallet_id = wid, wallet_player = player, wallet_balance = initial,
                     wallet_version = 1, wallet_created = now, wallet_updated = now\<rparr>)"

definition rehydrate_wallet ::
    "(string \<Rightarrow> bool) \<Rightarrow> string \<Rightarrow> string \<Rightarrow> money \<Rightarrow> int64 \<Rightarrow> time \<Rightarrow> time \<Rightarrow> wallet res" where
  "rehydrate_wallet iso4217 wid player balance version created updated =
     (if wid = [] \<or> player = [] \<or> version <s 1 \<or> time_is_zero created \<or>
         time_is_zero updated \<or> is_negative balance
      then Inl ErrInvalidWallet
      else case validate_money iso4217 balance of
        Inl _ \<Rightarrow> Inl ErrInvalidWallet
      | Inr _ \<Rightarrow> Inr \<lparr>wallet_id = wid, wallet_player = player, wallet_balance = balance,
                     wallet_version = version, wallet_created = created,
                     wallet_updated = updated\<rparr>)"

definition wallet_apply :: "wallet \<Rightarrow> money \<Rightarrow> time \<Rightarrow> wallet" where
  "wallet_apply w balance now =
     w\<lparr>wallet_balance := balance, wallet_version := wallet_version w + 1,
       wallet_updated := now\<rparr>"

text \<open>The results are the balances before and after, and the wallet after the call.\<close>

definition wallet_debit ::
    "(string \<Rightarrow> bool) \<Rightarrow> wallet \<Rightarrow> money \<Rightarrow> time \<Rightarrow> (money \<times> money \<times> wallet) res" where
  "wallet_debit iso4217 w amount now =
     (if \<not> is_positive amount \<or> time_is_zero now then Inl ErrInvalidMoney
      else let before = wallet_balance w in
        res_bind (money_subtract iso4217 before amount) (\<lambda>after.
        if is_negative after then Inl ErrInsufficientFunds
        else Inr (before, after, wallet_apply w after now)))"

definition wallet_credit ::
    "(string \<Rightarrow> bool) \<Rightarrow> wallet \<Rightarrow> money \<Rightarrow> time \<Rightarrow> (money \<times> money \<times> wallet) res" where
  "wallet_credit iso4217 w amount now =
     (if \<not> is_positive amount \<or> time_is_zero now then Inl ErrInvalidMoney
      else let before = wallet_balance w in
        res_bind (money_add iso4217 before amount) (\<lambda>after.
        Inr (before, after, wallet_apply w after now)))"

section \<open>Ledger entries\<close>

datatype direction = DirectionDebit | DirectionCredit | DirectionOther string

record ledger_entry =
  entry_id :: string
  entry_wallet :: string
  entry_transaction :: string
  entry_direction :: direction
  entry_money :: money
  entry_before :: money
  entry_after :: money
  entry_created :: time

definition new_ledger_entry ::
    "(string \<Rightarrow> bool) \<Rightarrow> string \<Rightarrow> string \<Rightarrow> string \<Rightarrow> direction \<Rightarrow> money \<Rightarrow> money \<Rightarrow> money \<Rightarrow>
     time \<Rightarrow> ledger_entry res" where
  "new_ledger_entry iso4217 eid wid tid dir amount before after now =
     (if eid = [] \<or> wid = [] \<or> tid = [] \<or> time_is_zero now \<or> \<not> is_positive amount
      then Inl ErrInvalidLedgerEntry
      else case (case dir of
             DirectionDebit \<Rightarrow> Some (money_subtract iso4217 before amount)
           | DirectionCredit \<Rightarrow> Some (money_add iso4217 before amount)
           | DirectionOther _ \<Rightarrow> None) of
        None \<Rightarrow> Inl ErrInvalidLedgerEntry
      | Some (Inl _) \<Rightarrow> Inl ErrInvalidLedgerEntry
      | Some (Inr expected) \<Rightarrow>
          if expected \<noteq> after \<or> is_negative after then Inl ErrInvalidLedgerEntry
          else Inr \<lparr>entry_id = eid, entry_wallet = wid, entry_transaction = tid,
                    entry_direction = dir, entry_money = amount, entry_before = before,
                    entry_after = after, entry_created = now\<rparr>)"

section \<open>Well-formed wallets\<close>

text \<open>What \<open>RehydrateWallet\<close> asks of a persisted wallet.\<close>

definition wallet_ok :: "(string \<Rightarrow> bool) \<Rightarrow> wallet \<Rightarrow> bool" where
  "wallet_ok iso4217 w \<longleftrightarrow>
     wallet_id w \<noteq> [] \<and> wallet_player w \<noteq> [] \<and> \<not> wallet_version w <s 1 \<and>
     wallet_created w \<noteq> 0 \<and> wallet_updated w \<noteq> 0 \<and> \<not> is_negative (wallet_balance w) \<and>
     parse_currency iso4217 (money_currency (wallet_balance w))"

text \<open>The balance as an integer of minor units: what the operations change.\<close>

definition balance_int :: "wallet \<Rightarrow> int" where
  "balance_int w = sint (money_minor (wallet_balance w))"

definition money_int :: "money \<Rightarrow> int" where
  "money_int m = sint (money_minor m)"

definition money_of :: "int \<Rightarrow> string \<Rightarrow> money" where
  "money_of k cur = \<lparr>money_minor = word_of_int k, money_currency = cur\<rparr>"

lemma money_int_of [simp]: "int64_range k \<Longrightarrow> money_int (money_of k cur) = k"
  using sint_of_int_exact [of k] by (simp add: money_int_def money_of_def)

lemma money_currency_of [simp]: "money_currency (money_of k cur) = cur"
  by (simp add: money_of_def)

lemma is_positive_int: "is_positive m \<longleftrightarrow> 0 < money_int m"
  and is_negative_int: "is_negative m \<longleftrightarrow> money_int m < 0"
  and is_zero_int: "is_zero m \<longleftrightarrow> money_int m = 0"
  by (auto simp: is_positive_def is_negative_def is_zero_def money_int_def sless_iff_sint
      int64_eq_iff_sint)

lemmas money_sign_simps = is_positive_int is_negative_int is_zero_int

lemma money_int_range [simp]: "int64_range (money_int m)"
  by (simp add: money_int_def)

lemma money_eq_iff: "m = n \<longleftrightarrow> money_int m = money_int n \<and> money_currency m = money_currency n"
  by (cases m; cases n) (auto simp: money_int_def int64_eq_iff_sint)

lemma balance_int_money: "balance_int w = money_int (wallet_balance w)"
  by (simp add: balance_int_def money_int_def)

lemma wallet_ok_balance: "wallet_ok iso4217 w \<Longrightarrow> 0 \<le> balance_int w"
  by (simp add: wallet_ok_def balance_int_money is_negative_int)

lemma new_wallet_ok:
  "new_wallet iso4217 wid player initial now = Inr w \<longleftrightarrow>
     wid \<noteq> [] \<and> player \<noteq> [] \<and> now \<noteq> 0 \<and> \<not> is_negative initial \<and>
     parse_currency iso4217 (money_currency initial) \<and>
     w = \<lparr>wallet_id = wid, wallet_player = player, wallet_balance = initial,
          wallet_version = 1, wallet_created = now, wallet_updated = now\<rparr>"
  by (auto simp: new_wallet_def time_is_zero_def validate_money_def split: sum.splits if_splits)

lemma new_wallet_wallet_ok:
  "new_wallet iso4217 wid player initial now = Inr w \<Longrightarrow> wallet_ok iso4217 w"
  by (auto simp: new_wallet_ok wallet_ok_def)

lemma rehydrate_wallet_ok:
  "rehydrate_wallet iso4217 wid player balance version created updated = Inr w \<longleftrightarrow>
     w = \<lparr>wallet_id = wid, wallet_player = player, wallet_balance = balance,
          wallet_version = version, wallet_created = created, wallet_updated = updated\<rparr> \<and>
     wallet_ok iso4217 w"
  by (auto simp: rehydrate_wallet_def wallet_ok_def time_is_zero_def validate_money_def
      split: sum.splits if_splits)

lemma wallet_apply_sel [simp]:
  "wallet_id (wallet_apply w b now) = wallet_id w"
  "wallet_player (wallet_apply w b now) = wallet_player w"
  "wallet_balance (wallet_apply w b now) = b"
  "wallet_version (wallet_apply w b now) = wallet_version w + 1"
  "wallet_created (wallet_apply w b now) = wallet_created w"
  "wallet_updated (wallet_apply w b now) = now"
  by (simp_all add: wallet_apply_def)

section \<open>Debits and credits\<close>

lemma positive_not_min: "is_positive m \<Longrightarrow> money_minor m \<noteq> min_int64"
  by (auto simp: is_positive_def sless_iff_sint)

lemma wallet_debit_ok:
  "wallet_debit iso4217 w amount now = Inr (before, after, w') \<longleftrightarrow>
     0 < money_int amount \<and> now \<noteq> 0 \<and>
     parse_currency iso4217 (money_currency amount) \<and>
     money_currency amount = money_currency (wallet_balance w) \<and>
     money_int amount \<le> balance_int w \<and>
     before = wallet_balance w \<and> money_currency after = money_currency before \<and>
     money_int after = balance_int w - money_int amount \<and> w' = wallet_apply w after now"
  by (auto simp: wallet_debit_def Let_def money_subtract_ok positive_not_min time_is_zero_def
      money_sign_simps balance_int_money simp flip: money_int_def)

lemma wallet_credit_ok:
  "wallet_credit iso4217 w amount now = Inr (before, after, w') \<longleftrightarrow>
     0 < money_int amount \<and> now \<noteq> 0 \<and>
     parse_currency iso4217 (money_currency amount) \<and>
     money_currency amount = money_currency (wallet_balance w) \<and>
     before = wallet_balance w \<and> money_currency after = money_currency before \<and>
     money_int after = balance_int w + money_int amount \<and> w' = wallet_apply w after now"
  by (auto simp: wallet_credit_def Let_def money_add_ok time_is_zero_def
      money_sign_simps balance_int_money simp flip: money_int_def)

text \<open>A debit of a well-formed wallet fails with \<open>ErrInsufficientFunds\<close> exactly when the
  amount exceeds the balance.\<close>

lemma wallet_debit_result:
  assumes ok: "wallet_ok iso4217 w" and amount: "is_positive amount" "now \<noteq> 0"
    and cur: "money_currency amount = money_currency (wallet_balance w)"
  shows "wallet_debit iso4217 w amount now =
    (if balance_int w < money_int amount then Inl ErrInsufficientFunds
     else let after = money_of (balance_int w - money_int amount) (money_currency (wallet_balance w))
          in Inr (wallet_balance w, after, wallet_apply w after now))"
proof -
  let ?after = "money_of (balance_int w - money_int amount) (money_currency (wallet_balance w))"
  have r: "int64_range (balance_int w - money_int amount)"
    using wallet_ok_balance [OF ok] amount(1) money_int_range [of "wallet_balance w"]
      money_int_range [of amount]
    by (auto simp: is_positive_int int64_range_def balance_int_money)
  have v: "parse_currency iso4217 (money_currency (wallet_balance w))"
    using ok by (simp add: wallet_ok_def)
  have "money_subtract iso4217 (wallet_balance w) amount = Inr ?after"
    using v cur amount(1) money_int_of [OF r]
    by (simp add: money_subtract_ok positive_not_min balance_int_money flip: money_int_def)
  then show ?thesis
    using amount money_int_of [OF r]
    by (simp add: wallet_debit_def Let_def time_is_zero_def is_negative_int)
qed

lemma wallet_credit_result:
  assumes ok: "wallet_ok iso4217 w" and amount: "is_positive amount" "now \<noteq> 0"
    and cur: "money_currency amount = money_currency (wallet_balance w)"
  shows "wallet_credit iso4217 w amount now =
    (if 9223372036854775807 < balance_int w + money_int amount then Inl ErrMoneyOverflow
     else let after = money_of (balance_int w + money_int amount) (money_currency (wallet_balance w))
          in Inr (wallet_balance w, after, wallet_apply w after now))"
proof -
  have v: "parse_currency iso4217 (money_currency (wallet_balance w))"
    using ok by (simp add: wallet_ok_def)
  have "int64_range (balance_int w + money_int amount) \<longleftrightarrow>
      \<not> 9223372036854775807 < balance_int w + money_int amount"
    using wallet_ok_balance [OF ok] amount(1) by (auto simp: is_positive_int int64_range_def)
  with v cur amount show ?thesis
    by (simp add: wallet_credit_def Let_def time_is_zero_def money_add_spec balance_int_def money_int_def money_of_def)
qed

lemma movement_preserves_wallet_ok:
  assumes "wallet_ok iso4217 w" and "0 \<le> money_int after" and "now \<noteq> 0"
    and "money_currency after = money_currency (wallet_balance w)"
    and "wallet_version w \<noteq> max_int64"
  shows "wallet_ok iso4217 (wallet_apply w after now)"
proof -
  have "int64_range (sint (wallet_version w) + 1)"
    using assms(5) sint_le_max [of "wallet_version w"] sint_ge_min [of "wallet_version w"]
    by (auto simp: int64_range_def int64_eq_iff_sint)
  then have "sint (wallet_version w + 1) = sint (wallet_version w) + 1"
    using sint_add_exact [of "wallet_version w" 1] by simp
  with assms show ?thesis by (auto simp: wallet_ok_def is_negative_int sless_iff_sint)
qed

section \<open>Ledger entries match their movement\<close>

text \<open>The signed effect of an entry on the balance of its wallet.\<close>

definition signed_amount :: "direction \<Rightarrow> int \<Rightarrow> int" where
  "signed_amount dir k =
     (case dir of DirectionCredit \<Rightarrow> k | DirectionDebit \<Rightarrow> - k | DirectionOther _ \<Rightarrow> 0)"

lemma signed_amount_simps [simp]:
  "signed_amount DirectionCredit k = k" "signed_amount DirectionDebit k = - k"
  by (simp_all add: signed_amount_def)

lemma new_ledger_entry_ok:
  "new_ledger_entry iso4217 eid wid tid dir amount before after now = Inr e \<longleftrightarrow>
     eid \<noteq> [] \<and> wid \<noteq> [] \<and> tid \<noteq> [] \<and> now \<noteq> 0 \<and> 0 < money_int amount \<and>
     (dir = DirectionDebit \<or> dir = DirectionCredit) \<and>
     parse_currency iso4217 (money_currency before) \<and>
     money_currency amount = money_currency before \<and> money_currency after = money_currency before \<and>
     money_int after = money_int before + signed_amount dir (money_int amount) \<and>
     0 \<le> money_int after \<and>
     e = \<lparr>entry_id = eid, entry_wallet = wid, entry_transaction = tid, entry_direction = dir,
          entry_money = amount, entry_before = before, entry_after = after, entry_created = now\<rparr>"
  (is "?L \<longleftrightarrow> ?R")
proof
  assume ?L
  then show ?R
    by (auto simp: new_ledger_entry_def time_is_zero_def money_sign_simps money_subtract_ok money_add_ok
        split: if_splits direction.splits option.splits sum.splits simp flip: money_int_def)
next
  assume R: ?R
  have n: "money_minor amount \<noteq> min_int64"
    using R by (intro positive_not_min) (simp add: is_positive_int)
  show ?L
  proof (cases dir)
    case DirectionDebit
    with R n have "money_subtract iso4217 before amount = Inr after"
      by (simp add: money_subtract_ok flip: money_int_def)
    with R DirectionDebit show ?thesis
      by (simp add: new_ledger_entry_def time_is_zero_def money_sign_simps)
  next
    case DirectionCredit
    with R have "money_add iso4217 before amount = Inr after"
      by (simp add: money_add_ok flip: money_int_def)
    with R DirectionCredit show ?thesis
      by (simp add: new_ledger_entry_def time_is_zero_def money_sign_simps)
  next
    case DirectionOther
    with R show ?thesis by simp
  qed
qed

end
