(* ===== verification/Transaction.thy ===== *)
theory Transaction
  imports Wallet
begin

text \<open>
  The aggregate \<open>WagerTransaction\<close> of \<open>internal/domain/transaction.go\<close>: its
  construction from an external command, its rehydration from persisted state, and the
  five methods that move its status. A method returns the new transaction or the error of
  the guard it failed.
\<close>

section \<open>Kinds, statuses, the aggregate\<close>

datatype kind =
    KindOpening | KindBet | KindWin | KindLoss | KindRefund | KindRollback
  | KindOther string

datatype status =
    StatusPending | StatusPendingReference | StatusProcessed | StatusRejected | StatusFailed
  | StatusOther string

text \<open>
  \<open>TransactionKind(s)\<close> on a Go string: a text that is none of the constants is kept as
  it is.
\<close>

definition kind_of_string :: "string \<Rightarrow> kind" where
  "kind_of_string s =
     (if s = ''OPENING'' then KindOpening else if s = ''BET'' then KindBet
      else if s = ''WIN'' then KindWin else if s = ''LOSS'' then KindLoss
      else if s = ''REFUND'' then KindRefund else if s = ''ROLLBACK'' then KindRollback
      else KindOther s)"

fun string_of_kind :: "kind \<Rightarrow> string" where
  "string_of_kind KindOpening = ''OPENING''"
| "string_of_kind KindBet = ''BET''"
| "string_of_kind KindWin = ''WIN''"
| "string_of_kind KindLoss = ''LOSS''"
| "string_of_kind KindRefund = ''REFUND''"
| "string_of_kind KindRollback = ''ROLLBACK''"
| "string_of_kind (KindOther s) = s"

lemma string_of_kind_of_string [simp]: "string_of_kind (kind_of_string s) = s"
  by (simp add: kind_of_string_def)

text \<open>The failure codes of \<open>failure_code.go\<close>.\<close>

definition FailureWalletOwnershipOrCurrencyMismatch :: string where "FailureWalletOwnershipOrCurrencyMismatch = ''WALLET_OWNERSHIP_OR_CURRENCY_MISMATCH''"
definition FailureReferenceNotProcessed :: string where "FailureReferenceNotProcessed = ''REFERENCE_NOT_PROCESSED''"
definition FailureReferenceNotFound :: string where "FailureReferenceNotFound = ''REFERENCE_NOT_FOUND''"
definition FailureReferenceMismatch :: string where "FailureReferenceMismatch = ''REFERENCE_MISMATCH''"
definition FailureReferenceAmountMismatch :: string where "FailureReferenceAmountMismatch = ''REFERENCE_AMOUNT_MISMATCH''"
definition FailureInvalidReferenceKind :: string where "FailureInvalidReferenceKind = ''INVALID_REFERENCE_KIND''"
definition FailureReferenceAlreadyReversed :: string where "FailureReferenceAlreadyReversed = ''REFERENCE_ALREADY_REVERSED''"
definition FailureInsufficientFunds :: string where "FailureInsufficientFunds = ''INSUFFICIENT_FUNDS''"
definition FailureInsufficientFundsReversal :: string where "FailureInsufficientFundsReversal = ''INSUFFICIENT_FUNDS_REVERSAL''"
definition FailureProcessingAttemptsExhausted :: string where "FailureProcessingAttemptsExhausted = ''PROCESSING_ATTEMPTS_EXHAUSTED''"

lemmas failure_code_defs =
  FailureWalletOwnershipOrCurrencyMismatch_def FailureReferenceNotProcessed_def
  FailureReferenceNotFound_def FailureReferenceMismatch_def FailureReferenceAmountMismatch_def
  FailureInvalidReferenceKind_def FailureReferenceAlreadyReversed_def
  FailureInsufficientFunds_def FailureInsufficientFundsReversal_def
  FailureProcessingAttemptsExhausted_def

text \<open>
  \<open>resultBalance\<close> and \<open>hasResultBalance\<close> are one optional value, as the getter
  \<open>ResultBalance\<close> returns them. The struct \<open>RehydratedTransaction\<close> has the same
  fields, so it is the same record.
\<close>

record wager =
  wt_id :: string
  wt_provider :: string
  wt_external :: string
  wt_key :: string
  wt_hash :: string
  wt_wallet :: string
  wt_player :: string
  wt_round :: string
  wt_game :: string
  wt_kind :: kind
  wt_money :: money
  wt_ref_external :: string
  wt_ref_id :: string
  wt_status :: status
  wt_failure :: string
  wt_result :: "money option"
  wt_attempts :: int
  wt_next :: "time option"
  wt_created :: time
  wt_updated :: time

record new_external =
  nx_id :: string
  nx_provider :: string
  nx_external :: string
  nx_key :: string
  nx_hash :: string
  nx_wallet :: string
  nx_player :: string
  nx_round :: string
  nx_game :: string
  nx_kind :: kind
  nx_money :: money
  nx_ref_external :: string
  nx_now :: time

definition external_kind :: "kind \<Rightarrow> bool" where
  "external_kind k \<longleftrightarrow>
     k = KindBet \<or> k = KindWin \<or> k = KindLoss \<or> k = KindRefund \<or> k = KindRollback"

definition validate_amount_for_kind :: "(string \<Rightarrow> bool) \<Rightarrow> kind \<Rightarrow> money \<Rightarrow> unit res" where
  "validate_amount_for_kind iso4217 k amount =
     res_bind (validate_money iso4217 amount) (\<lambda>_.
     if k = KindLoss \<and> \<not> is_zero amount then Inl ErrInvalidTransaction
     else if k \<noteq> KindLoss \<and> \<not> is_positive amount then Inl ErrInvalidTransaction
     else Inr ())"

definition new_wager_transaction :: "(string \<Rightarrow> bool) \<Rightarrow> new_external \<Rightarrow> wager res" where
  "new_wager_transaction iso4217 x =
     (if nx_id x = [] \<or> nx_provider x = [] \<or> nx_external x = [] \<or> nx_key x = [] \<or>
         nx_hash x = [] \<or> nx_wallet x = [] \<or> nx_player x = [] \<or> nx_round x = [] \<or>
         nx_game x = [] \<or> time_is_zero (nx_now x)
      then Inl ErrInvalidTransaction
      else if nx_kind x = KindOpening \<or> \<not> external_kind (nx_kind x)
      then Inl ErrInvalidTransaction
      else res_bind (validate_amount_for_kind iso4217 (nx_kind x) (nx_money x)) (\<lambda>_.
        if (nx_kind x = KindRefund \<or> nx_kind x = KindRollback) \<and> nx_ref_external x = []
        then Inl ErrInvalidTransaction
        else if nx_ref_external x \<noteq> [] \<and> nx_kind x \<noteq> KindWin \<and> nx_kind x \<noteq> KindRefund \<and>
          nx_kind x \<noteq> KindRollback
        then Inl ErrInvalidTransaction
        else Inr \<lparr>wt_id = nx_id x, wt_provider = nx_provider x, wt_external = nx_external x,
          wt_key = nx_key x, wt_hash = nx_hash x, wt_wallet = nx_wallet x,
          wt_player = nx_player x, wt_round = nx_round x, wt_game = nx_game x,
          wt_kind = nx_kind x, wt_money = nx_money x, wt_ref_external = nx_ref_external x,
          wt_ref_id = [], wt_status = StatusPending, wt_failure = [], wt_result = None,
          wt_attempts = 0, wt_next = None, wt_created = nx_now x, wt_updated = nx_now x\<rparr>))"

definition terminal_status :: "status \<Rightarrow> bool" where
  "terminal_status s \<longleftrightarrow> s = StatusProcessed \<or> s = StatusRejected \<or> s = StatusFailed"

definition terminal :: "wager \<Rightarrow> bool" where
  "terminal t \<longleftrightarrow> terminal_status (wt_status t)"

definition result_balance_invalid :: "(string \<Rightarrow> bool) \<Rightarrow> money option \<Rightarrow> bool" where
  "result_balance_invalid iso4217 r \<longleftrightarrow>
     (case r of None \<Rightarrow> False
      | Some b \<Rightarrow> \<not> parse_currency iso4217 (money_currency b) \<or> is_negative b)"

definition result_currency_of :: "money option \<Rightarrow> string" where
  "result_currency_of r = (case r of None \<Rightarrow> [] | Some b \<Rightarrow> money_currency b)"

definition rehydrate_wager :: "(string \<Rightarrow> bool) \<Rightarrow> wager \<Rightarrow> wager res" where
  "rehydrate_wager iso4217 s =
     (if wt_id s = [] \<or> wt_wallet s = [] \<or> wt_player s = [] \<or> time_is_zero (wt_created s) \<or>
         time_is_zero (wt_updated s) \<or> (\<not> external_kind (wt_kind s) \<and> wt_kind s \<noteq> KindOpening)
      then Inl ErrInvalidTransaction
      else if wt_kind s = KindOpening \<and> (wt_provider s \<noteq> [] \<or> wt_external s \<noteq> [] \<or>
         wt_status s \<noteq> StatusProcessed \<or> \<not> is_positive (wt_money s))
      then Inl ErrInvalidTransaction
      else if external_kind (wt_kind s) \<and> (wt_provider s = [] \<or> wt_external s = [] \<or>
         wt_key s = [] \<or> wt_hash s = [])
      then Inl ErrInvalidTransaction
      else res_bind (validate_money iso4217 (wt_money s)) (\<lambda>_.
        res_bind (if external_kind (wt_kind s)
                  then validate_amount_for_kind iso4217 (wt_kind s) (wt_money s) else Inr ()) (\<lambda>_.
        if wt_status s \<noteq> StatusPending \<and> wt_status s \<noteq> StatusPendingReference \<and>
           wt_status s \<noteq> StatusProcessed \<and> wt_status s \<noteq> StatusRejected \<and>
           wt_status s \<noteq> StatusFailed
        then Inl ErrInvalidTransaction
        else if (wt_status s = StatusProcessed \<or> wt_status s = StatusRejected \<or>
           wt_status s = StatusFailed) \<noteq> (wt_result s \<noteq> None)
        then Inl ErrInvalidTransaction
        else if result_balance_invalid iso4217 (wt_result s)
        then Inl ErrInvalidTransaction
        else if (wt_status s = StatusProcessed \<or> wt_status s = StatusFailed) \<and>
           result_currency_of (wt_result s) \<noteq> money_currency (wt_money s)
        then Inl ErrInvalidTransaction
        else if (wt_status s = StatusRejected \<or> wt_status s = StatusFailed) \<noteq> (wt_failure s \<noteq> [])
        then Inl ErrInvalidTransaction
        else if wt_status s = StatusPendingReference \<and>
           (wt_ref_external s = [] \<or> wt_next s = None \<or> wt_attempts s < 1)
        then Inl ErrInvalidTransaction
        else if wt_status s \<noteq> StatusPendingReference \<and> wt_next s \<noteq> None
        then Inl ErrInvalidTransaction
        else if wt_ref_id s \<noteq> [] \<and> wt_ref_external s = []
        then Inl ErrInvalidTransaction
        else Inr s)))"

section \<open>The transitions\<close>

definition mark_pending_reference :: "wager \<Rightarrow> time \<Rightarrow> time \<Rightarrow> wager res" where
  "mark_pending_reference t nextAt now =
     (if terminal t \<or> (wt_status t \<noteq> StatusPending \<and> wt_status t \<noteq> StatusPendingReference) \<or>
         wt_ref_external t = [] \<or> time_is_zero now \<or> \<not> now < nextAt
      then Inl ErrInvalidTransition
      else Inr (t\<lparr>wt_status := StatusPendingReference, wt_attempts := wt_attempts t + 1,
                  wt_next := Some nextAt, wt_updated := now\<rparr>))"

definition resolve_reference :: "wager \<Rightarrow> string \<Rightarrow> time \<Rightarrow> wager res" where
  "resolve_reference t refId now =
     (if (wt_status t \<noteq> StatusPending \<and> wt_status t \<noteq> StatusPendingReference) \<or>
         wt_ref_external t = [] \<or> refId = [] \<or> time_is_zero now
      then Inl ErrInvalidTransition
      else Inr (t\<lparr>wt_ref_id := refId, wt_status := StatusPending, wt_next := None,
                  wt_updated := now\<rparr>))"

definition mark_processed :: "(string \<Rightarrow> bool) \<Rightarrow> wager \<Rightarrow> money \<Rightarrow> time \<Rightarrow> wager res" where
  "mark_processed iso4217 t balance now =
     (if wt_status t \<noteq> StatusPending \<or> time_is_zero now \<or> is_negative balance \<or>
         \<not> parse_currency iso4217 (money_currency balance) \<or>
         money_currency balance \<noteq> money_currency (wt_money t)
      then Inl ErrInvalidTransition
      else Inr (t\<lparr>wt_status := StatusProcessed, wt_result := Some balance, wt_failure := [],
                  wt_next := None, wt_updated := now\<rparr>))"

definition reject_wager ::
    "(string \<Rightarrow> bool) \<Rightarrow> wager \<Rightarrow> string \<Rightarrow> money \<Rightarrow> time \<Rightarrow> wager res" where
  "reject_wager iso4217 t code balance now =
     (if terminal t \<or> code = [] \<or> time_is_zero now \<or> is_negative balance \<or>
         \<not> parse_currency iso4217 (money_currency balance)
      then Inl ErrInvalidTransition
      else Inr (t\<lparr>wt_status := StatusRejected, wt_failure := code, wt_result := Some balance,
                  wt_next := None, wt_updated := now\<rparr>))"

definition fail_wager ::
    "(string \<Rightarrow> bool) \<Rightarrow> wager \<Rightarrow> string \<Rightarrow> money \<Rightarrow> time \<Rightarrow> wager res" where
  "fail_wager iso4217 t code balance now =
     (if terminal t \<or> code = [] \<or> time_is_zero now \<or> is_negative balance \<or>
         \<not> parse_currency iso4217 (money_currency balance) \<or>
         money_currency balance \<noteq> money_currency (wt_money t)
      then Inl ErrInvalidTransition
      else Inr (t\<lparr>wt_status := StatusFailed, wt_failure := code, wt_result := Some balance,
                  wt_next := None, wt_updated := now\<rparr>))"

section \<open>Well-formed transactions\<close>

text \<open>
  What each status carries, and the sign of the amount each kind allows: the invariant of
  the aggregate. \<open>RehydrateWagerTransaction\<close> accepts exactly the well-formed ones.
\<close>

definition terminal_result_ok :: "(string \<Rightarrow> bool) \<Rightarrow> money option \<Rightarrow> bool" where
  "terminal_result_ok iso4217 r \<longleftrightarrow>
     (\<exists>b. r = Some b \<and> parse_currency iso4217 (money_currency b) \<and> 0 \<le> money_int b)"

definition status_ok :: "(string \<Rightarrow> bool) \<Rightarrow> wager \<Rightarrow> bool" where
  "status_ok iso4217 t =
     (case wt_status t of
        StatusPending \<Rightarrow> wt_result t = None \<and> wt_failure t = [] \<and> wt_next t = None
      | StatusPendingReference \<Rightarrow>
          wt_result t = None \<and> wt_failure t = [] \<and> wt_next t \<noteq> None \<and>
          wt_ref_external t \<noteq> [] \<and> 1 \<le> wt_attempts t
      | StatusProcessed \<Rightarrow>
          terminal_result_ok iso4217 (wt_result t) \<and> wt_failure t = [] \<and> wt_next t = None \<and>
          result_currency_of (wt_result t) = money_currency (wt_money t)
      | StatusRejected \<Rightarrow>
          terminal_result_ok iso4217 (wt_result t) \<and> wt_failure t \<noteq> [] \<and> wt_next t = None
      | StatusFailed \<Rightarrow>
          terminal_result_ok iso4217 (wt_result t) \<and> wt_failure t \<noteq> [] \<and> wt_next t = None \<and>
          result_currency_of (wt_result t) = money_currency (wt_money t)
      | StatusOther _ \<Rightarrow> False)"

definition amount_ok :: "kind \<Rightarrow> money \<Rightarrow> bool" where
  "amount_ok k m \<longleftrightarrow> (if k = KindLoss then money_int m = 0 else 0 < money_int m)"

definition wager_ok :: "(string \<Rightarrow> bool) \<Rightarrow> wager \<Rightarrow> bool" where
  "wager_ok iso4217 t \<longleftrightarrow>
     wt_id t \<noteq> [] \<and> wt_wallet t \<noteq> [] \<and> wt_player t \<noteq> [] \<and> wt_created t \<noteq> 0 \<and> wt_updated t \<noteq> 0 \<and>
     (if external_kind (wt_kind t)
      then wt_provider t \<noteq> [] \<and> wt_external t \<noteq> [] \<and> wt_key t \<noteq> [] \<and> wt_hash t \<noteq> []
      else wt_kind t = KindOpening \<and> wt_provider t = [] \<and> wt_external t = [] \<and>
        wt_status t = StatusProcessed) \<and>
     parse_currency iso4217 (money_currency (wt_money t)) \<and>
     amount_ok (wt_kind t) (wt_money t) \<and> status_ok iso4217 t \<and>
     (wt_ref_id t \<noteq> [] \<longrightarrow> wt_ref_external t \<noteq> [])"

lemma validate_amount_ok [simp]:
  "validate_amount_for_kind iso4217 k m = Inr u \<longleftrightarrow>
     parse_currency iso4217 (money_currency m) \<and> amount_ok k m"
  by (auto simp: validate_amount_for_kind_def amount_ok_def money_sign_simps)

lemma external_kind_simps [simp]:
  "external_kind KindBet" "external_kind KindWin" "external_kind KindLoss"
  "external_kind KindRefund" "external_kind KindRollback"
  "\<not> external_kind KindOpening" "\<not> external_kind (KindOther s)"
  by (simp_all add: external_kind_def)

lemma external_kind_cases:
  assumes "external_kind k"
  obtains "k = KindBet" | "k = KindWin" | "k = KindLoss" | "k = KindRefund" | "k = KindRollback"
  using assms by (auto simp: external_kind_def)

lemma result_balance_terminal:
  "terminal_result_ok iso4217 r \<longleftrightarrow> r \<noteq> None \<and> \<not> result_balance_invalid iso4217 r"
  by (cases r) (auto simp: terminal_result_ok_def result_balance_invalid_def is_negative_int)

lemma result_balance_None [simp]: "\<not> result_balance_invalid iso4217 None"
  by (simp add: result_balance_invalid_def)

lemma rehydrate_status_part:
  "wt_status s = StatusPending \<or> wt_status s = StatusPendingReference \<or> wt_status s = StatusProcessed \<or>
   wt_status s = StatusRejected \<or> wt_status s = StatusFailed \<Longrightarrow>
   status_ok iso4217 s \<longleftrightarrow>
     terminal s = (wt_result s \<noteq> None) \<and> \<not> result_balance_invalid iso4217 (wt_result s) \<and>
     \<not> ((wt_status s = StatusProcessed \<or> wt_status s = StatusFailed) \<and>
        result_currency_of (wt_result s) \<noteq> money_currency (wt_money s)) \<and>
     (wt_status s = StatusRejected \<or> wt_status s = StatusFailed) = (wt_failure s \<noteq> []) \<and>
     \<not> (wt_status s = StatusPendingReference \<and>
        (wt_ref_external s = [] \<or> wt_next s = None \<or> wt_attempts s < 1)) \<and>
     \<not> (wt_status s \<noteq> StatusPendingReference \<and> wt_next s \<noteq> None)"
  by (elim disjE)
    (auto simp: status_ok_def terminal_def terminal_status_def result_balance_terminal)

lemma rehydrate_wager_ok:
  "rehydrate_wager iso4217 s = Inr t \<longleftrightarrow> t = s \<and> wager_ok iso4217 s"
proof (cases "wt_status s = StatusPending \<or> wt_status s = StatusPendingReference \<or>
    wt_status s = StatusProcessed \<or> wt_status s = StatusRejected \<or> wt_status s = StatusFailed")
  case False
  then have "\<not> status_ok iso4217 s" by (cases "wt_status s") (auto simp: status_ok_def)
  moreover have "rehydrate_wager iso4217 s \<noteq> Inr t"
    using False by (simp add: rehydrate_wager_def)
  ultimately show ?thesis by (simp add: wager_ok_def)
next
  case True
  note st = rehydrate_status_part [OF True, of iso4217, unfolded terminal_def terminal_status_def]
  show ?thesis
  proof (cases "external_kind (wt_kind s)")
    case ext: True
    then have "wt_kind s \<noteq> KindOpening" by auto
    with ext True show ?thesis
      by (auto simp: rehydrate_wager_def wager_ok_def st time_is_zero_def)
  next
    case False
    with True show ?thesis
      by (auto simp: rehydrate_wager_def wager_ok_def st time_is_zero_def amount_ok_def money_sign_simps)
  qed
qed

lemma new_wager_ok_iff:
  "new_wager_transaction iso4217 x = Inr t \<longleftrightarrow>
     nx_id x \<noteq> [] \<and> nx_provider x \<noteq> [] \<and> nx_external x \<noteq> [] \<and> nx_key x \<noteq> [] \<and> nx_hash x \<noteq> [] \<and>
     nx_wallet x \<noteq> [] \<and> nx_player x \<noteq> [] \<and> nx_round x \<noteq> [] \<and> nx_game x \<noteq> [] \<and> nx_now x \<noteq> 0 \<and>
     external_kind (nx_kind x) \<and> parse_currency iso4217 (money_currency (nx_money x)) \<and>
     amount_ok (nx_kind x) (nx_money x) \<and>
     (nx_kind x = KindRefund \<or> nx_kind x = KindRollback \<longrightarrow> nx_ref_external x \<noteq> []) \<and>
     (nx_kind x = KindBet \<or> nx_kind x = KindLoss \<longrightarrow> nx_ref_external x = []) \<and>
     t = \<lparr>wt_id = nx_id x, wt_provider = nx_provider x, wt_external = nx_external x,
          wt_key = nx_key x, wt_hash = nx_hash x, wt_wallet = nx_wallet x,
          wt_player = nx_player x, wt_round = nx_round x, wt_game = nx_game x,
          wt_kind = nx_kind x, wt_money = nx_money x, wt_ref_external = nx_ref_external x,
          wt_ref_id = [], wt_status = StatusPending, wt_failure = [], wt_result = None,
          wt_attempts = 0, wt_next = None, wt_created = nx_now x, wt_updated = nx_now x\<rparr>"
  (is "?L \<longleftrightarrow> ?R")
proof (cases "external_kind (nx_kind x)")
  case False
  then show ?thesis by (simp add: new_wager_transaction_def)
next
  case True
  then show ?thesis
    by (cases rule: external_kind_cases)
      (auto simp: new_wager_transaction_def time_is_zero_def)
qed

section \<open>The lifecycle\<close>

lemma mark_pending_reference_ok:
  "mark_pending_reference t nextAt now = Inr t' \<longleftrightarrow>
     (wt_status t = StatusPending \<or> wt_status t = StatusPendingReference) \<and>
     wt_ref_external t \<noteq> [] \<and> now \<noteq> 0 \<and> now < nextAt \<and>
     t' = t\<lparr>wt_status := StatusPendingReference, wt_attempts := wt_attempts t + 1,
            wt_next := Some nextAt, wt_updated := now\<rparr>"
  by (auto simp: mark_pending_reference_def terminal_def terminal_status_def time_is_zero_def)

lemma resolve_reference_ok:
  "resolve_reference t refId now = Inr t' \<longleftrightarrow>
     (wt_status t = StatusPending \<or> wt_status t = StatusPendingReference) \<and>
     wt_ref_external t \<noteq> [] \<and> refId \<noteq> [] \<and> now \<noteq> 0 \<and>
     t' = t\<lparr>wt_ref_id := refId, wt_status := StatusPending, wt_next := None, wt_updated := now\<rparr>"
  by (auto simp: resolve_reference_def time_is_zero_def)

lemma mark_processed_ok:
  "mark_processed iso4217 t b now = Inr t' \<longleftrightarrow>
     wt_status t = StatusPending \<and> now \<noteq> 0 \<and> 0 \<le> money_int b \<and>
     parse_currency iso4217 (money_currency b) \<and> money_currency b = money_currency (wt_money t) \<and>
     t' = t\<lparr>wt_status := StatusProcessed, wt_result := Some b, wt_failure := [],
            wt_next := None, wt_updated := now\<rparr>"
  by (auto simp: mark_processed_def time_is_zero_def is_negative_int)

lemma reject_wager_ok:
  "reject_wager iso4217 t code b now = Inr t' \<longleftrightarrow>
     \<not> terminal t \<and> code \<noteq> [] \<and> now \<noteq> 0 \<and> 0 \<le> money_int b \<and>
     parse_currency iso4217 (money_currency b) \<and>
     t' = t\<lparr>wt_status := StatusRejected, wt_failure := code, wt_result := Some b,
            wt_next := None, wt_updated := now\<rparr>"
  by (auto simp: reject_wager_def time_is_zero_def is_negative_int)

lemma fail_wager_ok:
  "fail_wager iso4217 t code b now = Inr t' \<longleftrightarrow>
     \<not> terminal t \<and> code \<noteq> [] \<and> now \<noteq> 0 \<and> 0 \<le> money_int b \<and>
     parse_currency iso4217 (money_currency b) \<and> money_currency b = money_currency (wt_money t) \<and>
     t' = t\<lparr>wt_status := StatusFailed, wt_failure := code, wt_result := Some b,
            wt_next := None, wt_updated := now\<rparr>"
  by (auto simp: fail_wager_def time_is_zero_def is_negative_int)

lemmas transition_ok = mark_pending_reference_ok resolve_reference_ok mark_processed_ok
  reject_wager_ok fail_wager_ok

text \<open>One successful call of one of the five methods.\<close>

inductive wager_step :: "(string \<Rightarrow> bool) \<Rightarrow> wager \<Rightarrow> wager \<Rightarrow> bool" for iso4217 where
  pend: "mark_pending_reference t nextAt now = Inr t' \<Longrightarrow> wager_step iso4217 t t'"
| resolve: "resolve_reference t refId now = Inr t' \<Longrightarrow> wager_step iso4217 t t'"
| processed: "mark_processed iso4217 t b now = Inr t' \<Longrightarrow> wager_step iso4217 t t'"
| rejected: "reject_wager iso4217 t code b now = Inr t' \<Longrightarrow> wager_step iso4217 t t'"
| failed: "fail_wager iso4217 t code b now = Inr t' \<Longrightarrow> wager_step iso4217 t t'"

text \<open>An external transaction, well formed, with a counter that has not run backwards.\<close>

definition wager_inv :: "(string \<Rightarrow> bool) \<Rightarrow> wager \<Rightarrow> bool" where
  "wager_inv iso4217 t \<longleftrightarrow> wager_ok iso4217 t \<and> external_kind (wt_kind t) \<and> 0 \<le> wt_attempts t"

text \<open>The fields no method writes.\<close>

definition wager_identity :: "wager \<Rightarrow> string list \<times> kind \<times> money \<times> time" where
  "wager_identity t =
     ([wt_id t, wt_provider t, wt_external t, wt_key t, wt_hash t, wt_wallet t, wt_player t,
       wt_round t, wt_game t, wt_ref_external t], wt_kind t, wt_money t, wt_created t)"

lemma new_wager_inv: "new_wager_transaction iso4217 x = Inr t \<Longrightarrow> wager_inv iso4217 t"
  by (auto simp: new_wager_ok_iff wager_inv_def wager_ok_def status_ok_def)

lemma wager_step_inv: "wager_step iso4217 t t' \<Longrightarrow> wager_inv iso4217 t \<Longrightarrow> wager_inv iso4217 t'"
  by (induction rule: wager_step.induct)
    (auto simp: transition_ok wager_inv_def wager_ok_def status_ok_def amount_ok_def
      terminal_result_ok_def result_currency_of_def)

lemma wager_step_terminal: "wager_step iso4217 t t' \<Longrightarrow> \<not> terminal t"
  by (induction rule: wager_step.induct)
    (auto simp: transition_ok terminal_def terminal_status_def)

lemma wager_step_identity: "wager_step iso4217 t t' \<Longrightarrow> wager_identity t' = wager_identity t"
  by (induction rule: wager_step.induct) (auto simp: transition_ok wager_identity_def)

lemma wager_step_attempts: "wager_step iso4217 t t' \<Longrightarrow> wt_attempts t \<le> wt_attempts t'"
  by (induction rule: wager_step.induct) (auto simp: transition_ok)

interpretation wager_life: lifecycle "wager_step iso4217" "wager_inv iso4217" terminal
  for iso4217
  by unfold_locales (auto intro: wager_step_inv dest: wager_step_terminal)

interpretation wager_track: monotone_machine "wager_step iso4217"
  "\<lambda>t t'. wager_identity t' = wager_identity t \<and> wt_attempts t \<le> wt_attempts t'"
  for iso4217
  by unfold_locales (auto dest: wager_step_identity wager_step_attempts)

end
