(* ===== verification/Contracts.thy ===== *)
theory Contracts
  imports Transaction
begin

text \<open>
  The data the application layer exchanges (\<open>internal/application/contracts.go\<close>,
  \<open>ports.go\<close>) and the integration events it writes to the outbox
  (\<open>events.go\<close>). A JSON payload is kept as the structure that is serialised.
\<close>

section \<open>Commands, results and views\<close>

record money_view =
  mv_amount :: string
  mv_currency :: string

definition view_money :: "money \<Rightarrow> money_view" where
  "view_money m = \<lparr>mv_amount = money_amount m, mv_currency = money_currency m\<rparr>"

record inbox_input =
  in_consumer :: string
  in_message :: string
  in_hash :: string

datatype inbox_disposition = InboxInserted | InboxAlreadyCompleted

record wager_command =
  cmd_provider :: string
  cmd_external :: string
  cmd_key :: string
  cmd_player :: string
  cmd_wallet :: string
  cmd_round :: string
  cmd_game :: string
  cmd_kind :: kind
  cmd_money :: money
  cmd_ref_external :: string
  cmd_correlation :: string
  cmd_inbox :: "inbox_input option"

record wallet_command =
  wc_player :: string
  wc_initial :: money
  wc_correlation :: string

record process_result =
  pr_transaction :: string
  pr_status :: status
  pr_balance :: money_view
  pr_failure :: string
  pr_replay :: bool

definition result_from :: "wager \<Rightarrow> money \<Rightarrow> bool \<Rightarrow> process_result" where
  "result_from t balance replay =
     \<lparr>pr_transaction = wt_id t, pr_status = wt_status t, pr_balance = view_money balance,
      pr_failure = wt_failure t, pr_replay = replay\<rparr>"

record wallet_view =
  wv_id :: string
  wv_player :: string
  wv_balance :: money_view
  wv_version :: int64
  wv_created :: time
  wv_updated :: time

definition wallet_view_of :: "wallet \<Rightarrow> wallet_view" where
  "wallet_view_of w =
     \<lparr>wv_id = wallet_id w, wv_player = wallet_player w,
      wv_balance = view_money (wallet_balance w), wv_version = wallet_version w,
      wv_created = wallet_created w, wv_updated = wallet_updated w\<rparr>"

record transaction_view =
  tv_id :: string
  tv_provider :: string
  tv_external :: string
  tv_wallet :: string
  tv_player :: string
  tv_round :: string
  tv_game :: string
  tv_kind :: kind
  tv_money :: money_view
  tv_ref_external :: string
  tv_ref_id :: string
  tv_status :: status
  tv_failure :: string
  tv_result :: "money_view option"
  tv_attempts :: int
  tv_next :: "time option"
  tv_created :: time
  tv_updated :: time

definition transaction_view_of :: "wager \<Rightarrow> transaction_view" where
  "transaction_view_of t =
     \<lparr>tv_id = wt_id t, tv_provider = wt_provider t, tv_external = wt_external t,
      tv_wallet = wt_wallet t, tv_player = wt_player t, tv_round = wt_round t,
      tv_game = wt_game t, tv_kind = wt_kind t, tv_money = view_money (wt_money t),
      tv_ref_external = wt_ref_external t, tv_ref_id = wt_ref_id t, tv_status = wt_status t,
      tv_failure = wt_failure t, tv_result = map_option view_money (wt_result t),
      tv_attempts = wt_attempts t, tv_next = wt_next t, tv_created = wt_created t,
      tv_updated = wt_updated t\<rparr>"

record ledger_cursor =
  cur_created :: time
  cur_id :: string

record ledger_record =
  rec_id :: string
  rec_transaction :: string
  rec_direction :: direction
  rec_money :: money
  rec_before :: money
  rec_after :: money
  rec_created :: time

record ledger_entry_view =
  lv_id :: string
  lv_transaction :: string
  lv_direction :: direction
  lv_money :: money_view
  lv_before :: money_view
  lv_after :: money_view
  lv_created :: time

record reconciliation_view =
  rv_wallet :: string
  rv_stored :: money_view
  rv_calculated :: money_view
  rv_difference :: money_view
  rv_consistent :: bool
  rv_entries :: int64

section \<open>Integration events\<close>

datatype event_type =
    EventWagerTransactionProcessed | EventWagerTransactionRejected
  | EventWagerTransactionFailed | EventWagerTransactionPendingReference
  | EventWalletBalanceChanged

record processed_data =
  pd_transaction :: string
  pd_external :: string
  pd_provider :: string
  pd_wallet :: string
  pd_player :: string
  pd_round :: string
  pd_game :: string
  pd_kind :: kind
  pd_money :: money_view
  pd_status :: status
  pd_balance :: money_view
  pd_ref_id :: string
  pd_ref_external :: string

text \<open>\<open>WagerTransactionRejectedData\<close> and \<open>WagerTransactionFailedData\<close> have the same
  fields; the event type tells them apart.\<close>

record outcome_data =
  od_transaction :: string
  od_external :: string
  od_provider :: string
  od_wallet :: string
  od_kind :: kind
  od_status :: status
  od_failure :: string
  od_balance :: money_view

record pending_data =
  qd_transaction :: string
  qd_external :: string
  qd_provider :: string
  qd_wallet :: string
  qd_ref_external :: string
  qd_status :: status
  qd_next :: "time option"

record changed_data =
  cd_wallet :: string
  cd_transaction :: string
  cd_direction :: direction
  cd_money :: money_view
  cd_before :: money_view
  cd_after :: money_view
  cd_version :: int64

datatype event_data =
    ProcessedData processed_data
  | RejectedData outcome_data
  | FailedData outcome_data
  | PendingReferenceData pending_data
  | BalanceChangedData changed_data

record envelope =
  env_event_id :: string
  env_type :: event_type
  env_aggregate :: string
  env_correlation :: string
  env_causation :: string
  env_occurred :: time
  env_version :: nat
  env_data :: event_data

record outbox_event =
  oe_id :: string
  oe_aggregate :: string
  oe_type :: event_type
  oe_payload :: envelope
  oe_occurred :: time

text \<open>
  \<open>newEvent\<close>, for the identifier that \<open>uuid.NewString\<close> returned. \<open>json.Marshal\<close>
  of these structures (strings, numbers, instants of this era) does not fail.
\<close>

definition new_event ::
    "string \<Rightarrow> event_type \<Rightarrow> string \<Rightarrow> string \<Rightarrow> string \<Rightarrow> time \<Rightarrow> event_data \<Rightarrow> outbox_event" where
  "new_event eid ty aggregate correlation causation occurred dat =
     \<lparr>oe_id = eid, oe_aggregate = aggregate, oe_type = ty,
      oe_payload = \<lparr>env_event_id = eid, env_type = ty, env_aggregate = aggregate,
        env_correlation = correlation, env_causation = causation, env_occurred = occurred,
        env_version = 1, env_data = dat\<rparr>,
      oe_occurred = occurred\<rparr>"

lemma new_event_sel [simp]:
  "oe_id (new_event eid ty ag co ca oc dat) = eid"
  "oe_aggregate (new_event eid ty ag co ca oc dat) = ag"
  "oe_type (new_event eid ty ag co ca oc dat) = ty"
  "oe_occurred (new_event eid ty ag co ca oc dat) = oc"
  "env_data (oe_payload (new_event eid ty ag co ca oc dat)) = dat"
  by (simp_all add: new_event_def)

end
