(* ===== verification/Cursor.thy ===== *)
theory Cursor
  imports Encoding Calendar Contracts "HOL-Library.Product_Lexorder" "HOL-Library.List_Lexorder" "HOL-Library.Char_ord"
begin

text \<open>
  The cursor of the ledger pages (\<open>application/cursor.go\<close>): its order, which is the one
  of \<open>ListLedger\<close>, its text, and the proof that reading undoes writing.
\<close>

section \<open>The order of the pages\<close>

text \<open>The row comparison \<open>(created_at, id)\<close> of SQL.\<close>

instantiation ledger_cursor_ext :: (linorder) linorder
begin

definition less_eq_ledger_cursor_ext :: "'a ledger_cursor_scheme \<Rightarrow> 'a ledger_cursor_scheme \<Rightarrow> bool" where
  "less_eq_ledger_cursor_ext a b \<longleftrightarrow>
     (cur_created a, cur_id a, ledger_cursor.more a) \<le> (cur_created b, cur_id b, ledger_cursor.more b)"

definition less_ledger_cursor_ext :: "'a ledger_cursor_scheme \<Rightarrow> 'a ledger_cursor_scheme \<Rightarrow> bool" where
  "less_ledger_cursor_ext a b \<longleftrightarrow>
     (cur_created a, cur_id a, ledger_cursor.more a) < (cur_created b, cur_id b, ledger_cursor.more b)"

instance
proof
  fix x y z :: "'a ledger_cursor_scheme"
  show "x < y \<longleftrightarrow> x \<le> y \<and> \<not> y \<le> x"
    unfolding less_eq_ledger_cursor_ext_def less_ledger_cursor_ext_def by (rule less_le_not_le)
  show "x \<le> x" by (simp add: less_eq_ledger_cursor_ext_def)
  show "x \<le> y \<Longrightarrow> y \<le> z \<Longrightarrow> x \<le> z"
    unfolding less_eq_ledger_cursor_ext_def by (rule order_trans)
  show "x \<le> y \<or> y \<le> x" unfolding less_eq_ledger_cursor_ext_def by (rule linear)
  assume "x \<le> y" "y \<le> x"
  then have "(cur_created x, cur_id x, ledger_cursor.more x) = (cur_created y, cur_id y, ledger_cursor.more y)"
    unfolding less_eq_ledger_cursor_ext_def by (rule order_antisym)
  then show "x = y" by (auto intro: ledger_cursor.equality)
qed

end

lemma cursor_less: "(a :: ledger_cursor) < b \<longleftrightarrow>
  cur_created a < cur_created b \<or> cur_created a = cur_created b \<and> cur_id a < cur_id b"
  by (auto simp: less_ledger_cursor_ext_def)

section \<open>Its text\<close>

text \<open>
  What the cursor takes from elsewhere: \<open>uuid.Parse\<close> of \<open>github.com/google/uuid\<close>, the
  reading of an identifier as a \<open>uuid\<close> parameter by the driver, and the general layout
  parser that \<open>time.Parse\<close> falls back to when a text is no strict RFC 3339.
\<close>

record cursor_readers =
  cr_uuid :: "string \<Rightarrow> bool"
  cr_param :: "string \<Rightarrow> string option"
  cr_layout :: "string \<Rightarrow> time option"

definition encode_ledger_cursor :: "ledger_cursor \<Rightarrow> string" where
  "encode_ledger_cursor c =
     raw_url_encode (format_rfc3339 (cur_created c) @ CHR ''|'' # cur_id c)"

definition parse_time :: "cursor_readers \<Rightarrow> string \<Rightarrow> time option" where
  "parse_time cr s = (case parse_rfc3339 s of Some t \<Rightarrow> Some t | None \<Rightarrow> cr_layout cr s)"

definition decode_ledger_cursor :: "cursor_readers \<Rightarrow> string \<Rightarrow> ledger_cursor option" where
  "decode_ledger_cursor cr v =
     (case raw_url_decode v of
        None \<Rightarrow> None
      | Some raw \<Rightarrow>
          case split_bar raw of
            None \<Rightarrow> None
          | Some (created, i) \<Rightarrow>
              if i = [] \<or> \<not> cr_uuid cr i then None
              else map_option (\<lambda>t. \<lparr>cur_created = t, cur_id = i\<rparr>) (parse_time cr created))"

lemma digits_no_bar: "list_all is_digit s \<Longrightarrow> CHR ''|'' \<notin> set s"
  by (auto simp: list_all_iff is_digit_def)

lemma pad_no_bar [simp]: "CHR ''|'' \<notin> set (pad_nat w n)"
  by (rule digits_no_bar) simp

lemma trim_subset: "set (trim_zeros s) \<subseteq> set s"
  using trim_zeros_split [of s] by (metis Un_upper1 set_append)

lemma format_no_bar: "CHR ''|'' \<notin> set (format_rfc3339 t)"
  using trim_subset [of "pad_nat 9 (nat (t mod second_ticks))"] pad_no_bar [of 9 "nat (t mod second_ticks)"]
  by (auto simp: format_rfc3339_def Let_def append_int_def format_fraction_def split: prod.splits)

lemma encode_not_empty [simp]: "encode_ledger_cursor c \<noteq> []"
proof -
  obtain x xs where "format_rfc3339 (cur_created c) @ CHR ''|'' # cur_id c = x # xs"
    by (cases "format_rfc3339 (cur_created c)") auto
  then show ?thesis
    by (cases "map of_char xs :: nat list" rule: b64_encode.cases)
      (simp_all add: encode_ledger_cursor_def raw_url_encode_def)
qed

lemma cursor_decodes:
  "rfc3339_range (cur_created c) \<Longrightarrow> cr_uuid cr (cur_id c) \<Longrightarrow> cur_id c \<noteq> [] \<Longrightarrow>
   decode_ledger_cursor cr (encode_ledger_cursor c) = Some c"
  using parse_format_rfc3339 [of "cur_created c"] split_bar_join [OF format_no_bar]
  by (simp add: decode_ledger_cursor_def encode_ledger_cursor_def parse_time_def)

text \<open>
  C35: The text of a ledger cursor is never empty, and reading it gives the cursor back, for
  every instant up to the end of the year 9999 and every identifier that uuid.Parse accepts.
\<close>

theorem cursor_roundtrip:
  assumes "rfc3339_range (cur_created c)" and "cr_uuid cr (cur_id c)" and "cur_id c \<noteq> []"
  shows "encode_ledger_cursor c \<noteq> [] \<and> decode_ledger_cursor cr (encode_ledger_cursor c) = Some c"
  using cursor_decodes [of c cr] assms by simp

lemma cursor_roundtrip_witness:
  "decode_ledger_cursor \<lparr>cr_uuid = (\<lambda>i. length i = 36), cr_param = Some, cr_layout = (\<lambda>_. None)\<rparr>
     (encode_ledger_cursor \<lparr>cur_created = 63900000000123456000,
        cur_id = ''6f1c0a9e-1f7c-4f6e-9a55-0d3c2b1a4e5f''\<rparr>) =
   Some \<lparr>cur_created = 63900000000123456000, cur_id = ''6f1c0a9e-1f7c-4f6e-9a55-0d3c2b1a4e5f''\<rparr>"
  using cursor_roundtrip [of "\<lparr>cur_created = 63900000000123456000,
      cur_id = ''6f1c0a9e-1f7c-4f6e-9a55-0d3c2b1a4e5f''\<rparr>"
    "\<lparr>cr_uuid = (\<lambda>i. length i = 36), cr_param = Some, cr_layout = (\<lambda>_. None)\<rparr>"]
  by (simp add: rfc3339_range_def days_before_def second_ticks_def)

end
