(* ===== verification/Store.thy ===== *)
theory Store
  imports Contracts
begin

text \<open>
  The PostgreSQL adapter \<open>internal/infrastructure/postgres/store.go\<close> with the schema it
  runs on (\<open>migrations/*.up.sql\<close>): the tables, the constraints and triggers that guard
  them, the statements of \<open>TxStore\<close>, and \<open>WithinTransaction\<close>. A statement is a
  function on the tables; an identifier column holds the canonical text of the
  \<open>uuid\<close>. Committed transactions are serial: row locks and the advisory lock have no
  effect of their own on the tables.
\<close>

section \<open>Tables\<close>

record wallet_row =
  wr_id :: string
  wr_player :: string
  wr_currency :: string
  wr_balance :: int64
  wr_version :: int64
  wr_created :: time
  wr_updated :: time

datatype origin = Internal | External

record txn_row =
  tr_id :: string
  tr_origin :: origin
  tr_provider :: "string option"
  tr_external :: "string option"
  tr_key :: "string option"
  tr_hash :: "string option"
  tr_wallet :: string
  tr_player :: string
  tr_round :: "string option"
  tr_game :: "string option"
  tr_kind :: kind
  tr_money :: int64
  tr_currency :: string
  tr_ref_external :: "string option"
  tr_ref_id :: "string option"
  tr_status :: status
  tr_failure :: "string option"
  tr_result :: "int64 option"
  tr_result_currency :: "string option"
  tr_attempts :: int
  tr_next :: "time option"
  tr_created :: time
  tr_updated :: time

record ledger_row =
  lr_id :: string
  lr_wallet :: string
  lr_transaction :: string
  lr_direction :: direction
  lr_money :: int64
  lr_currency :: string
  lr_before :: int64
  lr_after :: int64
  lr_created :: time

record inbox_row =
  ir_consumer :: string
  ir_message :: string
  ir_hash :: string
  ir_received :: time
  ir_completed :: "time option"

record outbox_row =
  or_event :: outbox_event
  or_attempts :: int
  or_next :: time
  or_locked_by :: "string option"
  or_locked_until :: "time option"
  or_published :: "time option"
  or_error :: "string option"

record db =
  wallets :: "wallet_row list"
  txns :: "txn_row list"
  ledger :: "ledger_row list"
  inbox :: "inbox_row list"
  outbox :: "outbox_row list"

definition empty_db :: db where
  "empty_db = \<lparr>wallets = [], txns = [], ledger = [], inbox = [], outbox = []\<rparr>"

text \<open>\<open>UPDATE table SET f WHERE p\<close>\<close>

definition update_where :: "('r \<Rightarrow> bool) \<Rightarrow> ('r \<Rightarrow> 'r) \<Rightarrow> 'r list \<Rightarrow> 'r list" where
  "update_where p f rs = map (\<lambda>r. if p r then f r else r) rs"

definition count_where :: "('r \<Rightarrow> bool) \<Rightarrow> 'r list \<Rightarrow> nat" where
  "count_where p rs = length (filter p rs)"

text \<open>\<open>NULLIF(x, '')\<close> and \<open>COALESCE(x, '')\<close>\<close>

definition nullif :: "string \<Rightarrow> string option" where
  "nullif s = (if s = [] then None else Some s)"

definition coalesce :: "string option \<Rightarrow> string" where
  "coalesce x = (case x of None \<Rightarrow> [] | Some s \<Rightarrow> s)"

lemma coalesce_simps [simp]:
  "coalesce None = []" "coalesce (Some s) = s" "coalesce (nullif s) = s"
  by (simp_all add: coalesce_def nullif_def)

lemma nullif_coalesce: "x \<noteq> Some [] \<Longrightarrow> nullif (coalesce x) = x"
  by (auto simp: coalesce_def nullif_def split: option.splits)

section \<open>Reading rows\<close>

definition scan_wallet :: "(string \<Rightarrow> bool) \<Rightarrow> wallet_row \<Rightarrow> wallet res" where
  "scan_wallet iso4217 r =
     res_bind (new_money_from_minor iso4217 (wr_balance r) (wr_currency r)) (\<lambda>balance.
     rehydrate_wallet iso4217 (wr_id r) (wr_player r) balance (wr_version r) (wr_created r)
       (wr_updated r))"

definition scan_transaction :: "(string \<Rightarrow> bool) \<Rightarrow> txn_row \<Rightarrow> wager res" where
  "scan_transaction iso4217 r =
     res_bind (new_money_from_minor iso4217 (tr_money r) (tr_currency r)) (\<lambda>money.
     res_bind (case (tr_result r, tr_result_currency r) of
         (Some minor, Some cur) \<Rightarrow>
           res_bind (new_money_from_minor iso4217 minor cur) (\<lambda>b. Inr (Some b))
       | _ \<Rightarrow> Inr None) (\<lambda>result.
     rehydrate_wager iso4217
       \<lparr>wt_id = tr_id r, wt_provider = coalesce (tr_provider r),
        wt_external = coalesce (tr_external r), wt_key = coalesce (tr_key r),
        wt_hash = coalesce (tr_hash r), wt_wallet = tr_wallet r, wt_player = tr_player r,
        wt_round = coalesce (tr_round r), wt_game = coalesce (tr_game r), wt_kind = tr_kind r,
        wt_money = money, wt_ref_external = coalesce (tr_ref_external r),
        wt_ref_id = coalesce (tr_ref_id r), wt_status = tr_status r,
        wt_failure = coalesce (tr_failure r), wt_result = result,
        wt_attempts = tr_attempts r, wt_next = tr_next r, wt_created = tr_created r,
        wt_updated = tr_updated r\<rparr>))"

section \<open>Writing rows\<close>

text \<open>The columns of the \<open>INSERT\<close> statements.\<close>

definition wallet_row_of :: "wallet \<Rightarrow> wallet_row" where
  "wallet_row_of w =
     \<lparr>wr_id = wallet_id w, wr_player = wallet_player w,
      wr_currency = money_currency (wallet_balance w),
      wr_balance = money_minor (wallet_balance w), wr_version = wallet_version w,
      wr_created = wallet_created w, wr_updated = wallet_updated w\<rparr>"

definition txn_row_of :: "wager \<Rightarrow> txn_row" where
  "txn_row_of t =
     \<lparr>tr_id = wt_id t, tr_origin = External, tr_provider = Some (wt_provider t),
      tr_external = Some (wt_external t), tr_key = Some (wt_key t),
      tr_hash = Some (wt_hash t), tr_wallet = wt_wallet t, tr_player = wt_player t,
      tr_round = Some (wt_round t), tr_game = Some (wt_game t), tr_kind = wt_kind t,
      tr_money = money_minor (wt_money t), tr_currency = money_currency (wt_money t),
      tr_ref_external = nullif (wt_ref_external t), tr_ref_id = nullif (wt_ref_id t),
      tr_status = wt_status t, tr_failure = nullif (wt_failure t),
      tr_result = map_option money_minor (wt_result t),
      tr_result_currency = map_option money_currency (wt_result t),
      tr_attempts = wt_attempts t, tr_next = wt_next t, tr_created = wt_created t,
      tr_updated = wt_updated t\<rparr>"

definition opening_row :: "string \<Rightarrow> wallet \<Rightarrow> money \<Rightarrow> time \<Rightarrow> txn_row" where
  "opening_row tid w amount now =
     \<lparr>tr_id = tid, tr_origin = Internal, tr_provider = None, tr_external = None,
      tr_key = None, tr_hash = None, tr_wallet = wallet_id w, tr_player = wallet_player w,
      tr_round = None, tr_game = None, tr_kind = KindOpening, tr_money = money_minor amount,
      tr_currency = money_currency amount, tr_ref_external = None, tr_ref_id = None,
      tr_status = StatusProcessed, tr_failure = None, tr_result = Some (money_minor amount),
      tr_result_currency = Some (money_currency amount), tr_attempts = 0, tr_next = None,
      tr_created = now, tr_updated = now\<rparr>"

definition ledger_row_of :: "ledger_entry \<Rightarrow> ledger_row" where
  "ledger_row_of e =
     \<lparr>lr_id = entry_id e, lr_wallet = entry_wallet e, lr_transaction = entry_transaction e,
      lr_direction = entry_direction e, lr_money = money_minor (entry_money e),
      lr_currency = money_currency (entry_money e),
      lr_before = money_minor (entry_before e), lr_after = money_minor (entry_after e),
      lr_created = entry_created e\<rparr>"

definition outbox_row_of :: "outbox_event \<Rightarrow> outbox_row" where
  "outbox_row_of ev =
     \<lparr>or_event = ev, or_attempts = 0, or_next = oe_occurred ev, or_locked_by = None,
      or_locked_until = None, or_published = None, or_error = None\<rparr>"

section \<open>Constraints and triggers of the schema\<close>

text \<open>\<open>currency ~ '^[A-Z]{3}$'\<close>\<close>

definition currency_check :: "string \<Rightarrow> bool" where
  "currency_check c \<longleftrightarrow>
     length c = 3 \<and> list_all (\<lambda>x. 65 \<le> (of_char x :: nat) \<and> (of_char x :: nat) \<le> 90) c"

definition wallet_checks :: "wallet_row \<Rightarrow> bool" where
  "wallet_checks r \<longleftrightarrow>
     currency_check (wr_currency r) \<and> 0 \<le> sint (wr_balance r) \<and> 1 \<le> sint (wr_version r)"

definition wallet_unique :: "wallet_row list \<Rightarrow> wallet_row \<Rightarrow> bool" where
  "wallet_unique rs r \<longleftrightarrow>
     list_all (\<lambda>q. wr_id q \<noteq> wr_id r \<and>
       \<not> (wr_player q = wr_player r \<and> wr_currency q = wr_currency r)) rs"

definition reversal_kind :: "kind \<Rightarrow> bool" where
  "reversal_kind k \<longleftrightarrow> k = KindRefund \<or> k = KindRollback"

definition txn_checks :: "txn_row \<Rightarrow> bool" where
  "txn_checks r \<longleftrightarrow>
     0 \<le> sint (tr_money r) \<and> currency_check (tr_currency r) \<and>
     (tr_kind r = KindOpening \<or> external_kind (tr_kind r)) \<and>
     (tr_status r = StatusPending \<or> tr_status r = StatusPendingReference \<or>
      tr_status r = StatusProcessed \<or> tr_status r = StatusRejected \<or>
      tr_status r = StatusFailed) \<and>
     (case tr_result r of None \<Rightarrow> True | Some b \<Rightarrow> 0 \<le> sint b) \<and>
     (case tr_result_currency r of None \<Rightarrow> True | Some c \<Rightarrow> currency_check c) \<and>
     0 \<le> tr_attempts r \<and> tr_attempts r \<le> 2147483647 \<and>
     \<comment> \<open>\<open>wager_origin_fields\<close>\<close>
     (case tr_origin r of
        Internal \<Rightarrow> tr_kind r = KindOpening \<and> tr_provider r = None \<and> tr_external r = None \<and>
          tr_key r = None \<and> tr_hash r = None \<and> tr_round r = None \<and> tr_game r = None \<and>
          tr_ref_external r = None \<and> tr_ref_id r = None
      | External \<Rightarrow> tr_kind r \<noteq> KindOpening \<and> tr_provider r \<noteq> None \<and> tr_external r \<noteq> None \<and>
          tr_key r \<noteq> None \<and> tr_hash r \<noteq> None \<and> tr_round r \<noteq> None \<and> tr_game r \<noteq> None) \<and>
     \<comment> \<open>\<open>wager_amount_policy\<close>\<close>
     (if tr_kind r = KindLoss then sint (tr_money r) = 0 else 0 < sint (tr_money r)) \<and>
     \<comment> \<open>\<open>wager_reference_policy\<close>\<close>
     (reversal_kind (tr_kind r) \<and> tr_ref_external r \<noteq> None \<or> tr_kind r = KindWin \<or>
      \<not> reversal_kind (tr_kind r) \<and> tr_kind r \<noteq> KindWin \<and> tr_ref_external r = None \<and>
        tr_ref_id r = None) \<and>
     \<comment> \<open>\<open>wager_result_policy\<close>\<close>
     (if terminal_status (tr_status r)
      then tr_result r \<noteq> None \<and> tr_result_currency r \<noteq> None
      else tr_result r = None \<and> tr_result_currency r = None) \<and>
     \<comment> \<open>\<open>wager_failure_policy\<close>\<close>
     ((tr_status r = StatusRejected \<or> tr_status r = StatusFailed) \<longleftrightarrow> tr_failure r \<noteq> None) \<and>
     \<comment> \<open>\<open>wager_result_currency_guard\<close>\<close>
     (tr_result_currency r = None \<or> tr_status r = StatusRejected \<or>
      tr_result_currency r = Some (tr_currency r))"

text \<open>The trigger \<open>enforce_wager_wallet_identity\<close>.\<close>

definition wager_identity_guard :: "db \<Rightarrow> txn_row \<Rightarrow> bool" where
  "wager_identity_guard d r \<longleftrightarrow>
     tr_status r = StatusRejected \<or>
     list_ex (\<lambda>w. wr_id w = tr_wallet r \<and> wr_player w = tr_player r \<and>
       wr_currency w = tr_currency r) (wallets d)"

text \<open>
  The primary key and the four unique indexes of \<open>wager_transactions\<close>, against the
  other rows of the table; a \<open>NULL\<close> column is equal to nothing.
\<close>

definition successful_reversal :: "txn_row \<Rightarrow> bool" where
  "successful_reversal r \<longleftrightarrow> tr_status r = StatusProcessed \<and> reversal_kind (tr_kind r)"

definition txn_clash :: "txn_row \<Rightarrow> txn_row \<Rightarrow> bool" where
  "txn_clash q r \<longleftrightarrow>
     tr_id q = tr_id r \<or>
     (tr_origin q = External \<and> tr_origin r = External \<and> tr_provider q \<noteq> None \<and>
      tr_provider q = tr_provider r \<and> tr_key q \<noteq> None \<and> tr_key q = tr_key r) \<or>
     (tr_origin q = External \<and> tr_origin r = External \<and> tr_provider q \<noteq> None \<and>
      tr_provider q = tr_provider r \<and> tr_external q \<noteq> None \<and> tr_external q = tr_external r) \<or>
     (tr_origin q = Internal \<and> tr_kind q = KindOpening \<and> tr_origin r = Internal \<and>
      tr_kind r = KindOpening \<and> tr_wallet q = tr_wallet r) \<or>
     (successful_reversal q \<and> successful_reversal r \<and> tr_ref_id q \<noteq> None \<and>
      tr_ref_id q = tr_ref_id r)"

definition txn_unique :: "txn_row list \<Rightarrow> txn_row \<Rightarrow> bool" where
  "txn_unique rs r \<longleftrightarrow> list_all (\<lambda>q. \<not> txn_clash q r) rs"

definition txn_foreign_keys :: "db \<Rightarrow> txn_row \<Rightarrow> bool" where
  "txn_foreign_keys d r \<longleftrightarrow>
     list_ex (\<lambda>w. wr_id w = tr_wallet r) (wallets d) \<and>
     (case tr_ref_id r of None \<Rightarrow> True
      | Some x \<Rightarrow> list_ex (\<lambda>q. tr_id q = x) (txns d) \<or> tr_id r = x)"

text \<open>
  The trigger \<open>enforce_ledger_transaction\<close>: the direction it expects (\<open>None\<close> when a
  \<open>SELECT INTO STRICT\<close> finds no row), and the test it makes before an insertion.
\<close>

definition find_txn :: "string \<Rightarrow> db \<Rightarrow> txn_row option" where
  "find_txn tid d = find (\<lambda>r. tr_id r = tid) (txns d)"

definition expected_direction :: "db \<Rightarrow> txn_row \<Rightarrow> direction option" where
  "expected_direction d r =
     (case tr_kind r of
        KindBet \<Rightarrow> Some DirectionDebit
      | KindOpening \<Rightarrow> Some DirectionCredit
      | KindWin \<Rightarrow> Some DirectionCredit
      | KindRefund \<Rightarrow> Some DirectionCredit
      | KindRollback \<Rightarrow>
          (case tr_ref_id r of None \<Rightarrow> None
           | Some x \<Rightarrow> (case find_txn x d of None \<Rightarrow> None
              | Some q \<Rightarrow> Some (if tr_kind q = KindBet then DirectionCredit else DirectionDebit)))
      | _ \<Rightarrow> None)"

definition ledger_guard :: "db \<Rightarrow> ledger_row \<Rightarrow> bool" where
  "ledger_guard d l \<longleftrightarrow>
     (case find_txn (lr_transaction l) d of
        None \<Rightarrow> False
      | Some r \<Rightarrow>
          tr_status r = StatusProcessed \<and> tr_kind r \<noteq> KindLoss \<and>
          lr_wallet l = tr_wallet r \<and> lr_currency l = tr_currency r \<and>
          lr_money l = tr_money r \<and> Some (lr_after l) = tr_result r \<and>
          expected_direction d r = Some (lr_direction l))"

definition ledger_checks :: "ledger_row \<Rightarrow> bool" where
  "ledger_checks l \<longleftrightarrow>
     (lr_direction l = DirectionDebit \<or> lr_direction l = DirectionCredit) \<and>
     0 < sint (lr_money l) \<and> currency_check (lr_currency l) \<and>
     0 \<le> sint (lr_before l) \<and> 0 \<le> sint (lr_after l) \<and>
     sint (lr_after l) = sint (lr_before l) + signed_amount (lr_direction l) (sint (lr_money l))"

definition ledger_unique :: "ledger_row list \<Rightarrow> ledger_row \<Rightarrow> bool" where
  "ledger_unique ls l \<longleftrightarrow>
     list_all (\<lambda>m. lr_id m \<noteq> lr_id l \<and>
       \<not> (lr_wallet m = lr_wallet l \<and> lr_transaction m = lr_transaction l)) ls"

definition ledger_foreign_keys :: "db \<Rightarrow> ledger_row \<Rightarrow> bool" where
  "ledger_foreign_keys d l \<longleftrightarrow>
     list_ex (\<lambda>w. wr_id w = lr_wallet l \<and> wr_currency w = lr_currency l) (wallets d)"

text \<open>
  The deferred triggers \<open>wallet_balance_ledger_consistency\<close> and
  \<open>processed_transaction_ledger_required\<close>, which run at the commit for the rows the
  transaction wrote: here the rows that the tables did not hold when it began.
\<close>

definition ledger_total :: "string \<Rightarrow> ledger_row list \<Rightarrow> int" where
  "ledger_total wid ls =
     sum_list (map (\<lambda>l. signed_amount (lr_direction l) (sint (lr_money l)))
       (filter (\<lambda>l. lr_wallet l = wid) ls))"

definition wallet_consistent :: "db \<Rightarrow> wallet_row \<Rightarrow> bool" where
  "wallet_consistent d w \<longleftrightarrow> ledger_total (wr_id w) (ledger d) = sint (wr_balance w)"

definition processed_has_ledger :: "db \<Rightarrow> txn_row \<Rightarrow> bool" where
  "processed_has_ledger d r \<longleftrightarrow>
     tr_status r \<noteq> StatusProcessed \<or> tr_kind r = KindLoss \<or>
     list_ex (\<lambda>l. lr_transaction l = tr_id r) (ledger d)"

definition deferred_ok :: "db \<Rightarrow> db \<Rightarrow> bool" where
  "deferred_ok d0 d \<longleftrightarrow>
     list_all (\<lambda>w. w \<in> set (wallets d0) \<or> wallet_consistent d w) (wallets d) \<and>
     list_all (\<lambda>r. r \<in> set (txns d0) \<or> processed_has_ledger d r) (txns d)"

end
