(* ===== verification/TxStore.thy ===== *)
theory TxStore
  imports Store
begin

text \<open>
  \<open>WithinTransaction\<close> and the methods of \<open>txStore\<close> as a state and error monad. A
  session carries the working copy of the tables, the identifiers that
  \<open>uuid.NewString\<close> will return, and a fault: the number of statements after which the
  driver fails (none, for a run without infrastructure failures). An error ends the
  transaction and the tables of its start are kept.
\<close>

section \<open>Sessions\<close>

record session =
  s_db :: db
  s_ids :: "nat \<Rightarrow> string"
  s_drawn :: nat
  s_fault :: "nat option"

type_synonym 'a tx = "session \<Rightarrow> err + 'a \<times> session"

definition tx_return :: "'a \<Rightarrow> 'a tx" where
  "tx_return x s = Inr (x, s)"

definition tx_fail :: "err \<Rightarrow> 'a tx" where
  "tx_fail e s = Inl e"

definition tx_bind :: "'a tx \<Rightarrow> ('a \<Rightarrow> 'b tx) \<Rightarrow> 'b tx" where
  "tx_bind m f s = (case m s of Inl e \<Rightarrow> Inl e | Inr (x, s') \<Rightarrow> f x s')"

definition tx_lift :: "'a res \<Rightarrow> 'a tx" where
  "tx_lift r s = (case r of Inl e \<Rightarrow> Inl e | Inr x \<Rightarrow> Inr (x, s))"

text \<open>\<open>uuid.NewString()\<close>\<close>

definition new_uuid :: "string tx" where
  "new_uuid s = Inr (s_ids s (s_drawn s), s\<lparr>s_drawn := Suc (s_drawn s)\<rparr>)"

text \<open>One statement: it fails when the fault is due, or as the database answers.\<close>

definition exec :: "(db \<Rightarrow> err + 'a \<times> db) \<Rightarrow> 'a tx" where
  "exec st s =
     (if s_fault s = Some 0 then Inl ErrDatabase
      else case st (s_db s) of
        Inl e \<Rightarrow> Inl e
      | Inr (x, d) \<Rightarrow>
          Inr (x, s\<lparr>s_db := d, s_fault := map_option (\<lambda>k. k - 1) (s_fault s)\<rparr>))"

definition select :: "(db \<Rightarrow> 'a res) \<Rightarrow> 'a tx" where
  "select q = exec (\<lambda>d. case q d of Inl e \<Rightarrow> Inl e | Inr x \<Rightarrow> Inr (x, d))"

text \<open>
  What the environment fixes for one call: the clock, the identifiers, the fault, and
  whether the acknowledgement of the commit is lost on the way back (the tables are then
  changed and the caller still sees an error).
\<close>

record call =
  c_now :: time
  c_ids :: "nat \<Rightarrow> string"
  c_fault :: "nat option"
  c_ack_lost :: bool

definition within_transaction :: "call \<Rightarrow> nat \<Rightarrow> 'a tx \<Rightarrow> db \<Rightarrow> 'a res \<times> db" where
  "within_transaction c drawn fn d =
     (case exec (\<lambda>d. Inr ((), d))
        \<lparr>s_db = d, s_ids = c_ids c, s_drawn = drawn, s_fault = c_fault c\<rparr> of
        Inl e \<Rightarrow> (Inl e, d)
      | Inr (_, s0) \<Rightarrow>
          (case fn s0 of
             Inl e \<Rightarrow> (Inl e, d)
           | Inr (x, s) \<Rightarrow>
               if s_fault s = Some 0 \<or> \<not> deferred_ok d (s_db s) then (Inl ErrDatabase, d)
               else (if c_ack_lost c then Inl ErrDatabase else Inr x, s_db s)))"

section \<open>Statements\<close>

definition acquire_idempotency_lock :: "string \<Rightarrow> string \<Rightarrow> unit tx" where
  "acquire_idempotency_lock provider key = exec (\<lambda>d. Inr ((), d))"

definition inbox_match :: "inbox_input \<Rightarrow> inbox_row \<Rightarrow> bool" where
  "inbox_match i r \<longleftrightarrow> ir_consumer r = in_consumer i \<and> ir_message r = in_message i"

definition claim_inbox :: "inbox_input \<Rightarrow> time \<Rightarrow> inbox_disposition tx" where
  "claim_inbox i now =
     tx_bind (exec (\<lambda>d.
         if list_ex (inbox_match i) (inbox d) then Inr (False, d)
         else Inr (True, d\<lparr>inbox := inbox d @
           [\<lparr>ir_consumer = in_consumer i, ir_message = in_message i, ir_hash = in_hash i,
             ir_received = now, ir_completed = None\<rparr>]\<rparr>))) (\<lambda>inserted.
     if inserted then tx_return InboxInserted
     else tx_bind (select (\<lambda>d.
         case find (inbox_match i) (inbox d) of None \<Rightarrow> Inl ErrDatabase | Some r \<Rightarrow> Inr r)) (\<lambda>r.
       if ir_hash r \<noteq> in_hash i then tx_fail ErrInboxPayloadConflict
       else if ir_completed r \<noteq> None then tx_return InboxAlreadyCompleted
       else tx_return InboxInserted))"

definition complete_inbox :: "inbox_input \<Rightarrow> time \<Rightarrow> unit tx" where
  "complete_inbox i now =
     (let target = (\<lambda>r. inbox_match i r \<and> ir_hash r = in_hash i)
      in exec (\<lambda>d.
        if count_where target (inbox d) \<noteq> 1 then Inl ErrInboxPayloadConflict
        else Inr ((), d\<lparr>inbox := update_where target (\<lambda>r. r\<lparr>ir_completed := Some now\<rparr>) (inbox d)\<rparr>)))"

definition insert_wallet :: "wallet \<Rightarrow> unit tx" where
  "insert_wallet w = exec (\<lambda>d.
     let r = wallet_row_of w in
     if \<not> wallet_checks r then Inl ErrDatabase
     else if \<not> wallet_unique (wallets d) r then Inl ErrConflict
     else Inr ((), d\<lparr>wallets := wallets d @ [r]\<rparr>))"

text \<open>\<open>ReadWallet\<close> and \<open>LockWallet\<close> differ in the row lock only.\<close>

definition find_wallet :: "string \<Rightarrow> db \<Rightarrow> wallet_row option" where
  "find_wallet wid d = find (\<lambda>r. wr_id r = wid) (wallets d)"

definition lock_wallet :: "(string \<Rightarrow> bool) \<Rightarrow> string \<Rightarrow> wallet tx" where
  "lock_wallet iso4217 wid = select (\<lambda>d.
     case find_wallet wid d of None \<Rightarrow> Inl ErrNotFound | Some r \<Rightarrow> scan_wallet iso4217 r)"

definition read_wallet :: "(string \<Rightarrow> bool) \<Rightarrow> string \<Rightarrow> wallet tx" where
  "read_wallet iso4217 wid = select (\<lambda>d.
     case find_wallet wid d of None \<Rightarrow> Inl ErrNotFound | Some r \<Rightarrow> scan_wallet iso4217 r)"

definition update_wallet :: "wallet \<Rightarrow> unit tx" where
  "update_wallet w =
     (let target = (\<lambda>r. wr_id r = wallet_id w \<and> sint (wr_version r) = sint (wallet_version w) - 1);
          change = (\<lambda>r. r\<lparr>wr_balance := money_minor (wallet_balance w),
                          wr_version := wallet_version w, wr_updated := wallet_updated w\<rparr>)
      in exec (\<lambda>d.
        if wallet_version w = min_int64 \<or>
           list_ex (\<lambda>r. target r \<and> \<not> wallet_checks (change r)) (wallets d) then Inl ErrDatabase
        else if count_where target (wallets d) \<noteq> 1 then Inl ErrConflict
        else Inr ((), d\<lparr>wallets := update_where target change (wallets d)\<rparr>)))"

text \<open>
  The guards an inserted or updated row of \<open>wager_transactions\<close> passes, in PostgreSQL's
  order: the trigger before the row is written, the check constraints, the unique indexes
  (whose violation \<open>translateWriteError\<close> turns into \<open>ErrConflict\<close>), the foreign keys.
\<close>

definition txn_guards :: "db \<Rightarrow> txn_row list \<Rightarrow> txn_row \<Rightarrow> unit res" where
  "txn_guards d others r =
     (if \<not> wager_identity_guard d r \<or> \<not> txn_checks r then Inl ErrDatabase
      else if \<not> txn_unique others r then Inl ErrConflict
      else if \<not> txn_foreign_keys d r then Inl ErrDatabase
      else Inr ())"

definition insert_txn_row :: "txn_row \<Rightarrow> unit tx" where
  "insert_txn_row r = exec (\<lambda>d.
     case txn_guards d (txns d) r of
       Inl e \<Rightarrow> Inl e
     | Inr _ \<Rightarrow> Inr ((), d\<lparr>txns := txns d @ [r]\<rparr>))"

definition insert_opening :: "string \<Rightarrow> wallet \<Rightarrow> money \<Rightarrow> time \<Rightarrow> unit tx" where
  "insert_opening tid w amount now = insert_txn_row (opening_row tid w amount now)"

definition insert_transaction :: "wager \<Rightarrow> unit tx" where
  "insert_transaction t = insert_txn_row (txn_row_of t)"

definition change_txn_row :: "wager \<Rightarrow> txn_row \<Rightarrow> txn_row" where
  "change_txn_row t r =
     r\<lparr>tr_ref_id := nullif (wt_ref_id t), tr_status := wt_status t,
       tr_failure := nullif (wt_failure t), tr_result := map_option money_minor (wt_result t),
       tr_result_currency := map_option money_currency (wt_result t),
       tr_attempts := wt_attempts t, tr_next := wt_next t, tr_updated := wt_updated t\<rparr>"

definition update_transaction :: "wager \<Rightarrow> unit tx" where
  "update_transaction t = exec (\<lambda>d.
     case find_txn (wt_id t) d of
       None \<Rightarrow> Inl ErrNotFound
     | Some r \<Rightarrow>
         (case txn_guards d (filter (\<lambda>q. tr_id q \<noteq> wt_id t) (txns d)) (change_txn_row t r) of
            Inl e \<Rightarrow> Inl e
          | Inr _ \<Rightarrow>
              Inr ((), d\<lparr>txns := update_where (\<lambda>q. tr_id q = wt_id t) (change_txn_row t) (txns d)\<rparr>)))"

definition find_by_key :: "string \<Rightarrow> string \<Rightarrow> db \<Rightarrow> txn_row option" where
  "find_by_key provider key d =
     find (\<lambda>r. tr_provider r = Some provider \<and> tr_key r = Some key) (txns d)"

definition find_by_external :: "string \<Rightarrow> string \<Rightarrow> db \<Rightarrow> txn_row option" where
  "find_by_external provider ext d =
     find (\<lambda>r. tr_provider r = Some provider \<and> tr_external r = Some ext) (txns d)"

definition scan_optional :: "(string \<Rightarrow> bool) \<Rightarrow> txn_row option \<Rightarrow> wager option res" where
  "scan_optional iso4217 x =
     (case x of None \<Rightarrow> Inr None
      | Some r \<Rightarrow> res_bind (scan_transaction iso4217 r) (\<lambda>t. Inr (Some t)))"

definition find_by_idempotency ::
    "(string \<Rightarrow> bool) \<Rightarrow> string \<Rightarrow> string \<Rightarrow> wager option tx" where
  "find_by_idempotency iso4217 provider key =
     select (\<lambda>d. scan_optional iso4217 (find_by_key provider key d))"

definition find_by_external_id ::
    "(string \<Rightarrow> bool) \<Rightarrow> string \<Rightarrow> string \<Rightarrow> wager option tx" where
  "find_by_external_id iso4217 provider ext =
     select (\<lambda>d. scan_optional iso4217 (find_by_external provider ext d))"

definition lock_transaction :: "(string \<Rightarrow> bool) \<Rightarrow> string \<Rightarrow> wager tx" where
  "lock_transaction iso4217 tid = select (\<lambda>d.
     case find_txn tid d of None \<Rightarrow> Inl ErrNotFound | Some r \<Rightarrow> scan_transaction iso4217 r)"

definition successful_reversal_exists :: "string \<Rightarrow> bool tx" where
  "successful_reversal_exists refId = select (\<lambda>d.
     Inr (list_ex (\<lambda>r. tr_ref_id r = Some refId \<and> successful_reversal r) (txns d)))"

definition insert_ledger :: "ledger_entry \<Rightarrow> unit tx" where
  "insert_ledger e = exec (\<lambda>d.
     let l = ledger_row_of e in
     if \<not> ledger_guard d l \<or> \<not> ledger_checks l then Inl ErrDatabase
     else if \<not> ledger_unique (ledger d) l then Inl ErrConflict
     else if \<not> ledger_foreign_keys d l then Inl ErrDatabase
     else Inr ((), d\<lparr>ledger := ledger d @ [l]\<rparr>))"

definition insert_outbox :: "outbox_event \<Rightarrow> unit tx" where
  "insert_outbox ev = exec (\<lambda>d.
     if list_ex (\<lambda>r. oe_id (or_event r) = oe_id ev) (outbox d) then Inl ErrConflict
     else Inr ((), d\<lparr>outbox := outbox d @ [outbox_row_of ev]\<rparr>))"

text \<open>The credits, the debits (both cast to \<open>bigint\<close>) and the number of entries.\<close>

definition ledger_sum :: "direction \<Rightarrow> ledger_row list \<Rightarrow> int" where
  "ledger_sum dir ls =
     sum_list (map (\<lambda>l. sint (lr_money l)) (filter (\<lambda>l. lr_direction l = dir) ls))"

definition sum_ledger :: "string \<Rightarrow> string \<Rightarrow> (int64 \<times> int64 \<times> int64) tx" where
  "sum_ledger wid cur = select (\<lambda>d.
     let ls = filter (\<lambda>l. lr_wallet l = wid \<and> lr_currency l = cur) (ledger d);
         credits = ledger_sum DirectionCredit ls; debits = ledger_sum DirectionDebit ls
     in if \<not> int64_range credits \<or> \<not> int64_range debits then Inl ErrDatabase
        else Inr (word_of_int credits, word_of_int debits, of_nat (length ls)))"

section \<open>Laws of the monad\<close>

lemma tx_bind_return [simp]: "tx_bind (tx_return x) f = f x"
  by (simp add: tx_bind_def tx_return_def fun_eq_iff)

lemma tx_bind_fail [simp]: "tx_bind (tx_fail e) f = tx_fail e"
  by (simp add: tx_bind_def tx_fail_def fun_eq_iff)

lemma tx_bind_lift [simp]:
  "tx_bind (tx_lift (Inl e)) f = tx_fail e" "tx_bind (tx_lift (Inr x)) f = f x"
  by (simp_all add: tx_bind_def tx_lift_def tx_fail_def fun_eq_iff)

lemma tx_bind_assoc: "tx_bind (tx_bind m f) g = tx_bind m (\<lambda>x. tx_bind (f x) g)"
  by (auto simp: tx_bind_def fun_eq_iff split: sum.splits prod.splits)

lemma tx_bind_ok:
  "tx_bind m f s = Inr (y, s'') \<longleftrightarrow> (\<exists>x s'. m s = Inr (x, s') \<and> f x s' = Inr (y, s''))"
  by (auto simp: tx_bind_def split: sum.splits prod.splits)

lemma tx_return_ok [simp]: "tx_return x s = Inr (y, s') \<longleftrightarrow> y = x \<and> s' = s"
  by (auto simp: tx_return_def)

lemma tx_fail_ok [simp]: "tx_fail e s \<noteq> Inr z"
  by (simp add: tx_fail_def)

lemma tx_lift_ok [simp]: "tx_lift r s = Inr (x, s') \<longleftrightarrow> r = Inr x \<and> s' = s"
  by (auto simp: tx_lift_def split: sum.splits)

lemma tx_if_ok: "(if b then m else n) s = (if b then m s else (n :: 'a tx) s)"
  by simp

lemma exec_ok:
  "exec st s = Inr (x, s') \<longleftrightarrow>
     s_fault s \<noteq> Some 0 \<and> st (s_db s) = Inr (x, s_db s') \<and>
     s' = s\<lparr>s_db := s_db s', s_fault := map_option (\<lambda>k. k - 1) (s_fault s)\<rparr>"
  by (cases s; cases s') (auto simp: exec_def split: sum.splits prod.splits)

text \<open>A successful step only tells what it did to the tables.\<close>

lemma execD: "exec st s = Inr (x, s') \<Longrightarrow> st (s_db s) = Inr (x, s_db s')"
  by (simp add: exec_ok)

lemma selectD: "select q s = Inr (x, s') \<Longrightarrow> q (s_db s) = Inr x \<and> s_db s' = s_db s"
  by (auto simp: select_def dest!: execD split: sum.splits)

lemma new_uuidD: "new_uuid s = Inr (x, s') \<Longrightarrow> s_db s' = s_db s"
  by (auto simp: new_uuid_def)

text \<open>A run without faults: a statement does what the database answers.\<close>

definition steady :: "session \<Rightarrow> bool" where
  "steady s \<longleftrightarrow> s_fault s = None"

lemma exec_steady:
  "steady s \<Longrightarrow> exec st s =
     (case st (s_db s) of Inl e \<Rightarrow> Inl e | Inr (x, d) \<Rightarrow> Inr (x, s\<lparr>s_db := d\<rparr>))"
  by (cases s) (auto simp: exec_def steady_def split: sum.splits prod.splits)

lemma select_steady:
  "steady s \<Longrightarrow> select q s = (case q (s_db s) of Inl e \<Rightarrow> Inl e | Inr x \<Rightarrow> Inr (x, s))"
  by (cases s) (auto simp: select_def exec_steady split: sum.splits prod.splits)

lemma steady_db [simp]: "steady (s\<lparr>s_db := d\<rparr>) = steady s"
  and steady_drawn [simp]: "steady (s\<lparr>s_drawn := n\<rparr>) = steady s"
  by (simp_all add: steady_def)

end
