(* ===== verification/Backoff.thy ===== *)
theory Backoff
  imports Prelude
begin

text \<open>
  The three retry schedules: \<open>WagerService.backoff\<close>
  (\<open>application/wager_service.go\<close>), \<open>retryDelay\<close> (\<open>messaging/consumer.go\<close>, the
  same loop) and \<open>outboxBackoff\<close> (\<open>messaging/outbox_worker.go\<close>). Durations are
  \<open>int64\<close> nanoseconds, so doubling could wrap; the lemmas show that it never does.
\<close>

section \<open>The loops\<close>

text \<open>Go's signed division truncates towards zero.\<close>

definition go_div :: "int64 \<Rightarrow> int64 \<Rightarrow> int64" where
  "go_div a b = word_of_int (sgn (sint a) * sgn (sint b) * (\<bar>sint a\<bar> div \<bar>sint b\<bar>))"

function retry_loop :: "duration \<Rightarrow> int \<Rightarrow> int \<Rightarrow> duration \<Rightarrow> duration" where
  "retry_loop maximum index attempt delay =
     (if index < attempt \<and> delay <s maximum
      then if go_div maximum 2 <s delay then maximum
           else retry_loop maximum (index + 1) attempt (delay * 2)
      else if maximum <s delay then maximum else delay)"
  by pat_completeness auto
termination
  by (relation "measure (\<lambda>(maximum, index, attempt, delay). nat (attempt - index))") auto

declare retry_loop.simps [simp del]

definition retry_delay :: "duration \<Rightarrow> duration \<Rightarrow> int \<Rightarrow> duration" where
  "retry_delay base maximum attempt =
     retry_loop maximum 1 (if attempt < 1 then 1 else attempt) base"

definition reference_backoff :: "duration \<Rightarrow> duration \<Rightarrow> int \<Rightarrow> duration" where
  "reference_backoff base maximum attempt =
     retry_loop maximum 1 (if attempt < 1 then 1 else attempt) base"

definition second :: duration where
  "second = 1000000000"

definition five_minutes :: duration where
  "five_minutes = 300000000000"

function outbox_loop :: "int \<Rightarrow> int \<Rightarrow> duration \<Rightarrow> duration" where
  "outbox_loop index attempt delay =
     (if index < attempt \<and> delay <s five_minutes then outbox_loop (index + 1) attempt (delay * 2)
      else if five_minutes <s delay then five_minutes else delay)"
  by pat_completeness auto
termination
  by (relation "measure (\<lambda>(index, attempt, delay). nat (attempt - index))") auto

declare outbox_loop.simps [simp del]

definition outbox_backoff :: "int \<Rightarrow> duration" where
  "outbox_backoff attempt = outbox_loop 1 attempt second"

section \<open>Their values\<close>

text \<open>Doubling, capped: the specification of all three.\<close>

definition capped_doubling :: "int \<Rightarrow> int \<Rightarrow> int \<Rightarrow> int" where
  "capped_doubling base maximum attempt = min maximum (base * 2 ^ nat (attempt - 1))"

lemma sint_five_minutes [simp]: "sint five_minutes = 300000000000"
  by (simp add: five_minutes_def)

lemma sint_second [simp]: "sint second = 1000000000"
  by (simp add: second_def)

lemma sint_go_half:
  assumes m: "0 \<le> sint m"
  shows "sint (go_div m 2) = sint m div 2"
proof -
  have "go_div m 2 = word_of_int (sint m div 2)"
    using m by (cases "sint m = 0") (simp_all add: go_div_def)
  moreover have "int64_range (sint m div 2)"
    using m sint_le_max [of m] by (auto simp: int64_range_def)
  ultimately show ?thesis
    using sint_of_int_exact [of "sint m div 2"] by simp
qed

lemma sint_double:
  "0 < sint d \<Longrightarrow> 2 * sint d \<le> 9223372036854775807 \<Longrightarrow> sint (d * 2 :: int64) = 2 * sint d"
  using sint_mult_exact [of d 2] by (simp add: int64_range_def mult.commute)

lemma double_steps:
  fixes x :: int and index :: int
  shows "index < attempt \<Longrightarrow> x * 2 ^ nat (attempt - index) = 2 * x * 2 ^ nat (attempt - (index + 1))"
proof -
  assume "index < attempt"
  then have "nat (attempt - index) = Suc (nat (attempt - (index + 1)))" by linarith
  then show "x * 2 ^ nat (attempt - index) = 2 * x * 2 ^ nat (attempt - (index + 1))" by simp
qed

lemma le_mult_power: "0 < (x :: int) \<Longrightarrow> x \<le> x * 2 ^ n"
  by simp

lemma retry_loop_value:
  assumes "0 < sint delay" and "index \<le> attempt"
  shows "sint (retry_loop maximum index attempt delay) =
    min (sint maximum) (sint delay * 2 ^ nat (attempt - index))"
  using assms
proof (induction maximum index attempt delay rule: retry_loop.induct)
  case (1 maximum index attempt delay)
  show ?case
  proof (cases "index < attempt \<and> delay <s maximum")
    case False
    have "sint delay \<le> sint delay * 2 ^ nat (attempt - index)"
      using "1.prems"(1) by (rule le_mult_power)
    then have "sint maximum < sint delay \<Longrightarrow>
        min (sint maximum) (sint delay * 2 ^ nat (attempt - index)) = sint maximum"
      by (intro min_absorb1) linarith
    moreover have "\<not> sint maximum < sint delay \<Longrightarrow> sint delay = sint maximum \<or> index = attempt"
      using False "1.prems"(2) by (auto simp: sless_iff_sint)
    ultimately show ?thesis
      using False \<open>sint delay \<le> sint delay * 2 ^ nat (attempt - index)\<close>
      by (subst retry_loop.simps) (auto simp: sless_iff_sint)
  next
    case True
    then have lt: "index < attempt" and d: "sint delay < sint maximum"
      by (auto simp: sless_iff_sint)
    have half: "go_div maximum 2 <s delay \<longleftrightarrow> sint maximum div 2 < sint delay"
      using d "1.prems"(1) by (simp add: sless_iff_sint sint_go_half)
    have pow: "2 * sint delay \<le> 2 * sint delay * 2 ^ nat (attempt - (index + 1))"
      using "1.prems"(1) by (intro le_mult_power) simp
    show ?thesis
    proof (cases "go_div maximum 2 <s delay")
      case ret: True
      then have "sint maximum \<le> 2 * sint delay" using half by linarith
      with pow have "sint maximum \<le> sint delay * 2 ^ nat (attempt - index)"
        unfolding double_steps [OF lt] by linarith
      with True ret show ?thesis by (subst retry_loop.simps) simp
    next
      case cont: False
      then have le: "2 * sint delay \<le> sint maximum" using half by linarith
      then have dbl: "sint (delay * 2) = 2 * sint delay"
        using "1.prems"(1) sint_le_max [of maximum] by (intro sint_double) linarith+
      have "sint (retry_loop maximum (index + 1) attempt (delay * 2)) =
          min (sint maximum) (2 * sint delay * 2 ^ nat (attempt - (index + 1)))"
        using "1.IH" [OF True cont] "1.prems"(1) lt dbl by simp
      with True cont show ?thesis
        by (subst retry_loop.simps) (simp add: double_steps [OF lt])
    qed
  qed
qed

lemma retry_delay_value:
  "0 < sint base \<Longrightarrow>
   sint (retry_delay base maximum attempt) = capped_doubling (sint base) (sint maximum) attempt"
  by (simp add: retry_delay_def retry_loop_value capped_doubling_def)

lemma reference_backoff_value:
  "0 < sint base \<Longrightarrow>
   sint (reference_backoff base maximum attempt) = capped_doubling (sint base) (sint maximum) attempt"
  by (simp add: reference_backoff_def retry_loop_value capped_doubling_def)

lemma outbox_loop_value:
  assumes "0 < sint delay" and "index \<le> attempt" and "sint delay \<le> 600000000000"
  shows "sint (outbox_loop index attempt delay) =
    min 300000000000 (sint delay * 2 ^ nat (attempt - index))"
  using assms
proof (induction index attempt delay rule: outbox_loop.induct)
  case (1 index attempt delay)
  show ?case
  proof (cases "index < attempt \<and> delay <s five_minutes")
    case False
    have "sint delay \<le> sint delay * 2 ^ nat (attempt - index)"
      using "1.prems"(1) by (rule le_mult_power)
    then have "300000000000 < sint delay \<Longrightarrow>
        min 300000000000 (sint delay * 2 ^ nat (attempt - index)) = 300000000000"
      by (intro min_absorb1) linarith
    moreover have "\<not> 300000000000 < sint delay \<Longrightarrow> sint delay = 300000000000 \<or> index = attempt"
      using False "1.prems"(2) by (auto simp: sless_iff_sint)
    ultimately show ?thesis
      using False \<open>sint delay \<le> sint delay * 2 ^ nat (attempt - index)\<close>
      by (subst outbox_loop.simps) (auto simp: sless_iff_sint)
  next
    case True
    then have lt: "index < attempt" and d: "sint delay < 300000000000"
      by (auto simp: sless_iff_sint)
    have dbl: "sint (delay * 2) = 2 * sint delay"
      using "1.prems"(1) d by (intro sint_double) linarith+
    have "sint (outbox_loop (index + 1) attempt (delay * 2)) =
        min 300000000000 (2 * sint delay * 2 ^ nat (attempt - (index + 1)))"
      using "1.IH" [OF True] "1.prems"(1) lt d dbl by simp
    with True show ?thesis
      by (subst outbox_loop.simps) (simp add: double_steps [OF lt])
  qed
qed

lemma outbox_backoff_value:
  "sint (outbox_backoff attempt) = capped_doubling 1000000000 300000000000 attempt"
proof (cases "1 \<le> attempt")
  case True
  then show ?thesis
    by (simp add: outbox_backoff_def outbox_loop_value capped_doubling_def)
next
  case False
  then show ?thesis
    by (subst outbox_backoff_def, subst outbox_loop.simps)
      (simp add: capped_doubling_def sless_iff_sint)
qed

section \<open>The contract of a schedule\<close>

text \<open>
  What the workers rely on: every delay is positive (the next attempt lies after now),
  bounded, and never shorter than the one before.
\<close>

locale retry_schedule =
  fixes delay :: "int \<Rightarrow> duration"
    and bound :: int
  assumes delay_pos: "0 < sint (delay n)"
    and delay_bound: "sint (delay n) \<le> bound"
    and delay_mono: "m \<le> n \<Longrightarrow> sint (delay m) \<le> sint (delay n)"
begin

lemma next_attempt_after: "now < time_add now (delay n)"
  using delay_pos by (simp add: time_add_def)

lemma next_attempt_within: "time_add now (delay n) \<le> now + bound"
  using delay_bound by (simp add: time_add_def)

end

text \<open>The parameters that the configuration's validation tags admit.\<close>

locale retry_parameters =
  fixes base maximum :: duration
  assumes base_pos: "0 < sint base" and base_le: "sint base \<le> sint maximum"

lemma capped_doubling_mono:
  "0 < base \<Longrightarrow> m \<le> n \<Longrightarrow> capped_doubling base maximum m \<le> capped_doubling base maximum n"
proof -
  assume b: "0 < base" and "m \<le> n"
  then have "(2 :: int) ^ nat (m - 1) \<le> 2 ^ nat (n - 1)"
    by (intro power_increasing) auto
  with b have "base * 2 ^ nat (m - 1) \<le> base * 2 ^ nat (n - 1)" by simp
  then show ?thesis unfolding capped_doubling_def by linarith
qed

lemma capped_doubling_bounds:
  "0 < base \<Longrightarrow> base \<le> maximum \<Longrightarrow>
   base \<le> capped_doubling base maximum n \<and> capped_doubling base maximum n \<le> maximum"
  using le_mult_power [of base "nat (n - 1)"] by (auto simp: capped_doubling_def)

sublocale retry_parameters \<subseteq> retry: retry_schedule "retry_delay base maximum" "sint maximum"
proof
  fix m n :: int
  note b = capped_doubling_bounds [OF base_pos base_le]
  show "0 < sint (retry_delay base maximum n)"
    using b [of n] base_pos by (simp add: retry_delay_value)
  show "sint (retry_delay base maximum n) \<le> sint maximum"
    using b [of n] base_pos by (simp add: retry_delay_value)
  show "sint (retry_delay base maximum m) \<le> sint (retry_delay base maximum n)" if "m \<le> n"
    using capped_doubling_mono [OF base_pos that] base_pos by (simp add: retry_delay_value)
qed

lemma reference_backoff_is_retry_delay: "reference_backoff = retry_delay"
  by (simp add: fun_eq_iff reference_backoff_def retry_delay_def)

interpretation outbox_schedule: retry_schedule outbox_backoff 300000000000
proof
  fix m n :: int
  show "0 < sint (outbox_backoff n)" and "sint (outbox_backoff n) \<le> 300000000000"
    using capped_doubling_bounds [of 1000000000 300000000000 n] by (simp_all add: outbox_backoff_value)
  show "sint (outbox_backoff m) \<le> sint (outbox_backoff n)" if "m \<le> n"
    using capped_doubling_mono [OF _ that, of 1000000000 300000000000]
    by (simp add: outbox_backoff_value)
qed

end
