(* ===== verification/WagerService.thy ===== *)
theory WagerService
  imports TxStore Backoff
begin

text \<open>
  The use cases of \<open>internal/application/wager_service.go\<close>: \<open>Process\<close>,
  \<open>ResolvePendingReference\<close> and \<open>RecordPendingReferenceFailure\<close>, with the helpers
  they share. Metrics, spans and logs are left out. A method that mutates its
  transaction or wallet argument returns it.
\<close>

section \<open>The service\<close>

text \<open>
  What the service is built with: the ISO 4217 predicate, \<open>sha256\<close> and \<open>hex\<close> over the
  JSON object of the payload, the injected validators, and the \<open>ReferencePolicy\<close>.
\<close>

record service =
  sv_iso :: "string \<Rightarrow> bool"
  sv_digest :: "(string \<times> string) list \<Rightarrow> string"
  sv_valid :: "wager_command \<Rightarrow> bool"
  sv_valid_wallet :: "wallet_command \<Rightarrow> bool"
  sv_max_attempts :: int
  sv_base_backoff :: duration
  sv_max_backoff :: duration

definition service_backoff :: "service \<Rightarrow> int \<Rightarrow> duration" where
  "service_backoff sv attempt = reference_backoff (sv_base_backoff sv) (sv_max_backoff sv) attempt"

text \<open>The keys of a Go map are marshalled in lexicographic order.\<close>

definition payload_fields :: "wager_command \<Rightarrow> (string \<times> string) list" where
  "payload_fields cmd =
     [(''amount'', money_amount (cmd_money cmd)),
      (''currency'', money_currency (cmd_money cmd)),
      (''externalTransactionId'', cmd_external cmd),
      (''gameId'', cmd_game cmd),
      (''kind'', string_of_kind (cmd_kind cmd)),
      (''playerId'', cmd_player cmd),
      (''providerId'', cmd_provider cmd),
      (''referenceExternalTransactionId'', cmd_ref_external cmd),
      (''roundId'', cmd_round cmd),
      (''walletId'', cmd_wallet cmd)]"

definition wager_payload_hash :: "service \<Rightarrow> wager_command \<Rightarrow> string" where
  "wager_payload_hash sv cmd = sv_digest sv (payload_fields cmd)"

definition reference_is_pending :: "wager option \<Rightarrow> bool" where
  "reference_is_pending x \<longleftrightarrow>
     (case x of None \<Rightarrow> True
      | Some t \<Rightarrow> wt_status t = StatusPending \<or> wt_status t = StatusPendingReference)"

definition complete_inbox_if :: "inbox_input option \<Rightarrow> time \<Rightarrow> unit tx" where
  "complete_inbox_if x now = (case x of None \<Rightarrow> tx_return () | Some i \<Rightarrow> complete_inbox i now)"

definition save_transaction :: "bool \<Rightarrow> wager \<Rightarrow> unit tx" where
  "save_transaction fresh t = (if fresh then insert_transaction t else update_transaction t)"

text \<open>\<open>newEvent\<close> draws the identifier, \<open>InsertOutbox\<close> stores the event.\<close>

definition emit ::
    "event_type \<Rightarrow> string \<Rightarrow> string \<Rightarrow> string \<Rightarrow> time \<Rightarrow> event_data \<Rightarrow> unit tx" where
  "emit ty aggregate correlation causation now dat =
     tx_bind new_uuid (\<lambda>eid.
     insert_outbox (new_event eid ty aggregate correlation causation now dat))"

definition reject_tx ::
    "service \<Rightarrow> wager \<Rightarrow> wallet \<Rightarrow> string \<Rightarrow> string \<Rightarrow> string \<Rightarrow> time \<Rightarrow> bool \<Rightarrow> wager tx" where
  "reject_tx sv t w code correlation causation now fresh =
     tx_bind (tx_lift (reject_wager (sv_iso sv) t code (wallet_balance w) now)) (\<lambda>t'.
     tx_bind (save_transaction fresh t') (\<lambda>_.
     tx_bind (emit EventWagerTransactionRejected (wt_id t') correlation causation now
       (RejectedData \<lparr>od_transaction = wt_id t', od_external = wt_external t',
          od_provider = wt_provider t', od_wallet = wallet_id w, od_kind = wt_kind t',
          od_status = wt_status t', od_failure = code,
          od_balance = view_money (wallet_balance w)\<rparr>)) (\<lambda>_.
     tx_return t')))"

definition pending_event :: "wager \<Rightarrow> string \<Rightarrow> string \<Rightarrow> time \<Rightarrow> unit tx" where
  "pending_event t correlation causation now =
     emit EventWagerTransactionPendingReference (wt_id t) correlation causation now
       (PendingReferenceData \<lparr>qd_transaction = wt_id t, qd_external = wt_external t,
          qd_provider = wt_provider t, qd_wallet = wt_wallet t,
          qd_ref_external = wt_ref_external t, qd_status = wt_status t,
          qd_next = wt_next t\<rparr>)"

text \<open>The empty code is "no failure".\<close>

definition reference_failure :: "wager \<Rightarrow> wager option \<Rightarrow> string tx" where
  "reference_failure t reference =
     (case reference of
        None \<Rightarrow> tx_return (if wt_kind t = KindRefund \<or> wt_kind t = KindRollback
                          then FailureReferenceNotFound else [])
      | Some r \<Rightarrow>
          if wt_provider r \<noteq> wt_provider t \<or> wt_player r \<noteq> wt_player t \<or>
             wt_wallet r \<noteq> wt_wallet t \<or> wt_round r \<noteq> wt_round t \<or>
             money_currency (wt_money r) \<noteq> money_currency (wt_money t)
          then tx_return FailureReferenceMismatch
          else if (wt_kind t = KindRefund \<or> wt_kind t = KindRollback) \<and> wt_money r \<noteq> wt_money t
          then tx_return FailureReferenceAmountMismatch
          else if (wt_kind t = KindWin \<or> wt_kind t = KindRefund) \<and> wt_kind r \<noteq> KindBet
          then tx_return FailureInvalidReferenceKind
          else if wt_kind t = KindRollback \<and> wt_kind r \<noteq> KindBet \<and> wt_kind r \<noteq> KindWin \<and>
             wt_kind r \<noteq> KindRefund
          then tx_return FailureInvalidReferenceKind
          else if wt_kind t = KindRefund \<or> wt_kind t = KindRollback
          then tx_bind (successful_reversal_exists (wt_id r)) (\<lambda>exists.
            tx_return (if exists then FailureReferenceAlreadyReversed else []))
          else tx_return [])"

section \<open>finalize\<close>

text \<open>
  The switch over the kind: the direction (none for \<open>LOSS\<close>), the balances before and
  after, the wallet after the movement.
\<close>

definition movement_of ::
    "(string \<Rightarrow> bool) \<Rightarrow> wager \<Rightarrow> wallet \<Rightarrow> wager option \<Rightarrow> time \<Rightarrow>
     (direction option \<times> money \<times> money \<times> wallet) res" where
  "movement_of iso4217 t w reference now =
     (let debit = res_bind (wallet_debit iso4217 w (wt_money t) now)
            (\<lambda>(before, after, w'). Inr (Some DirectionDebit, before, after, w'));
          credit = res_bind (wallet_credit iso4217 w (wt_money t) now)
            (\<lambda>(before, after, w'). Inr (Some DirectionCredit, before, after, w'))
      in case wt_kind t of
           KindBet \<Rightarrow> debit
         | KindWin \<Rightarrow> credit
         | KindRefund \<Rightarrow> credit
         | KindRollback \<Rightarrow>
             (case reference of
                None \<Rightarrow> Inl ErrReferenceNotProcessed
              | Some r \<Rightarrow> if wt_kind r = KindBet then credit else debit)
         | KindLoss \<Rightarrow> Inr (None, wallet_balance w, wallet_balance w, w)
         | _ \<Rightarrow> Inl ErrInvalidTransaction)"

definition record_movement ::
    "(string \<Rightarrow> bool) \<Rightarrow> wager \<Rightarrow> direction \<Rightarrow> money \<Rightarrow> money \<Rightarrow> wallet \<Rightarrow> time \<Rightarrow> unit tx" where
  "record_movement iso4217 t dir before after w now =
     tx_bind (update_wallet w) (\<lambda>_.
     tx_bind new_uuid (\<lambda>lid.
     tx_bind (tx_lift (new_ledger_entry iso4217 lid (wallet_id w) (wt_id t) dir (wt_money t)
       before after now)) (\<lambda>entry.
     insert_ledger entry)))"

definition processed_event :: "wager \<Rightarrow> wallet \<Rightarrow> money \<Rightarrow> event_data" where
  "processed_event t w after =
     ProcessedData \<lparr>pd_transaction = wt_id t, pd_external = wt_external t,
       pd_provider = wt_provider t, pd_wallet = wallet_id w, pd_player = wt_player t,
       pd_round = wt_round t, pd_game = wt_game t, pd_kind = wt_kind t,
       pd_money = view_money (wt_money t), pd_status = wt_status t,
       pd_balance = view_money after, pd_ref_id = wt_ref_id t,
       pd_ref_external = wt_ref_external t\<rparr>"

definition changed_event ::
    "wager \<Rightarrow> wallet \<Rightarrow> direction \<Rightarrow> money \<Rightarrow> money \<Rightarrow> event_data" where
  "changed_event t w dir before after =
     BalanceChangedData \<lparr>cd_wallet = wallet_id w, cd_transaction = wt_id t,
       cd_direction = dir, cd_money = view_money (wt_money t),
       cd_before = view_money before, cd_after = view_money after,
       cd_version = wallet_version w\<rparr>"

definition settle_tx ::
    "service \<Rightarrow> wager \<Rightarrow> direction option \<Rightarrow> money \<Rightarrow> money \<Rightarrow> wallet \<Rightarrow> string \<Rightarrow> string \<Rightarrow>
     time \<Rightarrow> bool \<Rightarrow> (wager \<times> wallet) tx" where
  "settle_tx sv t dir before after w correlation causation now fresh =
     tx_bind (tx_lift (mark_processed (sv_iso sv) t after now)) (\<lambda>t'.
     tx_bind (save_transaction fresh t') (\<lambda>_.
     tx_bind (case dir of None \<Rightarrow> tx_return ()
              | Some dr \<Rightarrow> record_movement (sv_iso sv) t' dr before after w now) (\<lambda>_.
     tx_bind (emit EventWagerTransactionProcessed (wt_id t') correlation causation now
       (processed_event t' w after)) (\<lambda>_.
     tx_bind (case dir of None \<Rightarrow> tx_return ()
              | Some dr \<Rightarrow> emit EventWalletBalanceChanged (wallet_id w) correlation (wt_id t') now
                  (changed_event t' w dr before after)) (\<lambda>_.
     tx_return (t', w))))))"

definition finalize ::
    "service \<Rightarrow> wager \<Rightarrow> wallet \<Rightarrow> wager option \<Rightarrow> string \<Rightarrow> string \<Rightarrow> time \<Rightarrow> bool \<Rightarrow>
     (wager \<times> wallet) tx" where
  "finalize sv t w reference correlation causation now fresh =
     (case movement_of (sv_iso sv) t w reference now of
        Inl e \<Rightarrow>
          if e = ErrInsufficientFunds
          then tx_bind (reject_tx sv t w
                 (if wt_kind t = KindRollback then FailureInsufficientFundsReversal
                  else FailureInsufficientFunds) correlation causation now fresh) (\<lambda>t'.
               tx_return (t', w))
          else tx_fail e
      | Inr (dir, before, after, w') \<Rightarrow>
          settle_tx sv t dir before after w' correlation causation now fresh)"

section \<open>Process\<close>

definition replay_result :: "service \<Rightarrow> wager \<Rightarrow> process_result tx" where
  "replay_result sv t =
     (case wt_result t of
        Some balance \<Rightarrow> tx_return (result_from t balance True)
      | None \<Rightarrow>
          tx_bind (lock_wallet (sv_iso sv) (wt_wallet t)) (\<lambda>w.
          tx_return (result_from t (wallet_balance w) True)))"

definition external_of_command ::
    "service \<Rightarrow> wager_command \<Rightarrow> string \<Rightarrow> time \<Rightarrow> new_external" where
  "external_of_command sv cmd tid now =
     \<lparr>nx_id = tid, nx_provider = cmd_provider cmd, nx_external = cmd_external cmd,
      nx_key = cmd_key cmd, nx_hash = wager_payload_hash sv cmd, nx_wallet = cmd_wallet cmd,
      nx_player = cmd_player cmd, nx_round = cmd_round cmd, nx_game = cmd_game cmd,
      nx_kind = cmd_kind cmd, nx_money = cmd_money cmd,
      nx_ref_external = cmd_ref_external cmd, nx_now = now\<rparr>"

text \<open>
  The tail of \<open>Process\<close> once the reference, if any, is resolved: the checks on it, then
  \<open>finalize\<close>. The result is built from the transaction and the wallet after the call.
\<close>

definition decide_tx ::
    "service \<Rightarrow> wager \<Rightarrow> wallet \<Rightarrow> wager option \<Rightarrow> string \<Rightarrow> string \<Rightarrow> time \<Rightarrow> bool \<Rightarrow>
     (wager \<times> wallet) tx" where
  "decide_tx sv t w reference correlation causation now fresh =
     tx_bind (reference_failure t reference) (\<lambda>code.
     if code \<noteq> [] then
       tx_bind (reject_tx sv t w code correlation causation now fresh) (\<lambda>t'. tx_return (t', w))
     else finalize sv t w reference correlation causation now fresh)"

text \<open>A reference that is stored and not pending: \<open>ResolveReference\<close>, then its status.\<close>

definition resolved_tx ::
    "service \<Rightarrow> wager \<Rightarrow> wallet \<Rightarrow> wager \<Rightarrow> string \<Rightarrow> string \<Rightarrow> time \<Rightarrow> bool \<Rightarrow>
     (wager \<times> wallet) tx" where
  "resolved_tx sv t w r correlation causation now fresh =
     tx_bind (tx_lift (resolve_reference t (wt_id r) now)) (\<lambda>t'.
     if wt_status r \<noteq> StatusProcessed then
       tx_bind (reject_tx sv t' w FailureReferenceNotProcessed correlation causation now fresh)
         (\<lambda>t''. tx_return (t'', w))
     else decide_tx sv t' w (Some r) correlation causation now fresh)"

definition record_new ::
    "service \<Rightarrow> wager_command \<Rightarrow> wager \<Rightarrow> wallet \<Rightarrow> string \<Rightarrow> string \<Rightarrow> time \<Rightarrow>
     (wager \<times> wallet) tx" where
  "record_new sv cmd t w correlation causation now =
     (if wallet_player w \<noteq> cmd_player cmd \<or>
         money_currency (wallet_balance w) \<noteq> money_currency (cmd_money cmd)
      then tx_bind (reject_tx sv t w FailureWalletOwnershipOrCurrencyMismatch correlation
             causation now True) (\<lambda>t'. tx_return (t', w))
      else if cmd_ref_external cmd \<noteq> [] then
        tx_bind (find_by_external_id (sv_iso sv) (cmd_provider cmd) (cmd_ref_external cmd))
          (\<lambda>reference.
          if reference_is_pending reference then
            tx_bind (tx_lift (mark_pending_reference t
              (time_add now (service_backoff sv (wt_attempts t + 1))) now)) (\<lambda>t'.
            tx_bind (insert_transaction t') (\<lambda>_.
            tx_bind (pending_event t' correlation causation now) (\<lambda>_.
            tx_return (t', w))))
          else resolved_tx sv t w (the reference) correlation causation now True)
      else decide_tx sv t w None correlation causation now True)"

definition process_unclaimed ::
    "service \<Rightarrow> wager_command \<Rightarrow> string \<Rightarrow> string \<Rightarrow> time \<Rightarrow> process_result tx" where
  "process_unclaimed sv cmd correlation causation now =
     tx_bind (acquire_idempotency_lock (cmd_provider cmd) (cmd_key cmd)) (\<lambda>_.
     tx_bind (find_by_idempotency (sv_iso sv) (cmd_provider cmd) (cmd_key cmd)) (\<lambda>existing.
     case existing of
       Some t \<Rightarrow>
         if wt_hash t \<noteq> wager_payload_hash sv cmd then tx_fail ErrIdempotencyPayloadConflict
         else tx_bind (replay_result sv t) (\<lambda>result.
              tx_bind (complete_inbox_if (cmd_inbox cmd) now) (\<lambda>_. tx_return result))
     | None \<Rightarrow>
         tx_bind (find_by_external_id (sv_iso sv) (cmd_provider cmd) (cmd_external cmd))
           (\<lambda>byExternal.
         if byExternal \<noteq> None then tx_fail ErrExternalTransactionConflict
         else tx_bind (lock_wallet (sv_iso sv) (cmd_wallet cmd)) (\<lambda>w.
           tx_bind new_uuid (\<lambda>tid.
           tx_bind (tx_lift (new_wager_transaction (sv_iso sv)
             (external_of_command sv cmd tid now))) (\<lambda>t.
           tx_bind (record_new sv cmd t w correlation causation now) (\<lambda>(t', w').
           tx_bind (complete_inbox_if (cmd_inbox cmd) now) (\<lambda>_.
           tx_return (result_from t' (wallet_balance w') False))))))))) "

definition process_tx ::
    "service \<Rightarrow> wager_command \<Rightarrow> string \<Rightarrow> string \<Rightarrow> time \<Rightarrow> process_result tx" where
  "process_tx sv cmd correlation causation now =
     (case cmd_inbox cmd of
        None \<Rightarrow> process_unclaimed sv cmd correlation causation now
      | Some i \<Rightarrow>
          tx_bind (claim_inbox i now) (\<lambda>disposition.
          if disposition = InboxAlreadyCompleted then
            tx_bind (find_by_idempotency (sv_iso sv) (cmd_provider cmd) (cmd_key cmd)) (\<lambda>existing.
            case existing of
              None \<Rightarrow> tx_fail ErrInboxPayloadConflict
            | Some t \<Rightarrow>
                if wt_hash t \<noteq> wager_payload_hash sv cmd then tx_fail ErrInboxPayloadConflict
                else replay_result sv t)
          else process_unclaimed sv cmd correlation causation now))"

definition process :: "service \<Rightarrow> call \<Rightarrow> wager_command \<Rightarrow> db \<Rightarrow> process_result res \<times> db" where
  "process sv c cmd d =
     (if \<not> sv_valid sv cmd then (Inl ErrInvalidTransaction, d)
      else
        let generated = (cmd_correlation cmd = []);
            correlation = (if generated then c_ids c 0 else cmd_correlation cmd);
            causation = (case cmd_inbox cmd of None \<Rightarrow> [] | Some i \<Rightarrow> in_message i)
        in within_transaction c (if generated then 1 else 0)
             (process_tx sv cmd correlation causation (c_now c)) d)"

section \<open>The resolution of pending references\<close>

definition resolve_pending_tx :: "service \<Rightarrow> string \<Rightarrow> time \<Rightarrow> unit tx" where
  "resolve_pending_tx sv tid now =
     tx_bind (lock_transaction (sv_iso sv) tid) (\<lambda>t.
     if wt_status t \<noteq> StatusPendingReference then tx_return ()
     else
       tx_bind (lock_wallet (sv_iso sv) (wt_wallet t)) (\<lambda>w.
       tx_bind (find_by_external_id (sv_iso sv) (wt_provider t) (wt_ref_external t)) (\<lambda>reference.
       if reference_is_pending reference then
         if sv_max_attempts sv \<le> wt_attempts t then
           tx_bind (reject_tx sv t w FailureReferenceNotFound (wt_id t) [] now False)
             (\<lambda>_. tx_return ())
         else
           tx_bind (tx_lift (mark_pending_reference t
             (time_add now (service_backoff sv (wt_attempts t + 1))) now)) (\<lambda>t'.
           update_transaction t')
       else
         tx_bind (resolved_tx sv t w (the reference) (wt_id t) [] now False)
           (\<lambda>_. tx_return ()))))"

definition resolve_pending_reference :: "service \<Rightarrow> call \<Rightarrow> string \<Rightarrow> db \<Rightarrow> unit res \<times> db" where
  "resolve_pending_reference sv c tid d =
     within_transaction c 0 (resolve_pending_tx sv tid (c_now c)) d"

definition record_failure_tx :: "service \<Rightarrow> string \<Rightarrow> time \<Rightarrow> unit tx" where
  "record_failure_tx sv tid now =
     tx_bind (lock_transaction (sv_iso sv) tid) (\<lambda>t.
     if wt_status t \<noteq> StatusPendingReference then tx_return ()
     else
       tx_bind (lock_wallet (sv_iso sv) (wt_wallet t)) (\<lambda>w.
       if wt_attempts t < sv_max_attempts sv then
         tx_bind (tx_lift (mark_pending_reference t
           (time_add now (service_backoff sv (wt_attempts t + 1))) now)) (\<lambda>t'.
         update_transaction t')
       else
         tx_bind (tx_lift (fail_wager (sv_iso sv) t FailureProcessingAttemptsExhausted
           (wallet_balance w) now)) (\<lambda>t'.
         tx_bind (update_transaction t') (\<lambda>_.
         emit EventWagerTransactionFailed (wt_id t') (wt_id t') [] now
           (FailedData \<lparr>od_transaction = wt_id t', od_external = wt_external t',
              od_provider = wt_provider t', od_wallet = wt_wallet t', od_kind = wt_kind t',
              od_status = wt_status t', od_failure = wt_failure t',
              od_balance = view_money (wallet_balance w)\<rparr>)))))"

definition record_pending_reference_failure ::
    "service \<Rightarrow> call \<Rightarrow> string \<Rightarrow> db \<Rightarrow> unit res \<times> db" where
  "record_pending_reference_failure sv c tid d =
     within_transaction c 0 (record_failure_tx sv tid (c_now c)) d"

end
