(* ===== verification/StoreLaws.thy ===== *)
theory StoreLaws
  imports WagerService
begin

text \<open>
  Laws of the store: what is written is read back as the same aggregate, what each
  successful statement did to the tables, and the table invariants (distinct keys,
  rows that rehydrate).
\<close>

section \<open>Rows and aggregates\<close>

lemma new_money_ok [simp]:
  "new_money_from_minor iso4217 minor cur = Inr m \<longleftrightarrow>
     parse_currency iso4217 cur \<and> m = \<lparr>money_minor = minor, money_currency = cur\<rparr>"
  by (auto simp: new_money_from_minor_def)

lemma wallet_row_inject: "wallet_row_of v = wallet_row_of w \<longleftrightarrow> v = w"
  by (cases v; cases w) (auto simp: wallet_row_of_def intro: money.equality)

lemma wallet_row_sel [simp]:
  "wr_id (wallet_row_of w) = wallet_id w" "wr_player (wallet_row_of w) = wallet_player w"
  "wr_currency (wallet_row_of w) = money_currency (wallet_balance w)"
  "wr_balance (wallet_row_of w) = money_minor (wallet_balance w)"
  "wr_version (wallet_row_of w) = wallet_version w"
  "wr_created (wallet_row_of w) = wallet_created w" "wr_updated (wallet_row_of w) = wallet_updated w"
  by (simp_all add: wallet_row_of_def)

lemma scan_wallet_ok:
  "scan_wallet iso4217 r = Inr w \<longleftrightarrow> r = wallet_row_of w \<and> wallet_ok iso4217 w"
proof
  assume "scan_wallet iso4217 r = Inr w"
  then show "r = wallet_row_of w \<and> wallet_ok iso4217 w"
    by (cases r) (auto simp: scan_wallet_def rehydrate_wallet_ok wallet_row_of_def)
next
  assume "r = wallet_row_of w \<and> wallet_ok iso4217 w"
  then show "scan_wallet iso4217 r = Inr w"
    by (cases w) (auto simp: scan_wallet_def rehydrate_wallet_ok wallet_ok_def)
qed

lemma txn_row_sel [simp]:
  "tr_id (txn_row_of t) = wt_id t" "tr_origin (txn_row_of t) = External"
  "tr_provider (txn_row_of t) = Some (wt_provider t)"
  "tr_external (txn_row_of t) = Some (wt_external t)" "tr_key (txn_row_of t) = Some (wt_key t)"
  "tr_hash (txn_row_of t) = Some (wt_hash t)" "tr_wallet (txn_row_of t) = wt_wallet t"
  "tr_player (txn_row_of t) = wt_player t" "tr_kind (txn_row_of t) = wt_kind t"
  "tr_money (txn_row_of t) = money_minor (wt_money t)"
  "tr_currency (txn_row_of t) = money_currency (wt_money t)"
  "tr_ref_id (txn_row_of t) = nullif (wt_ref_id t)"
  "tr_ref_external (txn_row_of t) = nullif (wt_ref_external t)"
  "tr_status (txn_row_of t) = wt_status t" "tr_attempts (txn_row_of t) = wt_attempts t"
  "tr_result (txn_row_of t) = map_option money_minor (wt_result t)"
  "tr_result_currency (txn_row_of t) = map_option money_currency (wt_result t)"
  "tr_failure (txn_row_of t) = nullif (wt_failure t)" "tr_next (txn_row_of t) = wt_next t"
  by (simp_all add: txn_row_of_def)

lemma wager_ok_result: "wager_ok iso4217 t \<Longrightarrow> wt_result t = Some b \<Longrightarrow> parse_currency iso4217 (money_currency b)"
  by (auto simp: wager_ok_def status_ok_def terminal_result_ok_def split: status.splits)

lemma money_eta [simp]: "\<lparr>money_minor = money_minor m, money_currency = money_currency m\<rparr> = m"
  by simp

lemma wager_eta:
  "wt_money t = m \<Longrightarrow> wt_result t = b \<Longrightarrow>
   \<lparr>wt_id = wt_id t, wt_provider = wt_provider t, wt_external = wt_external t, wt_key = wt_key t,
     wt_hash = wt_hash t, wt_wallet = wt_wallet t, wt_player = wt_player t, wt_round = wt_round t,
     wt_game = wt_game t, wt_kind = wt_kind t, wt_money = m,
     wt_ref_external = wt_ref_external t, wt_ref_id = wt_ref_id t, wt_status = wt_status t,
     wt_failure = wt_failure t, wt_result = b, wt_attempts = wt_attempts t,
     wt_next = wt_next t, wt_created = wt_created t, wt_updated = wt_updated t\<rparr> = t"
  by (cases t) simp

lemma scan_txn_row: "wager_ok iso4217 t \<Longrightarrow> scan_transaction iso4217 (txn_row_of t) = Inr t"
proof -
  assume ok: "wager_ok iso4217 t"
  then have cur: "parse_currency iso4217 (money_currency (wt_money t))" by (simp add: wager_ok_def)
  show ?thesis
  proof (cases "wt_result t")
    case None
    then show ?thesis
      using ok cur unfolding scan_transaction_def
      by (simp add: new_money_from_minor_def txn_row_of_def wager_eta rehydrate_wager_ok)
  next
    case (Some b)
    then show ?thesis
      using ok cur wager_ok_result [OF ok Some] unfolding scan_transaction_def
      by (simp add: new_money_from_minor_def txn_row_of_def wager_eta rehydrate_wager_ok)
  qed
qed

lemma txn_row_inject: "txn_row_of t = txn_row_of u \<Longrightarrow> wager_ok iso4217 t \<Longrightarrow> wager_ok iso4217 u \<Longrightarrow> t = u"
  by (metis scan_txn_row sum.inject(2))

lemma change_txn_row_of:
  "wager_identity t = wager_identity u \<Longrightarrow> change_txn_row t (txn_row_of u) = txn_row_of t"
  by (simp add: change_txn_row_def txn_row_of_def wager_identity_def)

section \<open>Updates of a table\<close>

lemma map_update_where [simp]:
  "(\<And>r. p r \<Longrightarrow> g (f r) = g r) \<Longrightarrow> map g (update_where p f rs) = map g rs"
  by (auto simp: update_where_def)

lemma set_update_where: "set (update_where p f rs) = {f r | r. r \<in> set rs \<and> p r} \<union> {r \<in> set rs. \<not> p r}"
  by (auto simp: update_where_def)

lemma update_where_cong:
  "(\<And>r. r \<in> set rs \<Longrightarrow> p r = q r) \<Longrightarrow> (\<And>r. r \<in> set rs \<Longrightarrow> q r \<Longrightarrow> f r = g r) \<Longrightarrow>
   update_where p f rs = update_where q g rs"
  by (auto simp: update_where_def)

lemma update_where_none: "(\<And>r. r \<in> set rs \<Longrightarrow> \<not> p r) \<Longrightarrow> update_where p f rs = rs"
  by (induction rs) (auto simp: update_where_def)

lemma distinct_key_unique:
  "distinct (map k rs) \<Longrightarrow> q \<in> set rs \<Longrightarrow> r \<in> set rs \<Longrightarrow> k q = k r \<Longrightarrow> q = r"
  by (auto simp: distinct_map dest: inj_onD)

lemma find_someD: "find p rs = Some r \<Longrightarrow> r \<in> set rs \<and> p r"
  by (auto simp: find_Some_iff)

lemma find_key_some:
  "distinct (map k rs) \<Longrightarrow> r \<in> set rs \<Longrightarrow> find (\<lambda>q. k q = k r) rs = Some r"
  by (induction rs) (auto simp: image_iff)

lemma find_unique:
  "(\<And>q. q \<in> set rs \<Longrightarrow> p q \<longleftrightarrow> q = r) \<Longrightarrow> r \<in> set rs \<Longrightarrow> find p rs = Some r"
  by (induction rs) auto

lemma find_update_where:
  assumes "\<And>r. q r \<Longrightarrow> p (f r) = p r"
  shows "find p (update_where q f rs) = map_option (\<lambda>r. if q r then f r else r) (find p rs)"
proof (induction rs)
  case Nil
  then show ?case by (simp add: update_where_def)
next
  case (Cons r rs)
  then show ?case using assms [of r] by (cases "q r"; cases "p r") (simp_all add: update_where_def)
qed

section \<open>The keys of wager_transactions\<close>

lemma txn_clash_symI: "txn_clash q r \<Longrightarrow> txn_clash r q"
  unfolding txn_clash_def by (elim disjE conjE) simp_all

lemma txn_clash_sym: "txn_clash q r = txn_clash r q"
  by (blast intro: txn_clash_symI)

definition keys_ok :: "txn_row list \<Rightarrow> bool" where
  "keys_ok rs \<longleftrightarrow> sorted_wrt (\<lambda>q r. \<not> txn_clash q r) rs"

lemma keys_ok_snoc: "keys_ok (rs @ [r]) \<longleftrightarrow> keys_ok rs \<and> txn_unique rs r"
  by (auto simp: keys_ok_def sorted_wrt_append txn_unique_def list_all_iff)

lemma keys_ok_distinct: "keys_ok rs \<Longrightarrow> distinct (map tr_id rs)"
  by (induction rs) (auto simp: keys_ok_def txn_clash_def)

lemma keys_ok_clash:
  "keys_ok rs \<Longrightarrow> q \<in> set rs \<Longrightarrow> r \<in> set rs \<Longrightarrow> txn_clash q r \<Longrightarrow> q = r"
proof (induction rs)
  case Nil
  then show ?case by simp
next
  case (Cons x xs)
  then show ?case
    using txn_clash_sym [of q r] by (auto simp: keys_ok_def)
qed

lemma keys_ok_replace:
  assumes "keys_ok rs" and "txn_unique (filter (\<lambda>q. tr_id q \<noteq> tr_id r) rs) r"
  shows "keys_ok (update_where (\<lambda>q. tr_id q = tr_id r) (\<lambda>_. r) rs)"
  using assms
proof (induction rs)
  case Nil
  then show ?case by (simp add: keys_ok_def update_where_def)
next
  case (Cons x xs)
  have d: "distinct (map tr_id (x # xs))"
    using Cons.prems(1) by (rule keys_ok_distinct)
  have xs: "keys_ok xs" "\<And>y. y \<in> set xs \<Longrightarrow> \<not> txn_clash x y"
    using Cons.prems(1) by (auto simp: keys_ok_def)
  show ?case
  proof (cases "tr_id x = tr_id r")
    case True
    with d have "y \<in> set xs \<Longrightarrow> tr_id y \<noteq> tr_id r" for y
      by (metis distinct.simps(2) image_eqI list.set_map list.simps(9))
    then have same: "update_where (\<lambda>q. tr_id q = tr_id r) (\<lambda>_. r) xs = xs"
      by (intro update_where_none) auto
    have "\<not> txn_clash r y" if "y \<in> set xs" for y
      using Cons.prems(2) that \<open>\<And>y. y \<in> set xs \<Longrightarrow> tr_id y \<noteq> tr_id r\<close> txn_clash_sym [of y r]
      by (auto simp: txn_unique_def list_all_iff)
    with True xs same show ?thesis
      by (simp add: update_where_def keys_ok_def)
  next
    case False
    have IH: "keys_ok (update_where (\<lambda>q. tr_id q = tr_id r) (\<lambda>_. r) xs)"
      using Cons.IH xs(1) Cons.prems(2) by (simp add: txn_unique_def list_all_iff)
    moreover have "\<not> txn_clash x r"
      using Cons.prems(2) False by (auto simp: txn_unique_def)
    ultimately show ?thesis
      using False xs(2) by (auto simp: update_where_def keys_ok_def split: if_splits)
  qed
qed

section \<open>What a successful statement did\<close>

lemma txn_guards_ok:
  "txn_guards d others r = Inr u \<longleftrightarrow>
     wager_identity_guard d r \<and> txn_checks r \<and> txn_unique others r \<and> txn_foreign_keys d r"
  by (auto simp: txn_guards_def)

lemma insert_txn_rowD:
  "insert_txn_row r s = Inr (u, s') \<Longrightarrow>
     txn_guards (s_db s) (txns (s_db s)) r = Inr () \<and>
     s_db s' = s_db s\<lparr>txns := txns (s_db s) @ [r]\<rparr>"
  by (auto simp: insert_txn_row_def dest!: execD split: sum.splits)

lemma update_transactionD:
  "update_transaction t s = Inr (u, s') \<Longrightarrow>
     \<exists>r. find_txn (wt_id t) (s_db s) = Some r \<and>
       txn_guards (s_db s) (filter (\<lambda>q. tr_id q \<noteq> wt_id t) (txns (s_db s))) (change_txn_row t r) = Inr () \<and>
       s_db s' = s_db s\<lparr>txns := update_where (\<lambda>q. tr_id q = wt_id t) (change_txn_row t) (txns (s_db s))\<rparr>"
  by (auto simp: update_transaction_def dest!: execD split: sum.splits option.splits)

lemma update_walletD:
  "update_wallet w s = Inr (u, s') \<Longrightarrow>
     s_db s' = s_db s\<lparr>wallets := update_where
       (\<lambda>r. wr_id r = wallet_id w \<and> sint (wr_version r) = sint (wallet_version w) - 1)
       (\<lambda>r. r\<lparr>wr_balance := money_minor (wallet_balance w), wr_version := wallet_version w,
               wr_updated := wallet_updated w\<rparr>) (wallets (s_db s))\<rparr> \<and>
     wallet_version w \<noteq> min_int64 \<and>
     count_where (\<lambda>r. wr_id r = wallet_id w \<and> sint (wr_version r) = sint (wallet_version w) - 1)
       (wallets (s_db s)) = 1 \<and>
     (\<forall>r \<in> set (wallets (s_db s)).
        wr_id r = wallet_id w \<and> sint (wr_version r) = sint (wallet_version w) - 1 \<longrightarrow>
        wallet_checks (r\<lparr>wr_balance := money_minor (wallet_balance w),
          wr_version := wallet_version w, wr_updated := wallet_updated w\<rparr>))"
  by (auto simp: update_wallet_def Let_def list_ex_iff dest!: execD split: if_splits)

lemma insert_walletD:
  "insert_wallet w s = Inr (u, s') \<Longrightarrow>
     wallet_checks (wallet_row_of w) \<and> wallet_unique (wallets (s_db s)) (wallet_row_of w) \<and>
     s_db s' = s_db s\<lparr>wallets := wallets (s_db s) @ [wallet_row_of w]\<rparr>"
  by (auto simp: insert_wallet_def Let_def dest!: execD split: if_splits)

lemma insert_ledgerD:
  "insert_ledger e s = Inr (u, s') \<Longrightarrow>
     ledger_guard (s_db s) (ledger_row_of e) \<and> ledger_checks (ledger_row_of e) \<and>
     ledger_unique (ledger (s_db s)) (ledger_row_of e) \<and>
     ledger_foreign_keys (s_db s) (ledger_row_of e) \<and>
     s_db s' = s_db s\<lparr>ledger := ledger (s_db s) @ [ledger_row_of e]\<rparr>"
  by (auto simp: insert_ledger_def Let_def dest!: execD split: if_splits)

definition event_fresh :: "db \<Rightarrow> outbox_event \<Rightarrow> bool" where
  "event_fresh d ev \<longleftrightarrow> list_all (\<lambda>r. oe_id (or_event r) \<noteq> oe_id ev) (outbox d)"

lemma insert_outboxD:
  "insert_outbox ev s = Inr (u, s') \<Longrightarrow>
     event_fresh (s_db s) ev \<and> s_db s' = s_db s\<lparr>outbox := outbox (s_db s) @ [outbox_row_of ev]\<rparr>"
  by (auto simp: insert_outbox_def event_fresh_def list_all_iff list_ex_iff dest!: execD split: if_splits)

lemma emitD:
  "emit ty ag co ca now dat s = Inr (u, s') \<Longrightarrow>
     \<exists>eid. event_fresh (s_db s) (new_event eid ty ag co ca now dat) \<and>
       s_db s' = s_db s\<lparr>outbox := outbox (s_db s) @ [outbox_row_of (new_event eid ty ag co ca now dat)]\<rparr>"
  by (auto simp: emit_def tx_bind_ok new_uuid_def dest!: insert_outboxD)

lemma lock_walletD:
  "lock_wallet iso4217 wid s = Inr (w, s') \<Longrightarrow>
     s_db s' = s_db s \<and> wallet_row_of w \<in> set (wallets (s_db s)) \<and> wallet_id w = wid \<and>
     wallet_ok iso4217 w"
  by (auto simp: lock_wallet_def find_wallet_def scan_wallet_ok dest!: selectD find_someD
      split: option.splits)

lemma find_by_external_idD:
  "find_by_external_id iso4217 p x s = Inr (v, s') \<Longrightarrow>
     s_db s' = s_db s \<and> scan_optional iso4217 (find_by_external p x (s_db s)) = Inr v"
  by (auto simp: find_by_external_id_def dest!: selectD)

lemma find_by_idempotencyD:
  "find_by_idempotency iso4217 p k s = Inr (v, s') \<Longrightarrow>
     s_db s' = s_db s \<and> scan_optional iso4217 (find_by_key p k (s_db s)) = Inr v"
  by (auto simp: find_by_idempotency_def dest!: selectD)

lemma lock_transactionD:
  "lock_transaction iso4217 tid s = Inr (t, s') \<Longrightarrow>
     s_db s' = s_db s \<and> (\<exists>r. find_txn tid (s_db s) = Some r \<and> scan_transaction iso4217 r = Inr t)"
  by (auto simp: lock_transaction_def dest!: selectD split: option.splits)

lemma successful_reversalD:
  "successful_reversal_exists x s = Inr (b, s') \<Longrightarrow>
     s_db s' = s_db s \<and>
     b = list_ex (\<lambda>r. tr_ref_id r = Some x \<and> successful_reversal r) (txns (s_db s))"
  by (auto simp: successful_reversal_exists_def dest!: selectD)

text \<open>Only the inbox may differ.\<close>

definition inbox_only :: "db \<Rightarrow> db \<Rightarrow> bool" where
  "inbox_only d d' \<longleftrightarrow> d' = d\<lparr>inbox := inbox d'\<rparr>"

lemma inbox_only_refl [simp]: "inbox_only d d"
  by (simp add: inbox_only_def)

lemma inbox_only_update [simp]: "inbox_only d (d\<lparr>inbox := ib\<rparr>)"
  by (simp add: inbox_only_def)

lemma claim_inboxD: "claim_inbox i now s = Inr (x, s') \<Longrightarrow> inbox_only (s_db s) (s_db s')"
  by (auto simp: claim_inbox_def tx_bind_ok dest!: selectD execD split: if_splits)
   (metis inbox_only_refl inbox_only_update)+

lemma complete_inboxD: "complete_inbox i now s = Inr (u, s') \<Longrightarrow> inbox_only (s_db s) (s_db s')"
  by (auto simp: complete_inbox_def Let_def dest!: execD split: if_splits)
   (metis inbox_only_refl inbox_only_update)+

lemma complete_inbox_ifD:
  "complete_inbox_if x now s = Inr (u, s') \<Longrightarrow> inbox_only (s_db s) (s_db s')"
  by (auto simp: complete_inbox_if_def dest: complete_inboxD split: option.splits)

lemma acquire_lockD: "acquire_idempotency_lock p k s = Inr (u, s') \<Longrightarrow> s_db s' = s_db s"
  by (auto simp: acquire_idempotency_lock_def dest!: execD)

lemmas statement_dests = insert_txn_rowD update_transactionD update_walletD insert_walletD
  insert_ledgerD insert_outboxD emitD lock_walletD find_by_external_idD find_by_idempotencyD
  lock_transactionD successful_reversalD complete_inbox_ifD acquire_lockD new_uuidD

end
