(* ===== verification/Accounting.thy ===== *)
theory Accounting
  imports StoreLaws "HOL-Library.Sublist"
begin

text \<open>
  What a committed call may do to the tables, as a step relation, and the accounting
  invariant every step keeps: each wallet is the replay of its ledger, each transaction
  that moved money has exactly one ledger entry and announced its outcome exactly once, a
  reversal fits the transaction it reverses. The services are proved to make only such
  steps.
\<close>

section \<open>What rows promise each other\<close>

text \<open>A processed transaction other than a \<open>LOSS\<close> moves money.\<close>

definition moved :: "txn_row \<Rightarrow> bool" where
  "moved r \<longleftrightarrow> tr_status r = StatusProcessed \<and> tr_kind r \<noteq> KindLoss"

definition external_row :: "(string \<Rightarrow> bool) \<Rightarrow> txn_row \<Rightarrow> bool" where
  "external_row iso4217 r \<longleftrightarrow> (\<exists>t. r = txn_row_of t \<and> wager_inv iso4217 t)"

definition opening_ok :: "txn_row \<Rightarrow> bool" where
  "opening_ok r \<longleftrightarrow>
     tr_origin r = Internal \<and> tr_kind r = KindOpening \<and> tr_status r = StatusProcessed \<and>
     tr_provider r = None \<and> tr_ref_id r = None"

text \<open>What a processed transaction \<open>r\<close> and the transaction \<open>q\<close> it refers to share.\<close>

definition reference_fits :: "txn_row \<Rightarrow> txn_row \<Rightarrow> bool" where
  "reference_fits r q \<longleftrightarrow>
     tr_status q = StatusProcessed \<and> tr_provider q = tr_provider r \<and>
     tr_external q = tr_ref_external r \<and> tr_player q = tr_player r \<and>
     tr_wallet q = tr_wallet r \<and> tr_round q = tr_round r \<and> tr_currency q = tr_currency r \<and>
     (reversal_kind (tr_kind r) \<longrightarrow> tr_money q = tr_money r) \<and>
     (tr_kind r = KindWin \<or> tr_kind r = KindRefund \<longrightarrow> tr_kind q = KindBet) \<and>
     (tr_kind r = KindRollback \<longrightarrow>
        tr_kind q = KindBet \<or> tr_kind q = KindWin \<or> tr_kind q = KindRefund)"

definition reference_settled :: "txn_row list \<Rightarrow> txn_row \<Rightarrow> bool" where
  "reference_settled rs r \<longleftrightarrow>
     (tr_status r = StatusProcessed \<longrightarrow>
        (\<forall>x. tr_ref_id r = Some x \<longrightarrow> (\<exists>q \<in> set rs. tr_id q = x \<and> reference_fits r q)) \<and>
        (reversal_kind (tr_kind r) \<longrightarrow> tr_ref_id r \<noteq> None))"

text \<open>The balance after a sequence of entries, each continuing the one before it.\<close>

fun replay :: "int \<Rightarrow> ledger_row list \<Rightarrow> int option" where
  "replay b [] = Some b"
| "replay b (l # ls) =
     (if sint (lr_before l) = b \<and> 0 \<le> sint (lr_after l) \<and>
         sint (lr_after l) = b + signed_amount (lr_direction l) (sint (lr_money l))
      then replay (sint (lr_after l)) ls else None)"

definition book :: "string \<Rightarrow> ledger_row list \<Rightarrow> ledger_row list" where
  "book wid ls = filter (\<lambda>l. lr_wallet l = wid) ls"

section \<open>What events say\<close>

definition status_event :: "status \<Rightarrow> event_type option" where
  "status_event s =
     (case s of
        StatusProcessed \<Rightarrow> Some EventWagerTransactionProcessed
      | StatusRejected \<Rightarrow> Some EventWagerTransactionRejected
      | StatusFailed \<Rightarrow> Some EventWagerTransactionFailed
      | StatusPendingReference \<Rightarrow> Some EventWagerTransactionPendingReference
      | _ \<Rightarrow> None)"

definition outcome_event :: "event_type \<Rightarrow> bool" where
  "outcome_event ty \<longleftrightarrow>
     ty = EventWagerTransactionProcessed \<or> ty = EventWagerTransactionRejected \<or>
     ty = EventWagerTransactionFailed"

type_synonym change =
  "string \<times> string \<times> direction \<times> money_view \<times> money_view \<times> money_view"

definition event_change :: "outbox_event \<Rightarrow> change option" where
  "event_change ev =
     (case env_data (oe_payload ev) of
        BalanceChangedData c \<Rightarrow>
          Some (cd_wallet c, cd_transaction c, cd_direction c, cd_money c, cd_before c, cd_after c)
      | _ \<Rightarrow> None)"

definition ledger_change :: "ledger_row \<Rightarrow> change" where
  "ledger_change l =
     (let view = (\<lambda>m. view_money \<lparr>money_minor = m, money_currency = lr_currency l\<rparr>)
      in (lr_wallet l, lr_transaction l, lr_direction l, view (lr_money l), view (lr_before l),
          view (lr_after l)))"

definition announces :: "outbox_event \<Rightarrow> string \<Rightarrow> status \<Rightarrow> bool" where
  "announces ev tid s \<longleftrightarrow>
     oe_aggregate ev = tid \<and> status_event s = Some (oe_type ev) \<and> event_change ev = None"

definition mirrors :: "outbox_event \<Rightarrow> ledger_row \<Rightarrow> bool" where
  "mirrors ev l \<longleftrightarrow>
     oe_type ev = EventWalletBalanceChanged \<and> oe_aggregate ev = lr_wallet l \<and>
     event_change ev = Some (ledger_change l)"

text \<open>The outcome events of a transaction, and the balance changes, in the order stored.\<close>

definition outcomes :: "string \<Rightarrow> outbox_event list \<Rightarrow> nat" where
  "outcomes tid evs = count_where (\<lambda>ev. oe_aggregate ev = tid \<and> outcome_event (oe_type ev)) evs"

definition changes :: "outbox_event list \<Rightarrow> change list" where
  "changes evs = List.map_filter event_change evs"

definition events :: "db \<Rightarrow> outbox_event list" where
  "events d = map or_event (outbox d)"

section \<open>The invariant\<close>

definition wallets_inv :: "(string \<Rightarrow> bool) \<Rightarrow> db \<Rightarrow> bool" where
  "wallets_inv iso4217 d \<longleftrightarrow>
     distinct (map wr_id (wallets d)) \<and>
     distinct (map (\<lambda>r. (wr_player r, wr_currency r)) (wallets d)) \<and>
     (\<forall>r \<in> set (wallets d). \<exists>w. r = wallet_row_of w \<and> wallet_ok iso4217 w)"

definition txns_inv :: "(string \<Rightarrow> bool) \<Rightarrow> db \<Rightarrow> bool" where
  "txns_inv iso4217 d \<longleftrightarrow>
     keys_ok (txns d) \<and>
     (\<forall>r \<in> set (txns d). (external_row iso4217 r \<or> opening_ok r) \<and>
        wager_identity_guard d r \<and> txn_foreign_keys d r \<and> reference_settled (txns d) r)"

definition ledger_inv :: "db \<Rightarrow> bool" where
  "ledger_inv d \<longleftrightarrow>
     distinct (map lr_transaction (ledger d)) \<and>
     (\<forall>l \<in> set (ledger d). ledger_guard d l \<and> ledger_checks l \<and> ledger_foreign_keys d l) \<and>
     (\<forall>r \<in> set (txns d). moved r \<longrightarrow> (\<exists>l \<in> set (ledger d). lr_transaction l = tr_id r))"

definition balance_inv :: "db \<Rightarrow> bool" where
  "balance_inv d \<longleftrightarrow>
     (\<forall>r \<in> set (wallets d). replay 0 (book (wr_id r) (ledger d)) = Some (sint (wr_balance r)))"

definition outbox_inv :: "db \<Rightarrow> bool" where
  "outbox_inv d \<longleftrightarrow>
     distinct (map oe_id (events d)) \<and>
     changes (events d) = map ledger_change (ledger d) \<and>
     (\<forall>tid. outcomes tid (events d) =
        (if \<exists>r \<in> set (txns d). tr_id r = tid \<and> terminal_status (tr_status r) then 1 else 0))"

definition db_inv :: "(string \<Rightarrow> bool) \<Rightarrow> db \<Rightarrow> bool" where
  "db_inv iso4217 d \<longleftrightarrow>
     wallets_inv iso4217 d \<and> txns_inv iso4217 d \<and> ledger_inv d \<and> balance_inv d \<and> outbox_inv d"

section \<open>The steps\<close>

definition amends :: "(string \<Rightarrow> bool) \<Rightarrow> db \<Rightarrow> wager \<Rightarrow> wager \<Rightarrow> bool" where
  "amends iso4217 d t0 t \<longleftrightarrow>
     txn_row_of t0 \<in> set (txns d) \<and> wager_inv iso4217 t0 \<and>
     wt_status t0 = StatusPendingReference \<and> (wager_step iso4217)\<^sup>*\<^sup>* t0 t"

definition put_txn :: "wager \<Rightarrow> txn_row list \<Rightarrow> txn_row list" where
  "put_txn t rs = update_where (\<lambda>q. tr_id q = wt_id t) (\<lambda>_. txn_row_of t) rs"

definition put_wallet :: "wallet \<Rightarrow> wallet_row list \<Rightarrow> wallet_row list" where
  "put_wallet w rs = update_where (\<lambda>q. wr_id q = wallet_id w) (\<lambda>_. wallet_row_of w) rs"

text \<open>
  The row of \<open>t\<close> is written: as a new row, or over a transaction that waits for its
  reference and from which the methods of the aggregate lead to \<open>t\<close>.
\<close>

definition written :: "(string \<Rightarrow> bool) \<Rightarrow> db \<Rightarrow> wager \<Rightarrow> txn_row list \<Rightarrow> bool" where
  "written iso4217 d t rs \<longleftrightarrow>
     wager_inv iso4217 t \<and> txn_checks (txn_row_of t) \<and>
     wager_identity_guard d (txn_row_of t) \<and> txn_foreign_keys d (txn_row_of t) \<and>
     (txn_unique (txns d) (txn_row_of t) \<and> rs = txns d @ [txn_row_of t] \<or>
      (\<exists>t0. amends iso4217 d t0 t) \<and>
        txn_unique (filter (\<lambda>q. tr_id q \<noteq> wt_id t) (txns d)) (txn_row_of t) \<and>
        rs = put_txn t (txns d))"

definition relayed :: "outbox_row \<Rightarrow> outbox_row \<Rightarrow> bool" where
  "relayed q r \<longleftrightarrow>
     or_event r = or_event q \<and> or_attempts q \<le> or_attempts r \<and>
     (or_published q \<noteq> None \<longrightarrow> or_published r = or_published q)"

inductive db_step :: "(string \<Rightarrow> bool) \<Rightarrow> db \<Rightarrow> db \<Rightarrow> bool" for iso4217 where
  inbox: "inbox_only d d' \<Longrightarrow> db_step iso4217 d d'"
| defer_txn: "written iso4217 d t rs \<Longrightarrow> wt_status t = StatusPendingReference \<Longrightarrow>
    db_step iso4217 d (d\<lparr>txns := rs\<rparr>)"
| record_txn: "written iso4217 d t rs \<Longrightarrow> wt_status t \<noteq> StatusProcessed \<or> wt_kind t = KindLoss \<Longrightarrow>
    announces ev (wt_id t) (wt_status t) \<Longrightarrow> event_fresh d ev \<Longrightarrow>
    db_step iso4217 d (d\<lparr>txns := rs, outbox := outbox d @ [outbox_row_of ev]\<rparr>)"
| settle: "written iso4217 d t rs \<Longrightarrow> wt_status t = StatusProcessed \<Longrightarrow> wt_result t = Some after \<Longrightarrow>
    reference_settled (txns d) (txn_row_of t) \<Longrightarrow>
    wallet_row_of w \<in> set (wallets d) \<Longrightarrow> wallet_id w = wt_wallet t \<Longrightarrow>
    wallet_ok iso4217 (wallet_apply w after now) \<Longrightarrow> wallet_version w \<noteq> max_int64 \<Longrightarrow>
    new_ledger_entry iso4217 lid (wallet_id w) (wt_id t) dir (wt_money t) (wallet_balance w)
      after now = Inr e \<Longrightarrow>
    ledger_guard (d\<lparr>txns := rs\<rparr>) (ledger_row_of e) \<Longrightarrow> ledger_checks (ledger_row_of e) \<Longrightarrow>
    announces ev (wt_id t) (wt_status t) \<Longrightarrow> event_fresh d ev \<Longrightarrow>
    mirrors ev' (ledger_row_of e) \<Longrightarrow> event_fresh d ev' \<Longrightarrow> oe_id ev \<noteq> oe_id ev' \<Longrightarrow>
    db_step iso4217 d
      (d\<lparr>txns := rs, wallets := put_wallet (wallet_apply w after now) (wallets d),
         ledger := ledger d @ [ledger_row_of e],
         outbox := outbox d @ [outbox_row_of ev, outbox_row_of ev']\<rparr>)"
| open_empty: "wallet_ok iso4217 w \<Longrightarrow> is_zero (wallet_balance w) \<Longrightarrow>
    wallet_unique (wallets d) (wallet_row_of w) \<Longrightarrow>
    db_step iso4217 d (d\<lparr>wallets := wallets d @ [wallet_row_of w]\<rparr>)"
| open_funded: "wallet_ok iso4217 w \<Longrightarrow> wallet_unique (wallets d) (wallet_row_of w) \<Longrightarrow>
    zero_money iso4217 (money_currency (wallet_balance w)) = Inr zero \<Longrightarrow>
    r = opening_row tid w (wallet_balance w) now \<Longrightarrow> txn_unique (txns d) r \<Longrightarrow>
    new_ledger_entry iso4217 lid (wallet_id w) tid DirectionCredit (wallet_balance w) zero
      (wallet_balance w) now = Inr e \<Longrightarrow>
    ledger_checks (ledger_row_of e) \<Longrightarrow>
    announces ev tid StatusProcessed \<Longrightarrow> event_fresh d ev \<Longrightarrow>
    mirrors ev' (ledger_row_of e) \<Longrightarrow> event_fresh d ev' \<Longrightarrow> oe_id ev \<noteq> oe_id ev' \<Longrightarrow>
    db_step iso4217 d
      (d\<lparr>wallets := wallets d @ [wallet_row_of w], txns := txns d @ [r],
         ledger := ledger d @ [ledger_row_of e],
         outbox := outbox d @ [outbox_row_of ev, outbox_row_of ev']\<rparr>)"

text \<open>Such a step, or a change of the delivery state of the stored events.\<close>

inductive any_step :: "(string \<Rightarrow> bool) \<Rightarrow> db \<Rightarrow> db \<Rightarrow> bool" for iso4217 where
  use_case: "db_step iso4217 d d' \<Longrightarrow> any_step iso4217 d d'"
| relay: "list_all2 relayed (outbox d) ob \<Longrightarrow> any_step iso4217 d (d\<lparr>outbox := ob\<rparr>)"

section \<open>What no step undoes\<close>

definition row_below :: "txn_row \<Rightarrow> txn_row \<Rightarrow> bool" where
  "row_below q r \<longleftrightarrow>
     (tr_id r, tr_origin r, tr_provider r, tr_external r, tr_key r, tr_hash r) =
       (tr_id q, tr_origin q, tr_provider q, tr_external q, tr_key q, tr_hash q) \<and>
     (tr_wallet r, tr_player r, tr_round r, tr_game r, tr_kind r, tr_money r, tr_currency r) =
       (tr_wallet q, tr_player q, tr_round q, tr_game q, tr_kind q, tr_money q, tr_currency q) \<and>
     tr_ref_external r = tr_ref_external q \<and> tr_attempts q \<le> tr_attempts r \<and>
     (terminal_status (tr_status q) \<longrightarrow> r = q)"

definition wallet_below :: "wallet_row \<Rightarrow> wallet_row \<Rightarrow> bool" where
  "wallet_below q r \<longleftrightarrow>
     wr_id r = wr_id q \<and> wr_player r = wr_player q \<and> wr_currency r = wr_currency q \<and>
     wr_created r = wr_created q \<and> sint (wr_version q) \<le> sint (wr_version r)"

definition all_below :: "('r \<Rightarrow> 'r \<Rightarrow> bool) \<Rightarrow> 'r list \<Rightarrow> 'r list \<Rightarrow> bool" where
  "all_below le rs rs' \<longleftrightarrow> (\<forall>q \<in> set rs. \<exists>r \<in> set rs'. le q r)"

text \<open>
  Rows never disappear, terminal transactions are final, identities and versions only grow
  older, the ledger and the events are appended to, and an event once published stays so.
\<close>

definition outbox_below :: "outbox_row list \<Rightarrow> outbox_row list \<Rightarrow> bool" where
  "outbox_below os os' \<longleftrightarrow> (\<exists>xs ys. os' = xs @ ys \<and> list_all2 relayed os xs)"

definition db_below :: "db \<Rightarrow> db \<Rightarrow> bool" where
  "db_below d d' \<longleftrightarrow>
     all_below row_below (txns d) (txns d') \<and> all_below wallet_below (wallets d) (wallets d') \<and>
     prefix (ledger d) (ledger d') \<and> outbox_below (outbox d) (outbox d')"

lemma row_below_refl [simp]: "row_below q q"
  by (simp add: row_below_def)

lemma row_below_trans: "row_below p q \<Longrightarrow> row_below q r \<Longrightarrow> row_below p r"
  by (auto simp: row_below_def)

lemma wallet_below_refl [simp]: "wallet_below q q"
  by (simp add: wallet_below_def)

lemma wallet_below_trans: "wallet_below p q \<Longrightarrow> wallet_below q r \<Longrightarrow> wallet_below p r"
  by (auto simp: wallet_below_def)

lemma relayed_refl [simp]: "relayed q q"
  by (simp add: relayed_def)

lemma relayed_trans: "relayed p q \<Longrightarrow> relayed q r \<Longrightarrow> relayed p r"
  unfolding relayed_def by fastforce

lemma all_below_refl: "(\<And>q. le q q) \<Longrightarrow> all_below le rs rs"
  by (auto simp: all_below_def)

lemma all_below_trans:
  "(\<And>p q r. le p q \<Longrightarrow> le q r \<Longrightarrow> le p r) \<Longrightarrow> all_below le rs ss \<Longrightarrow> all_below le ss ts \<Longrightarrow>
   all_below le rs ts"
  unfolding all_below_def by meson

lemma all_below_append [simp]: "(\<And>q. le q q) \<Longrightarrow> all_below le rs (rs @ ss)"
  by (auto simp: all_below_def)

lemma outbox_below_refl [simp]: "outbox_below os os"
proof -
  have "list_all2 relayed os os" by (simp add: list_all2_same)
  then show ?thesis unfolding outbox_below_def by (metis append_Nil2)
qed

lemma outbox_below_append [simp]: "outbox_below os (os @ ps)"
proof -
  have "list_all2 relayed os os" by (simp add: list_all2_same)
  then show ?thesis unfolding outbox_below_def by blast
qed

lemma outbox_below_relay: "list_all2 relayed os os' \<Longrightarrow> outbox_below os os'"
  unfolding outbox_below_def by (metis append_Nil2)

lemma outbox_below_trans: "outbox_below os ps \<Longrightarrow> outbox_below ps qs \<Longrightarrow> outbox_below os qs"
proof -
  assume "outbox_below os ps" "outbox_below ps qs"
  then obtain xs ys zs ws where ps: "ps = xs @ ys" "list_all2 relayed os xs"
    and qs: "qs = zs @ ws" "list_all2 relayed ps zs"
    unfolding outbox_below_def by blast
  from qs(2) ps(1) obtain us vs where zs: "zs = us @ vs" "list_all2 relayed xs us"
    by (auto simp: list_all2_append1)
  have "list_all2 relayed os us"
    by (rule list_all2_trans [OF _ ps(2) zs(2)]) (rule relayed_trans)
  with qs(1) zs(1) show ?thesis unfolding outbox_below_def by (metis append.assoc)
qed

lemma db_below_refl [simp]: "db_below d d"
  by (simp add: db_below_def all_below_refl)

lemma db_below_trans: "db_below d e \<Longrightarrow> db_below e f \<Longrightarrow> db_below d f"
  unfolding db_below_def
  by (meson all_below_trans row_below_trans wallet_below_trans prefix_order.trans outbox_below_trans)

section \<open>Reading the tables\<close>

lemma find_txn_iff:
  assumes "keys_ok (txns d)"
  shows "find_txn x d = Some r \<longleftrightarrow> r \<in> set (txns d) \<and> tr_id r = x"
proof
  assume "find_txn x d = Some r"
  then show "r \<in> set (txns d) \<and> tr_id r = x"
    using find_someD [of "\<lambda>r. tr_id r = x"] by (simp add: find_txn_def)
next
  assume "r \<in> set (txns d) \<and> tr_id r = x"
  then show "find_txn x d = Some r"
    using find_key_some [OF keys_ok_distinct [OF assms], of r] by (auto simp: find_txn_def)
qed

lemma find_txn_below:
  assumes k: "keys_ok (txns d)" "keys_ok (txns d')" and b: "all_below row_below (txns d) (txns d')"
    and f: "find_txn x d = Some q"
  shows "\<exists>r. find_txn x d' = Some r \<and> row_below q r"
proof -
  from f k(1) have q: "q \<in> set (txns d)" "tr_id q = x" by (simp_all add: find_txn_iff)
  with b obtain r where r: "r \<in> set (txns d')" "row_below q r" by (auto simp: all_below_def)
  with q(2) have "tr_id r = x" by (simp add: row_below_def)
  with k(2) r show ?thesis by (auto simp: find_txn_iff)
qed

lemma expected_direction_below:
  assumes "keys_ok (txns d)" "keys_ok (txns d')" "all_below row_below (txns d) (txns d')"
    and "expected_direction d r = Some dir"
  shows "expected_direction d' r = Some dir"
proof (cases "tr_kind r = KindRollback")
  case False
  with assms(4) show ?thesis by (simp add: expected_direction_def split: kind.splits)
next
  case True
  with assms(4) obtain x q where x: "tr_ref_id r = Some x" "find_txn x d = Some q"
    by (auto simp: expected_direction_def split: option.splits)
  with assms obtain q' where "find_txn x d' = Some q'" "row_below q q'"
    by (blast dest: find_txn_below)
  with x True assms(4) show ?thesis by (simp add: expected_direction_def row_below_def)
qed

lemma ledger_guard_below:
  assumes k: "keys_ok (txns d)" "keys_ok (txns d')" "all_below row_below (txns d) (txns d')"
    and g: "ledger_guard d l"
  shows "ledger_guard d' l"
proof -
  from g obtain r where r: "find_txn (lr_transaction l) d = Some r"
    and st: "tr_status r = StatusProcessed"
    by (auto simp: ledger_guard_def split: option.splits)
  with k obtain r' where "find_txn (lr_transaction l) d' = Some r'" "row_below r r'"
    by (blast dest: find_txn_below)
  with st have "find_txn (lr_transaction l) d' = Some r"
    by (simp add: row_below_def terminal_status_def)
  with g r show ?thesis
    using expected_direction_below [OF k] by (simp add: ledger_guard_def)
qed

lemma list_ex_below:
  assumes "all_below le rs rs'" and "\<And>q r. le q r \<Longrightarrow> p q \<Longrightarrow> p r"
  shows "list_ex p rs \<Longrightarrow> list_ex p rs'"
proof -
  assume "list_ex p rs"
  then obtain q where "q \<in> set rs" "p q" by (auto simp: list_ex_iff)
  moreover from assms(1) this(1) obtain r where "r \<in> set rs'" "le q r"
    by (auto simp: all_below_def)
  ultimately show "list_ex p rs'" using assms(2) by (auto simp: list_ex_iff)
qed

lemma wallet_guards_below:
  assumes "all_below wallet_below (wallets d) (wallets d')"
  shows "wager_identity_guard d r \<Longrightarrow> wager_identity_guard d' r"
    and "ledger_foreign_keys d l \<Longrightarrow> ledger_foreign_keys d' l"
    and "list_ex (\<lambda>w. wr_id w = x) (wallets d) \<Longrightarrow> list_ex (\<lambda>w. wr_id w = x) (wallets d')"
proof -
  note ex = list_ex_below [OF assms]
  show "list_ex (\<lambda>w. wr_id w = x) (wallets d) \<Longrightarrow> list_ex (\<lambda>w. wr_id w = x) (wallets d')"
    by (rule ex) (auto simp: wallet_below_def)
  show "wager_identity_guard d r \<Longrightarrow> wager_identity_guard d' r"
    unfolding wager_identity_guard_def
    by (elim disjE) (simp, rule disjI2, erule ex [rotated], auto simp: wallet_below_def)
  show "ledger_foreign_keys d l \<Longrightarrow> ledger_foreign_keys d' l"
    unfolding ledger_foreign_keys_def by (rule ex) (auto simp: wallet_below_def)
qed

lemma txn_foreign_keys_below:
  assumes w: "all_below wallet_below (wallets d) (wallets d')"
    and t: "all_below row_below (txns d) (txns d')"
    and g: "txn_foreign_keys d r"
  shows "txn_foreign_keys d' r"
proof -
  have "list_ex (\<lambda>q. tr_id q = x) (txns d')" if "list_ex (\<lambda>q. tr_id q = x) (txns d)" for x
    using t _ that by (rule list_ex_below) (simp add: row_below_def)
  then show ?thesis
    using g wallet_guards_below(3) [OF w] unfolding txn_foreign_keys_def
    by (auto split: option.splits)
qed

lemma reference_settled_below:
  assumes "all_below row_below rs rs'" and "reference_settled rs r"
  shows "reference_settled rs' r"
proof -
  have "\<exists>q' \<in> set rs'. tr_id q' = x \<and> reference_fits r q'"
    if "q \<in> set rs" "tr_id q = x" "reference_fits r q" for q x
  proof -
    from assms(1) that(1) obtain q' where "q' \<in> set rs'" "row_below q q'"
      unfolding all_below_def by blast
    with that(2,3) have "q' = q" by (simp add: row_below_def reference_fits_def terminal_status_def)
    with \<open>q' \<in> set rs'\<close> that show ?thesis by blast
  qed
  with assms(2) show ?thesis unfolding reference_settled_def by blast
qed

section \<open>A written transaction\<close>

lemma amends_below:
  assumes "amends iso4217 d t0 t" shows "wager_identity t = wager_identity t0"
    and "wt_attempts t0 \<le> wt_attempts t"
  using assms wager_track.run_below [of iso4217 t0 t] by (auto simp: amends_def)

lemma amends_row_below:
  assumes "amends iso4217 d t0 t" shows "row_below (txn_row_of t0) (txn_row_of t)"
  using amends_below [OF assms] assms
  by (auto simp: amends_def row_below_def txn_row_of_def wager_identity_def terminal_status_def)

lemma amended_row:
  assumes k: "keys_ok (txns d)" and a: "amends iso4217 d t0 t"
    and q: "q \<in> set (txns d)" "tr_id q = wt_id t"
  shows "q = txn_row_of t0"
proof -
  have "tr_id (txn_row_of t0) = wt_id t"
    using amends_row_below [OF a] by (simp add: row_below_def)
  moreover have "txn_row_of t0 \<in> set (txns d)" using a by (simp add: amends_def)
  ultimately show ?thesis
    using distinct_key_unique [OF keys_ok_distinct [OF k]] q by metis
qed

lemma written_keys: "written iso4217 d t rs \<Longrightarrow> keys_ok (txns d) \<Longrightarrow> keys_ok rs"
  using keys_ok_replace [of "txns d" "txn_row_of t"]
  by (auto simp: written_def keys_ok_snoc put_txn_def)

lemma written_in: "written iso4217 d t rs \<Longrightarrow> keys_ok (txns d) \<Longrightarrow> txn_row_of t \<in> set rs"
proof -
  assume "written iso4217 d t rs" and k: "keys_ok (txns d)"
  then consider "rs = txns d @ [txn_row_of t]" | t0 where "amends iso4217 d t0 t" "rs = put_txn t (txns d)"
    by (auto simp: written_def)
  then show ?thesis
  proof cases
    case 2
    then have "txn_row_of t0 \<in> set (txns d)" "tr_id (txn_row_of t0) = wt_id t"
      using amends_row_below [OF 2(1)] by (auto simp: amends_def row_below_def)
    with 2(2) show ?thesis by (auto simp: put_txn_def set_update_where)
  qed simp
qed

lemma written_set:
  assumes "written iso4217 d t rs" and "q \<in> set rs"
  shows "q = txn_row_of t \<or> q \<in> set (txns d) \<and> tr_id q \<noteq> wt_id t"
proof (cases "rs = put_txn t (txns d)")
  case True
  with assms(2) show ?thesis by (auto simp: put_txn_def set_update_where)
next
  case False
  with assms show ?thesis
    by (auto simp: written_def txn_unique_def list_all_iff txn_clash_def)
qed

lemma written_below:
  assumes w: "written iso4217 d t rs" and k: "keys_ok (txns d)"
  shows "all_below row_below (txns d) rs"
proof -
  from w consider "rs = txns d @ [txn_row_of t]" | t0 where "amends iso4217 d t0 t" "rs = put_txn t (txns d)"
    by (auto simp: written_def)
  then show ?thesis
  proof cases
    case 1
    then show ?thesis by simp
  next
    case 2
    have "\<exists>r \<in> set rs. row_below q r" if q: "q \<in> set (txns d)" for q
    proof (cases "tr_id q = wt_id t")
      case True
      then have "q = txn_row_of t0" by (rule amended_row [OF k 2(1) q])
      with amends_row_below [OF 2(1)] written_in [OF w k] show ?thesis by blast
    next
      case False
      with 2(2) q have "q \<in> set rs" by (auto simp: put_txn_def set_update_where)
      then show ?thesis using row_below_refl by blast
    qed
    then show ?thesis by (simp add: all_below_def)
  qed
qed

text \<open>The transaction was not terminal before.\<close>

lemma written_open:
  assumes w: "written iso4217 d t rs" and k: "keys_ok (txns d)"
    and r: "r \<in> set (txns d)" "terminal_status (tr_status r)"
  shows "tr_id r \<noteq> wt_id t" and "r \<in> set rs"
proof -
  show neq: "tr_id r \<noteq> wt_id t"
  proof
    assume eq: "tr_id r = wt_id t"
    from w consider "txn_unique (txns d) (txn_row_of t)" | t0 where "amends iso4217 d t0 t"
      by (auto simp: written_def)
    then show False
    proof cases
      case 1
      with r(1) eq show ?thesis by (auto simp: txn_unique_def list_all_iff txn_clash_def)
    next
      case 2
      then have "r = txn_row_of t0" using amended_row [OF k 2 r(1) eq] by simp
      with 2 r(2) show ?thesis by (simp add: amends_def terminal_status_def)
    qed
  qed
  show "r \<in> set rs"
    using written_below [OF w k] r by (auto simp: all_below_def row_below_def)
qed

section \<open>Keeping the invariant, table by table\<close>

lemma txns_inv_step:
  assumes "txns_inv iso4217 d" and "keys_ok (txns d')"
    and w: "all_below wallet_below (wallets d) (wallets d')"
    and t: "all_below row_below (txns d) (txns d')"
    and new: "\<And>r. r \<in> set (txns d') \<Longrightarrow> r \<notin> set (txns d) \<Longrightarrow>
      (external_row iso4217 r \<or> opening_ok r) \<and> wager_identity_guard d' r \<and>
      txn_foreign_keys d' r \<and> reference_settled (txns d') r"
  shows "txns_inv iso4217 d'"
proof -
  have "(external_row iso4217 r \<or> opening_ok r) \<and> wager_identity_guard d' r \<and>
      txn_foreign_keys d' r \<and> reference_settled (txns d') r" if "r \<in> set (txns d')" for r
  proof (cases "r \<in> set (txns d)")
    case True
    with assms(1) have r: "external_row iso4217 r \<or> opening_ok r" "wager_identity_guard d r"
      "txn_foreign_keys d r" "reference_settled (txns d) r" by (auto simp: txns_inv_def)
    show ?thesis
      using r(1) wallet_guards_below(1) [OF w r(2)] txn_foreign_keys_below [OF w t r(3)]
        reference_settled_below [OF t r(4)] by simp
  qed (use new that in simp)
  with assms(2) show ?thesis by (simp add: txns_inv_def)
qed

lemma ledger_inv_step:
  assumes inv: "ledger_inv d" and k: "keys_ok (txns d)" "keys_ok (txns d')"
    and w: "all_below wallet_below (wallets d) (wallets d')"
    and t: "all_below row_below (txns d) (txns d')"
    and ls: "ledger d' = ledger d @ ls" "distinct (map lr_transaction ls)"
    and new: "\<And>l. l \<in> set ls \<Longrightarrow> ledger_guard d' l \<and> ledger_checks l \<and> ledger_foreign_keys d' l \<and>
      (\<forall>r \<in> set (txns d). tr_id r = lr_transaction l \<longrightarrow> \<not> terminal_status (tr_status r))"
    and moved: "\<And>r. r \<in> set (txns d') \<Longrightarrow> moved r \<Longrightarrow>
      r \<in> set (txns d) \<or> tr_id r \<in> lr_transaction ` set ls"
  shows "ledger_inv d'"
proof -
  have old: "ledger_guard d l" "ledger_checks l" "ledger_foreign_keys d l" if "l \<in> set (ledger d)" for l
    using inv that by (auto simp: ledger_inv_def)
  have "lr_transaction l \<noteq> lr_transaction m" if "l \<in> set (ledger d)" "m \<in> set ls" for l m
  proof
    assume "lr_transaction l = lr_transaction m"
    moreover from old(1) [OF that(1)] obtain r where
      "find_txn (lr_transaction l) d = Some r" "tr_status r = StatusProcessed"
      by (auto simp: ledger_guard_def split: option.splits)
    ultimately show False
      using new [OF that(2)] find_txn_iff [OF k(1)] by (auto simp: terminal_status_def)
  qed
  then have "distinct (map lr_transaction (ledger d'))"
    using inv ls by (auto simp: ledger_inv_def)
  moreover have "ledger_guard d' l \<and> ledger_checks l \<and> ledger_foreign_keys d' l" if "l \<in> set (ledger d')" for l
  proof (cases "l \<in> set ls")
    case False
    with that ls(1) have "l \<in> set (ledger d)" by simp
    then show ?thesis
      using old ledger_guard_below [OF k t] wallet_guards_below(2) [OF w] by simp
  qed (use new in simp)
  moreover have "\<exists>l \<in> set (ledger d'). lr_transaction l = tr_id r" if "r \<in> set (txns d')" "moved r" for r
    using moved [OF that] inv that(2) ls(1) by (auto simp: ledger_inv_def)
  ultimately show ?thesis by (simp add: ledger_inv_def)
qed

lemma replay_append: "replay b (xs @ ys) = Option.bind (replay b xs) (\<lambda>c. replay c ys)"
  by (induction b xs rule: replay.induct) auto

lemma book_append [simp]: "book wid (xs @ ys) = book wid xs @ book wid ys"
  by (simp add: book_def)

lemma balance_inv_same:
  "balance_inv d \<Longrightarrow> ledger d' = ledger d \<Longrightarrow> wallets d' = wallets d \<Longrightarrow> balance_inv d'"
  by (simp add: balance_inv_def)

text \<open>Some transaction with this identifier has reached a terminal status.\<close>

definition decided :: "string \<Rightarrow> txn_row list \<Rightarrow> bool" where
  "decided tid rs \<longleftrightarrow> (\<exists>r \<in> set rs. tr_id r = tid \<and> terminal_status (tr_status r))"

lemma decided_written:
  assumes w: "written iso4217 d t rs" and k: "keys_ok (txns d)"
  shows "decided tid rs \<longleftrightarrow> decided tid (txns d) \<or> tid = wt_id t \<and> terminal_status (wt_status t)"
    and "\<not> decided (wt_id t) (txns d)"
proof -
  show no: "\<not> decided (wt_id t) (txns d)"
    using written_open(1) [OF w k] by (auto simp: decided_def)
  have "decided tid rs" if "decided tid (txns d)"
    using that written_open(2) [OF w k] unfolding decided_def by blast
  moreover have "decided (wt_id t) rs" if "terminal_status (wt_status t)"
    using that written_in [OF w k] unfolding decided_def by (auto intro!: bexI)
  moreover have "decided tid (txns d) \<or> tid = wt_id t \<and> terminal_status (wt_status t)" if "decided tid rs"
    using that written_set [OF w] unfolding decided_def by (metis txn_row_sel(1,14))
  ultimately show "decided tid rs \<longleftrightarrow> decided tid (txns d) \<or> tid = wt_id t \<and> terminal_status (wt_status t)"
    by blast
qed

lemma decided_snoc:
  "decided tid (rs @ [r]) \<longleftrightarrow> decided tid rs \<or> tid = tr_id r \<and> terminal_status (tr_status r)"
  by (auto simp: decided_def)

lemma outcomes_append [simp]: "outcomes tid (xs @ ys) = outcomes tid xs + outcomes tid ys"
  by (simp add: outcomes_def count_where_def)

lemma changes_append [simp]: "changes (xs @ ys) = changes xs @ changes ys"
  by (simp add: changes_def map_filter_def)

lemma events_fresh: "event_fresh d ev \<longleftrightarrow> oe_id ev \<notin> oe_id ` set (events d)"
proof -
  have "oe_id ` set (events d) = (\<lambda>r. oe_id (or_event r)) ` set (outbox d)"
    by (simp add: events_def image_image)
  then show ?thesis by (auto simp: event_fresh_def list_all_iff image_iff)
qed

lemma announces_outcomes:
  assumes "announces ev i s"
  shows "outcomes tid [ev] = (if tid = i \<and> terminal_status s then 1 else 0)"
    and "changes [ev] = []"
  using assms
  by (auto simp: announces_def outcomes_def count_where_def status_event_def outcome_event_def
      terminal_status_def changes_def map_filter_def split: status.splits if_splits)

lemma mirrors_outcomes:
  assumes "mirrors ev l"
  shows "outcomes tid [ev] = 0" and "changes [ev] = [ledger_change l]"
  using assms
  by (simp_all add: mirrors_def outcomes_def count_where_def outcome_event_def changes_def map_filter_simps)

lemma outbox_inv_step:
  assumes inv: "outbox_inv d"
    and evs: "events d' = events d @ evs" "distinct (map oe_id evs)" "\<And>ev. ev \<in> set evs \<Longrightarrow> event_fresh d ev"
    and ls: "ledger d' = ledger d @ ls" "changes evs = map ledger_change ls"
    and t: "\<And>tid. decided tid (txns d) \<Longrightarrow> decided tid (txns d')"
    and out: "\<And>tid. outcomes tid evs = (if decided tid (txns d') \<and> \<not> decided tid (txns d) then 1 else 0)"
  shows "outbox_inv d'"
proof -
  have "distinct (map oe_id (events d))" using inv by (simp add: outbox_inv_def)
  moreover have "oe_id ` set (events d) \<inter> oe_id ` set evs = {}"
  proof -
    have False if "x \<in> set (events d)" "y \<in> set evs" "oe_id x = oe_id y" for x y
      using evs(3) [OF that(2)] that(1,3) by (metis events_fresh imageI)
    then show ?thesis by auto
  qed
  ultimately have "distinct (map oe_id (events d'))"
    using evs(1,2) by simp
  moreover have "changes (events d') = map ledger_change (ledger d')"
    using inv evs(1) ls by (simp add: outbox_inv_def)
  moreover have "outcomes tid (events d') = (if decided tid (txns d') then 1 else 0)" for tid
    using inv evs(1) t [of tid] out [of tid]
    by (simp add: outbox_inv_def flip: decided_def)
  ultimately show ?thesis by (simp add: outbox_inv_def flip: decided_def)
qed

lemma wallets_inv_row:
  "wallets_inv iso4217 d \<Longrightarrow> r \<in> set (wallets d) \<Longrightarrow> wr_id r = wr_id q \<Longrightarrow> q \<in> set (wallets d) \<Longrightarrow> r = q"
  unfolding wallets_inv_def by (blast intro: distinct_key_unique)

lemma put_wallet_below:
  assumes inv: "wallets_inv iso4217 d" and w: "wallet_row_of w \<in> set (wallets d)"
    and v: "wallet_version w \<noteq> max_int64" and cur: "money_currency after = money_currency (wallet_balance w)"
  shows "all_below wallet_below (wallets d) (put_wallet (wallet_apply w after now) (wallets d))"
proof -
  let ?w = "wallet_apply w after now"
  have "int64_range (sint (wallet_version w) + 1)"
    using v sint_le_max [of "wallet_version w"] sint_ge_min [of "wallet_version w"]
    by (auto simp: int64_range_def int64_eq_iff_sint)
  then have ver: "sint (wallet_version w + 1) = sint (wallet_version w) + 1"
    using sint_add_exact [of "wallet_version w" 1] by simp
  have "\<exists>r \<in> set (put_wallet ?w (wallets d)). wallet_below q r" if q: "q \<in> set (wallets d)" for q
  proof (cases "wr_id q = wallet_id w")
    case True
    then have "q = wallet_row_of w" using wallets_inv_row [OF inv q, of "wallet_row_of w"] w by simp
    moreover have "wallet_row_of ?w \<in> set (put_wallet ?w (wallets d))"
      using q True by (auto simp: put_wallet_def set_update_where)
    ultimately show ?thesis using ver cur by (auto simp: wallet_below_def intro!: bexI)
  next
    case False
    with q have "q \<in> set (put_wallet ?w (wallets d))" by (auto simp: put_wallet_def set_update_where)
    then show ?thesis using wallet_below_refl by blast
  qed
  then show ?thesis by (simp add: all_below_def)
qed

definition moved_wallet :: "wallet \<Rightarrow> wallet_row \<Rightarrow> wallet_row" where
  "moved_wallet w r = r\<lparr>wr_balance := money_minor (wallet_balance w),
     wr_version := wallet_version w, wr_updated := wallet_updated w\<rparr>"

lemma put_wallet_moved:
  assumes inv: "wallets_inv iso4217 d" and w: "wallet_row_of w \<in> set (wallets d)"
    and cur: "money_currency after = money_currency (wallet_balance w)"
  shows "put_wallet (wallet_apply w after now) (wallets d) =
    update_where (\<lambda>r. wr_id r = wallet_id w) (moved_wallet (wallet_apply w after now)) (wallets d)"
proof -
  have "moved_wallet (wallet_apply w after now) r = wallet_row_of (wallet_apply w after now)"
    if "r \<in> set (wallets d)" "wr_id r = wallet_id w" for r
  proof -
    have "r = wallet_row_of w"
      using wallets_inv_row [OF inv that(1), of "wallet_row_of w"] w that(2) by simp
    then show ?thesis using cur by (simp add: moved_wallet_def wallet_row_of_def)
  qed
  then show ?thesis unfolding put_wallet_def by (intro update_where_cong) auto
qed

lemma put_wallet_inv:
  assumes inv: "wallets_inv iso4217 d" and w: "wallet_row_of w \<in> set (wallets d)"
    and cur: "money_currency after = money_currency (wallet_balance w)"
    and ok: "wallet_ok iso4217 (wallet_apply w after now)"
    and d': "wallets d' = put_wallet (wallet_apply w after now) (wallets d)"
  shows "wallets_inv iso4217 d'"
proof -
  have "map wr_id (wallets d') = map wr_id (wallets d)"
    and "map (\<lambda>r. (wr_player r, wr_currency r)) (wallets d') =
      map (\<lambda>r. (wr_player r, wr_currency r)) (wallets d)"
    unfolding d' put_wallet_moved [OF inv w cur] by (simp_all add: moved_wallet_def)
  moreover have "\<exists>v. r = wallet_row_of v \<and> wallet_ok iso4217 v" if "r \<in> set (wallets d')" for r
    using that ok inv unfolding d' put_wallet_def set_update_where wallets_inv_def by auto
  ultimately show ?thesis using inv unfolding wallets_inv_def by simp
qed

lemma settle_balance_inv:
  assumes inv: "balance_inv d" and w: "wallet_row_of w \<in> set (wallets d)"
    and e: "new_ledger_entry iso4217 lid (wallet_id w) tid dir m (wallet_balance w) after now = Inr e"
    and d': "wallets d' = put_wallet (wallet_apply w after now) (wallets d)"
      "ledger d' = ledger d @ [ledger_row_of e]"
  shows "balance_inv d'"
proof -
  have row: "lr_wallet (ledger_row_of e) = wallet_id w"
    "sint (lr_before (ledger_row_of e)) = sint (money_minor (wallet_balance w))"
    "sint (lr_after (ledger_row_of e)) = sint (money_minor after)"
    "0 \<le> sint (money_minor after)"
    "sint (money_minor after) = sint (money_minor (wallet_balance w)) +
      signed_amount (lr_direction (ledger_row_of e)) (sint (lr_money (ledger_row_of e)))"
    using e by (auto simp: new_ledger_entry_ok ledger_row_of_def money_int_def)
  have "replay 0 (book (wallet_id w) (ledger d)) = Some (sint (money_minor (wallet_balance w)))"
    using inv w by (auto simp: balance_inv_def)
  with row have "replay 0 (book (wallet_id w) (ledger d')) = Some (sint (money_minor after))"
    by (simp add: d'(2) replay_append book_def)
  moreover have "replay 0 (book (wr_id r) (ledger d')) = Some (sint (wr_balance r))"
    if "r \<in> set (wallets d)" "wr_id r \<noteq> wallet_id w" for r
    using inv that row(1) by (simp add: d'(2) balance_inv_def) (simp add: book_def)
  ultimately show ?thesis
    unfolding balance_inv_def d'(1) put_wallet_def set_update_where by auto
qed

lemma wallet_unique_iff:
  "wallet_unique (wallets d) r \<longleftrightarrow> wr_id r \<notin> wr_id ` set (wallets d) \<and>
     (wr_player r, wr_currency r) \<notin> (\<lambda>q. (wr_player q, wr_currency q)) ` set (wallets d)"
  by (auto simp: wallet_unique_def list_all_iff image_iff)

lemma open_wallets_inv:
  "wallets_inv iso4217 d \<Longrightarrow> wallet_unique (wallets d) (wallet_row_of w) \<Longrightarrow> wallet_ok iso4217 w \<Longrightarrow>
   wallets d' = wallets d @ [wallet_row_of w] \<Longrightarrow> wallets_inv iso4217 d'"
  unfolding wallets_inv_def wallet_unique_iff by auto

text \<open>A wallet that is not stored has no entries.\<close>

lemma fresh_wallet_book:
  assumes "ledger_inv d" and "wallet_unique (wallets d) (wallet_row_of w)"
  shows "book (wallet_id w) (ledger d) = []"
proof -
  have "lr_wallet l \<noteq> wallet_id w" if "l \<in> set (ledger d)" for l
    using assms that unfolding ledger_inv_def ledger_foreign_keys_def wallet_unique_def list_all_iff list_ex_iff
    by fastforce
  then show ?thesis by (simp add: book_def filter_empty_conv)
qed

section \<open>Every step keeps the invariant\<close>

lemma db_invD:
  assumes "db_inv iso4217 d"
  shows "wallets_inv iso4217 d" and "txns_inv iso4217 d" and "ledger_inv d" and "balance_inv d"
    and "outbox_inv d" and "keys_ok (txns d)"
  using assms by (auto simp: db_inv_def txns_inv_def)

lemma written_row:
  assumes "written iso4217 d t rs"
  shows "external_row iso4217 (txn_row_of t)" and "wager_identity_guard d (txn_row_of t)"
    and "txn_foreign_keys d (txn_row_of t)" and "txn_checks (txn_row_of t)"
  using assms by (auto simp: written_def external_row_def)

lemma written_txns_inv:
  assumes inv: "db_inv iso4217 d" and w: "written iso4217 d t rs" and d': "txns d' = rs"
    and wb: "all_below wallet_below (wallets d) (wallets d')"
    and ref: "reference_settled (txns d) (txn_row_of t)"
  shows "txns_inv iso4217 d'"
proof (rule txns_inv_step [OF db_invD(2) [OF inv] _ wb])
  note k = db_invD(6) [OF inv]
  note tb = written_below [OF w k]
  show "keys_ok (txns d')" using written_keys [OF w k] d' by simp
  show "all_below row_below (txns d) (txns d')" using tb d' by simp
  fix r assume "r \<in> set (txns d')" "r \<notin> set (txns d)"
  then have r: "r = txn_row_of t" using written_set [OF w] d' by blast
  show "(external_row iso4217 r \<or> opening_ok r) \<and> wager_identity_guard d' r \<and>
      txn_foreign_keys d' r \<and> reference_settled (txns d') r"
    unfolding r
    using written_row [OF w] wallet_guards_below(1) [OF wb]
      txn_foreign_keys_below [OF wb, of "txn_row_of t"] tb d' reference_settled_below [OF tb ref]
    by simp
qed

lemma quiet_settled:
  assumes "txn_checks (txn_row_of t)" and "wt_status t \<noteq> StatusProcessed \<or> wt_kind t = KindLoss"
  shows "reference_settled rs (txn_row_of t)"
  using assms by (auto simp: reference_settled_def txn_checks_def reversal_kind_def)

text \<open>A transaction is written without moving money, and announced unless it waits on.\<close>

lemma quiet_step:
  assumes inv: "db_inv iso4217 d" and w: "written iso4217 d t rs"
    and q: "wt_status t \<noteq> StatusProcessed \<or> wt_kind t = KindLoss"
    and d': "d' = d\<lparr>txns := rs, outbox := outbox d @ map outbox_row_of evs\<rparr>"
    and evs: "(\<exists>ev. evs = [ev] \<and> announces ev (wt_id t) (wt_status t) \<and> event_fresh d ev) \<or>
      evs = [] \<and> \<not> terminal_status (wt_status t)"
  shows "db_inv iso4217 d' \<and> db_below d d'"
proof -
  note I = db_invD [OF inv]
  note tb = written_below [OF w I(6)]
  have wb: "all_below wallet_below (wallets d) (wallets d')"
    by (simp add: d' all_below_refl)
  have wi: "wallets_inv iso4217 d'" using I(1) by (simp add: d' wallets_inv_def)
  have ti: "txns_inv iso4217 d'"
    by (rule written_txns_inv [OF inv w _ wb]) (simp_all add: d' quiet_settled [OF written_row(4) [OF w] q])
  have li: "ledger_inv d'"
  proof (rule ledger_inv_step [OF I(3,6) _ wb, of "[]"])
    show "keys_ok (txns d')" using written_keys [OF w I(6)] by (simp add: d')
    show "all_below row_below (txns d) (txns d')" using tb by (simp add: d')
    fix r assume r: "r \<in> set (txns d')" "moved r"
    then have "r \<noteq> txn_row_of t" using q by (auto simp: moved_def)
    with r show "r \<in> set (txns d) \<or> tr_id r \<in> lr_transaction ` set []"
      using written_set [OF w] by (auto simp: d')
  qed (simp_all add: d')
  have bi: "balance_inv d'" using I(4) by (simp add: d' balance_inv_def)
  have evd: "events d' = events d @ evs"
    by (simp add: d' events_def comp_def outbox_row_of_def)
  have oi: "outbox_inv d'"
  proof (rule outbox_inv_step [OF I(5) evd, of "[]"])
    show "distinct (map oe_id evs)" and "\<And>ev. ev \<in> set evs \<Longrightarrow> event_fresh d ev"
      and "changes evs = map ledger_change []"
      using evs announces_outcomes(2) by (auto simp: changes_def map_filter_simps)
    show "decided tid (txns d) \<Longrightarrow> decided tid (txns d')" for tid
      using decided_written(1) [OF w I(6)] by (simp add: d')
    show "outcomes tid evs = (if decided tid (txns d') \<and> \<not> decided tid (txns d) then 1 else 0)" for tid
    proof (cases evs)
      case Nil
      with evs have "\<not> terminal_status (wt_status t)" by simp
      with Nil decided_written(1) [OF w I(6)] show ?thesis
        by (simp add: d' outcomes_def count_where_def)
    next
      case (Cons ev rest)
      with evs have ev: "evs = [ev]" "announces ev (wt_id t) (wt_status t)" by auto
      show ?thesis
        using announces_outcomes(1) [OF ev(2)] decided_written [OF w I(6)] unfolding ev(1)
        by (auto simp: d')
    qed
  qed (simp add: d')
  show ?thesis
    using wi ti li bi oi tb by (simp add: db_inv_def db_below_def d' all_below_refl)
qed

lemma two_events:
  assumes "announces ev i StatusProcessed" and "mirrors ev' l"
  shows "outcomes tid [ev, ev'] = (if tid = i then 1 else 0)"
    and "changes [ev, ev'] = [ledger_change l]"
  using announces_outcomes [OF assms(1)] mirrors_outcomes [OF assms(2)]
    outcomes_append [of tid "[ev]" "[ev']"] changes_append [of "[ev]" "[ev']"]
  by (simp_all add: terminal_status_def)

lemma entry_row:
  assumes "new_ledger_entry iso4217 lid wid tid dir m before after now = Inr e"
  shows "lr_wallet (ledger_row_of e) = wid" and "lr_transaction (ledger_row_of e) = tid"
    and "lr_direction (ledger_row_of e) = dir" and "lr_money (ledger_row_of e) = money_minor m"
    and "lr_currency (ledger_row_of e) = money_currency before"
    and "lr_before (ledger_row_of e) = money_minor before"
    and "lr_after (ledger_row_of e) = money_minor after"
    and "money_currency m = money_currency before" and "money_currency after = money_currency before"
    and "0 < money_int m" and "0 \<le> money_int after"
    and "money_int after = money_int before + signed_amount dir (money_int m)"
  using assms by (auto simp: new_ledger_entry_ok ledger_row_of_def)

lemma settle_step:
  assumes inv: "db_inv iso4217 d" and w: "written iso4217 d t rs" and st: "wt_status t = StatusProcessed"
    and ref: "reference_settled (txns d) (txn_row_of t)"
    and wal: "wallet_row_of w \<in> set (wallets d)" "wallet_ok iso4217 (wallet_apply w after now)"
      "wallet_version w \<noteq> max_int64"
    and e: "new_ledger_entry iso4217 lid (wallet_id w) (wt_id t) dir (wt_money t) (wallet_balance w)
      after now = Inr e"
    and g: "ledger_guard (d\<lparr>txns := rs\<rparr>) (ledger_row_of e)" "ledger_checks (ledger_row_of e)"
    and evs: "announces ev (wt_id t) (wt_status t)" "event_fresh d ev"
      "mirrors ev' (ledger_row_of e)" "event_fresh d ev'" "oe_id ev \<noteq> oe_id ev'"
    and d': "d' = d\<lparr>txns := rs, wallets := put_wallet (wallet_apply w after now) (wallets d),
         ledger := ledger d @ [ledger_row_of e],
         outbox := outbox d @ [outbox_row_of ev, outbox_row_of ev']\<rparr>"
  shows "db_inv iso4217 d' \<and> db_below d d'"
proof -
  note I = db_invD [OF inv]
  note row = entry_row [OF e]
  note tb = written_below [OF w I(6)]
  have wb: "all_below wallet_below (wallets d) (wallets d')"
    using put_wallet_below [OF I(1) wal(1,3) row(9)] by (simp add: d')
  have wi: "wallets_inv iso4217 d'"
    by (rule put_wallet_inv [OF I(1) wal(1) row(9) wal(2)]) (simp add: d')
  have ti: "txns_inv iso4217 d'"
    by (rule written_txns_inv [OF inv w _ wb ref]) (simp add: d')
  have kd': "keys_ok (txns d')" and tb': "all_below row_below (txns d) (txns d')"
    using written_keys [OF w I(6)] tb by (simp_all add: d')
  have li: "ledger_inv d'"
  proof (rule ledger_inv_step [OF I(3,6) kd' wb tb', of "[ledger_row_of e]"])
    have "ledger_guard d' (ledger_row_of e)"
      by (rule ledger_guard_below [of "d\<lparr>txns := rs\<rparr>"])
        (use kd' g(1) in \<open>simp_all add: d' all_below_refl\<close>)
    moreover have "wallet_row_of (wallet_apply w after now) \<in> set (wallets d')"
      using wal(1) by (auto simp: d' put_wallet_def set_update_where)
    then have "ledger_foreign_keys d' (ledger_row_of e)"
      using row by (auto simp: ledger_foreign_keys_def list_ex_iff intro!: bexI)
    moreover have "\<not> terminal_status (tr_status r)" if "r \<in> set (txns d)" "tr_id r = wt_id t" for r
      using written_open(1) [OF w I(6) that(1)] that(2) by blast
    ultimately show "l \<in> set [ledger_row_of e] \<Longrightarrow> ledger_guard d' l \<and> ledger_checks l \<and>
        ledger_foreign_keys d' l \<and>
        (\<forall>r \<in> set (txns d). tr_id r = lr_transaction l \<longrightarrow> \<not> terminal_status (tr_status r))" for l
      using g(2) row(2) by simp
    show "r \<in> set (txns d) \<or> tr_id r \<in> lr_transaction ` set [ledger_row_of e]"
      if "r \<in> set (txns d')" "moved r" for r
      using written_set [OF w, of r] that row(2) by (auto simp: d')
  qed (simp_all add: d')
  have bi: "balance_inv d'" by (rule settle_balance_inv [OF I(4) wal(1) e]) (simp_all add: d')
  have evd: "events d' = events d @ [ev, ev']" by (simp add: d' events_def outbox_row_of_def)
  have oi: "outbox_inv d'"
  proof (rule outbox_inv_step [OF I(5) evd, of "[ledger_row_of e]"])
    show "decided tid (txns d) \<Longrightarrow> decided tid (txns d')" for tid
      using decided_written(1) [OF w I(6)] by (simp add: d')
    show "outcomes tid [ev, ev'] = (if decided tid (txns d') \<and> \<not> decided tid (txns d) then 1 else 0)" for tid
      using two_events(1) [OF evs(1) [unfolded st] evs(3), of tid] decided_written [OF w I(6)] st
      by (auto simp: d' terminal_status_def)
    show "changes [ev, ev'] = map ledger_change [ledger_row_of e]"
      using two_events(2) [OF evs(1) [unfolded st] evs(3)] by simp
  qed (use evs in \<open>auto simp: d'\<close>)
  show ?thesis
    using wi ti li bi oi tb' wb by (simp add: db_inv_def db_below_def) (simp add: d')
qed

lemma open_empty_step:
  assumes inv: "db_inv iso4217 d" and w: "wallet_ok iso4217 w" "wallet_unique (wallets d) (wallet_row_of w)"
    and z: "is_zero (wallet_balance w)" and d': "d' = d\<lparr>wallets := wallets d @ [wallet_row_of w]\<rparr>"
  shows "db_inv iso4217 d' \<and> db_below d d'"
proof -
  note I = db_invD [OF inv]
  have wb: "all_below wallet_below (wallets d) (wallets d')" by (simp add: d')
  have tb: "all_below row_below (txns d) (txns d')" and k: "keys_ok (txns d')"
    using I(6) by (simp_all add: d' all_below_refl)
  have "wallets_inv iso4217 d'" by (rule open_wallets_inv [OF I(1) w(2,1)]) (simp add: d')
  moreover have "txns_inv iso4217 d'" by (rule txns_inv_step [OF I(2) k wb tb]) (simp add: d')
  moreover have "ledger_inv d'"
    by (rule ledger_inv_step [OF I(3,6) k wb tb, of "[]"]) (simp_all add: d')
  moreover have "balance_inv d'"
    using I(4) fresh_wallet_book [OF I(3) w(2)] z
    by (auto simp: balance_inv_def d' is_zero_def)
  moreover have "outbox_inv d'" using I(5) by (simp add: outbox_inv_def events_def d')
  ultimately show ?thesis
    using wb by (simp add: db_inv_def db_below_def) (simp add: d' all_below_refl)
qed

lemma opening_row_sel [simp]:
  "tr_id (opening_row tid w amount now) = tid"
  "tr_origin (opening_row tid w amount now) = Internal"
  "tr_provider (opening_row tid w amount now) = None"
  "tr_wallet (opening_row tid w amount now) = wallet_id w"
  "tr_player (opening_row tid w amount now) = wallet_player w"
  "tr_kind (opening_row tid w amount now) = KindOpening"
  "tr_money (opening_row tid w amount now) = money_minor amount"
  "tr_currency (opening_row tid w amount now) = money_currency amount"
  "tr_ref_id (opening_row tid w amount now) = None"
  "tr_status (opening_row tid w amount now) = StatusProcessed"
  "tr_result (opening_row tid w amount now) = Some (money_minor amount)"
  by (simp_all add: opening_row_def)

lemma open_funded_step:
  assumes inv: "db_inv iso4217 d" and w: "wallet_ok iso4217 w" "wallet_unique (wallets d) (wallet_row_of w)"
    and z: "zero_money iso4217 (money_currency (wallet_balance w)) = Inr zero"
    and r: "r = opening_row tid w (wallet_balance w) now" "txn_unique (txns d) r"
    and e: "new_ledger_entry iso4217 lid (wallet_id w) tid DirectionCredit (wallet_balance w) zero
      (wallet_balance w) now = Inr e" "ledger_checks (ledger_row_of e)"
    and evs: "announces ev tid StatusProcessed" "event_fresh d ev"
      "mirrors ev' (ledger_row_of e)" "event_fresh d ev'" "oe_id ev \<noteq> oe_id ev'"
    and d': "d' = d\<lparr>wallets := wallets d @ [wallet_row_of w], txns := txns d @ [r],
         ledger := ledger d @ [ledger_row_of e],
         outbox := outbox d @ [outbox_row_of ev, outbox_row_of ev']\<rparr>"
  shows "db_inv iso4217 d' \<and> db_below d d'"
proof -
  note I = db_invD [OF inv]
  note row = entry_row [OF e(1)]
  have wb: "all_below wallet_below (wallets d) (wallets d')" by (simp add: d')
  have tb: "all_below row_below (txns d) (txns d')" by (simp add: d')
  have k: "keys_ok (txns d')" using I(6) r(2) by (simp add: d' keys_ok_snoc)
  have fresh: "q \<in> set (txns d) \<Longrightarrow> tr_id q \<noteq> tid" for q
    using r by (auto simp: txn_unique_def list_all_iff txn_clash_def)
  have new: "r \<in> set (txns d')" "wallet_row_of w \<in> set (wallets d')" by (simp_all add: d')
  have fk: "txn_foreign_keys d' r" "wager_identity_guard d' r" "ledger_foreign_keys d' (ledger_row_of e)"
    using new(2) row r(1)
    by (auto simp: txn_foreign_keys_def wager_identity_guard_def ledger_foreign_keys_def list_ex_iff intro!: bexI)
  have "wallets_inv iso4217 d'" by (rule open_wallets_inv [OF I(1) w(2,1)]) (simp add: d')
  moreover have "txns_inv iso4217 d'"
  proof (rule txns_inv_step [OF I(2) k wb tb])
    fix q assume "q \<in> set (txns d')" "q \<notin> set (txns d)"
    then have "q = r" by (simp add: d')
    then show "(external_row iso4217 q \<or> opening_ok q) \<and> wager_identity_guard d' q \<and>
        txn_foreign_keys d' q \<and> reference_settled (txns d') q"
      using fk r(1) by (simp add: opening_ok_def reference_settled_def reversal_kind_def)
  qed
  moreover have "ledger_inv d'"
  proof (rule ledger_inv_step [OF I(3,6) k wb tb, of "[ledger_row_of e]"])
    have "find_txn tid d' = Some r" using new(1) r(1) by (simp add: find_txn_iff [OF k])
    then have "ledger_guard d' (ledger_row_of e)"
      using row r(1) by (simp add: ledger_guard_def expected_direction_def)
    then show "l \<in> set [ledger_row_of e] \<Longrightarrow> ledger_guard d' l \<and> ledger_checks l \<and>
        ledger_foreign_keys d' l \<and>
        (\<forall>q \<in> set (txns d). tr_id q = lr_transaction l \<longrightarrow> \<not> terminal_status (tr_status q))" for l
      using e(2) row(2) fk(3) fresh by auto
    show "q \<in> set (txns d) \<or> tr_id q \<in> lr_transaction ` set [ledger_row_of e]"
      if "q \<in> set (txns d')" "moved q" for q
      using that row(2) r(1) by (auto simp: d')
  qed (simp_all add: d')
  moreover have "balance_inv d'"
  proof -
    have z0: "sint (money_minor zero) = 0" using z by (auto simp: zero_money_def new_money_from_minor_def split: if_splits)
    have "replay 0 (book (wallet_id w) (ledger d')) = Some (sint (money_minor (wallet_balance w)))"
      using fresh_wallet_book [OF I(3) w(2)] row z0
      by (simp add: d' book_def money_int_def)
    moreover have "replay 0 (book (wr_id q) (ledger d')) = Some (sint (wr_balance q))"
      if "q \<in> set (wallets d)" for q
    proof -
      have "wr_id q \<noteq> wallet_id w" using w(2) that by (auto simp: wallet_unique_def list_all_iff)
      then show ?thesis using I(4) that row(1) by (simp add: d' balance_inv_def) (simp add: book_def)
    qed
    ultimately show ?thesis by (simp add: balance_inv_def d')
  qed
  moreover have "outbox_inv d'"
  proof (rule outbox_inv_step [OF I(5), of _ "[ev, ev']" "[ledger_row_of e]"])
    have "\<not> decided tid (txns d)" using fresh by (auto simp: decided_def)
    then show "outcomes i [ev, ev'] = (if decided i (txns d') \<and> \<not> decided i (txns d) then 1 else 0)" for i
      using two_events(1) [OF evs(1,3), of i] r(1)
      by (auto simp: d' decided_snoc terminal_status_def)
    show "decided i (txns d) \<Longrightarrow> decided i (txns d')" for i by (simp add: d' decided_snoc)
    show "changes [ev, ev'] = map ledger_change [ledger_row_of e]"
      using two_events(2) [OF evs(1,3)] by simp
    show "events d' = events d @ [ev, ev']" by (simp add: d' events_def outbox_row_of_def)
  qed (use evs in \<open>auto simp: d'\<close>)
  ultimately show ?thesis
    using wb tb by (simp add: db_inv_def db_below_def) (simp add: d')
qed

lemma same_tables_step:
  assumes inv: "db_inv iso4217 d"
    and d': "wallets d' = wallets d" "txns d' = txns d" "ledger d' = ledger d"
      "list_all2 relayed (outbox d) (outbox d')"
  shows "db_inv iso4217 d' \<and> db_below d d'"
proof -
  note I = db_invD [OF inv]
  have wb: "all_below wallet_below (wallets d) (wallets d')"
    and tb: "all_below row_below (txns d) (txns d')" by (simp_all add: d' all_below_refl)
  have k: "keys_ok (txns d')" using I(6) by (simp add: d')
  have "map or_event os' = map or_event os" if "list_all2 relayed os os'" for os os'
    using that by (induction rule: list_all2_induct) (auto simp: relayed_def)
  with d'(4) have ev: "events d' = events d" by (simp add: events_def)
  have "wallets_inv iso4217 d'" using I(1) by (simp add: wallets_inv_def d')
  moreover have "txns_inv iso4217 d'" by (rule txns_inv_step [OF I(2) k wb tb]) (simp add: d')
  moreover have "ledger_inv d'"
    by (rule ledger_inv_step [OF I(3,6) k wb tb, of "[]"]) (simp_all add: d')
  moreover have "balance_inv d'" using I(4) by (rule balance_inv_same) (simp_all add: d')
  moreover have "outbox_inv d'" using I(5) by (simp add: outbox_inv_def ev d')
  ultimately show ?thesis
    using wb tb d'(4) by (simp add: db_inv_def db_below_def d'(3) outbox_below_relay)
qed

lemma inbox_only_sel:
  "inbox_only d d' \<Longrightarrow> wallets d' = wallets d \<and> txns d' = txns d \<and> ledger d' = ledger d \<and>
   outbox d' = outbox d"
  by (cases d; cases d') (simp add: inbox_only_def)

lemma db_step_sound:
  "db_step iso4217 d d' \<Longrightarrow> db_inv iso4217 d \<Longrightarrow> db_inv iso4217 d' \<and> db_below d d'"
proof (induction rule: db_step.induct)
  case (inbox d d')
  then show ?case
    using same_tables_step [OF inbox.prems, of d'] inbox_only_sel [OF inbox.hyps]
    by (simp add: list_all2_same)
next
  case (defer_txn d t rs)
  then show ?case
    using quiet_step [OF defer_txn.prems defer_txn.hyps(1), of "d\<lparr>txns := rs\<rparr>" "[]"]
    by (simp add: terminal_status_def)
next
  case (record_txn d t rs ev)
  then show ?case
    using quiet_step [OF record_txn.prems record_txn.hyps(1,2), of _ "[ev]"] by simp
next
  case settle
  then show ?case by (intro settle_step) (assumption | rule refl)+
next
  case open_empty
  then show ?case by (intro open_empty_step) (assumption | rule refl)+
next
  case open_funded
  then show ?case by (intro open_funded_step) (assumption | rule refl)+
qed

lemma any_step_sound:
  "any_step iso4217 d d' \<Longrightarrow> db_inv iso4217 d \<Longrightarrow> db_inv iso4217 d' \<and> db_below d d'"
proof (induction rule: any_step.induct)
  case (use_case d d')
  then show ?case by (rule db_step_sound)
next
  case (relay d ob)
  then show ?case using same_tables_step [OF relay.prems, of "d\<lparr>outbox := ob\<rparr>"] by simp
qed

text \<open>A use case only adds unpublished events to the outbox.\<close>

definition outbox_appends :: "db \<Rightarrow> db \<Rightarrow> bool" where
  "outbox_appends d d' \<longleftrightarrow> (\<exists>evs. outbox d' = outbox d @ map outbox_row_of evs)"

lemma outbox_appends_refl [simp]: "outbox_appends d d"
  unfolding outbox_appends_def by (rule exI [of _ "[]"]) simp

lemma outbox_appends_trans: "outbox_appends d e \<Longrightarrow> outbox_appends e f \<Longrightarrow> outbox_appends d f"
  unfolding outbox_appends_def by (metis append.assoc map_append)

lemma outbox_appends_rows:
  "outbox d' = outbox d @ map outbox_row_of evs \<Longrightarrow> outbox_appends d d'"
  by (auto simp: outbox_appends_def)

lemma db_step_appends: "db_step iso4217 d d' \<Longrightarrow> outbox_appends d d'"
proof (induction rule: db_step.induct)
  case (inbox d d')
  then have "outbox d' = outbox d @ map outbox_row_of []" using inbox_only_sel by simp
  then show ?case by (rule outbox_appends_rows)
next
  case (record_txn d t rs ev)
  show ?case by (rule outbox_appends_rows [of _ _ "[ev]"]) simp
next
  case (settle d t rs after w now lid dir e ev ev')
  show ?case by (rule outbox_appends_rows [of _ _ "[ev, ev']"]) simp
next
  case (open_funded w d zero r tid now lid e ev ev')
  show ?case by (rule outbox_appends_rows [of _ _ "[ev, ev']"]) simp
qed (auto intro: outbox_appends_rows [of _ _ "[]"])

interpretation appends: monotone_machine "db_step iso4217" outbox_appends
  for iso4217
  by unfold_locales (auto intro: outbox_appends_trans dest: db_step_appends)

lemma empty_db_inv [simp]: "db_inv iso4217 empty_db"
  by (simp add: db_inv_def empty_db_def wallets_inv_def txns_inv_def keys_ok_def ledger_inv_def
      balance_inv_def outbox_inv_def events_def changes_def map_filter_def outcomes_def count_where_def)

interpretation accounts: machine "any_step iso4217" "db_inv iso4217"
  for iso4217
  by unfold_locales (simp add: any_step_sound)

interpretation history: monotone_machine "\<lambda>d d'. db_inv iso4217 d \<and> any_step iso4217 d d'" db_below
  for iso4217
  by unfold_locales (auto intro: db_below_trans dest: any_step_sound)

text \<open>The runs of steps, the form in which the services use all this.\<close>

lemma any_run_sound:
  assumes "(any_step iso4217)\<^sup>*\<^sup>* d d'" and "db_inv iso4217 d"
  shows "db_inv iso4217 d' \<and> db_below d d'"
proof -
  have "(\<lambda>d d'. db_inv iso4217 d \<and> any_step iso4217 d d')\<^sup>*\<^sup>* d d'"
    using assms by (induction rule: converse_rtranclp_induct)
      (auto dest: accounts.step_inv intro: converse_rtranclp_into_rtranclp)
  then show ?thesis
    using assms accounts.run_inv history.run_below by blast
qed

lemma use_case_run: "(db_step iso4217)\<^sup>*\<^sup>* d d' \<Longrightarrow> (any_step iso4217)\<^sup>*\<^sup>* d d'"
  by (induction rule: rtranclp_induct) (auto intro: any_step.use_case rtranclp.rtrancl_into_rtrancl)

lemma run_sound:
  "(db_step iso4217)\<^sup>*\<^sup>* d d' \<Longrightarrow> db_inv iso4217 d \<Longrightarrow> db_inv iso4217 d' \<and> db_below d d'"
  by (rule any_run_sound [OF use_case_run])

end
