(* ===== verification/Settlement.thy ===== *)
theory Settlement
  imports Accounting
begin

text \<open>
  The refinement: every call of the wager service that commits makes only the steps of
  \<open>Accounting\<close>, so it keeps the accounting invariant and undoes nothing.
\<close>

lemma txn_row_more [simp]:
  "tr_round (txn_row_of t) = Some (wt_round t)" "tr_game (txn_row_of t) = Some (wt_game t)"
  "tr_created (txn_row_of t) = wt_created t" "tr_updated (txn_row_of t) = wt_updated t"
  by (simp_all add: txn_row_of_def)

section \<open>Transactions read from a good store\<close>

lemma scan_status: "scan_transaction iso4217 r = Inr t \<Longrightarrow> wt_status t = tr_status r"
  by (auto simp: scan_transaction_def rehydrate_wager_ok split: option.splits)

lemma txns_invD:
  assumes "db_inv iso4217 d" and "r \<in> set (txns d)"
  shows "external_row iso4217 r \<or> opening_ok r" and "reference_settled (txns d) r"
  using assms by (auto simp: db_inv_def txns_inv_def)

lemma external_scan:
  "external_row iso4217 r \<Longrightarrow> scan_transaction iso4217 r = Inr t \<Longrightarrow> r = txn_row_of t \<and> wager_inv iso4217 t"
  by (auto simp: external_row_def wager_inv_def scan_txn_row)

lemma find_by_external_wager:
  assumes inv: "db_inv iso4217 d"
    and f: "scan_optional iso4217 (find_by_external p x d) = Inr (Some r)"
  shows "txn_row_of r \<in> set (txns d) \<and> wager_inv iso4217 r \<and> wt_provider r = p \<and> wt_external r = x"
proof -
  from f obtain q where q: "find_by_external p x d = Some q" "scan_transaction iso4217 q = Inr r"
    by (auto simp: scan_optional_def split: option.splits)
  then have m: "q \<in> set (txns d)" "tr_provider q = Some p" "tr_external q = Some x"
    by (auto simp: find_by_external_def dest: find_someD)
  with txns_invD(1) [OF inv m(1)] have "external_row iso4217 q" by (auto simp: opening_ok_def)
  with external_scan q(2) have "q = txn_row_of r" "wager_inv iso4217 r" by blast+
  with m show ?thesis by simp
qed

lemma find_by_key_wager:
  assumes inv: "db_inv iso4217 d"
    and f: "scan_optional iso4217 (find_by_key p x d) = Inr (Some r)"
  shows "txn_row_of r \<in> set (txns d) \<and> wager_inv iso4217 r \<and> wt_provider r = p \<and> wt_key r = x"
proof -
  from f obtain q where q: "find_by_key p x d = Some q" "scan_transaction iso4217 q = Inr r"
    by (auto simp: scan_optional_def split: option.splits)
  then have m: "q \<in> set (txns d)" "tr_provider q = Some p" "tr_key q = Some x"
    by (auto simp: find_by_key_def dest: find_someD)
  with txns_invD(1) [OF inv m(1)] have "external_row iso4217 q" by (auto simp: opening_ok_def)
  with external_scan q(2) have "q = txn_row_of r" "wager_inv iso4217 r" by blast+
  with m show ?thesis by simp
qed

lemma lock_transaction_wager:
  assumes inv: "db_inv iso4217 (s_db s)" and l: "lock_transaction iso4217 tid s = Inr (t, s')"
  shows "s_db s' = s_db s" and "wt_status t = StatusPendingReference \<Longrightarrow>
    txn_row_of t \<in> set (txns (s_db s)) \<and> wager_inv iso4217 t \<and> wt_id t = tid"
proof -
  from lock_transactionD [OF l] obtain r where
    r: "s_db s' = s_db s" "find_txn tid (s_db s) = Some r" "scan_transaction iso4217 r = Inr t"
    by blast
  then have m: "r \<in> set (txns (s_db s))" "tr_id r = tid" by (auto simp: find_txn_def dest: find_someD)
  show "s_db s' = s_db s" by (fact r(1))
  assume "wt_status t = StatusPendingReference"
  with scan_status [OF r(3)] txns_invD(1) [OF inv m(1)] have "external_row iso4217 r"
    by (auto simp: opening_ok_def)
  with external_scan [OF _ r(3)] m show "txn_row_of t \<in> set (txns (s_db s)) \<and> wager_inv iso4217 t \<and> wt_id t = tid"
    by auto
qed

section \<open>Writing a transaction\<close>

definition ready :: "(string \<Rightarrow> bool) \<Rightarrow> db \<Rightarrow> bool \<Rightarrow> wager \<Rightarrow> bool" where
  "ready iso4217 d fresh t \<longleftrightarrow> wager_inv iso4217 t \<and> (fresh \<or> (\<exists>t0. amends iso4217 d t0 t))"

lemma ready_step: "ready iso4217 d fresh t \<Longrightarrow> wager_step iso4217 t t' \<Longrightarrow> ready iso4217 d fresh t'"
  unfolding ready_def amends_def
  by (auto intro: wager_step_inv rtranclp.rtrancl_into_rtrancl)

lemma save_transactionD:
  assumes k: "keys_ok (txns (s_db s))" and r: "ready iso4217 (s_db s) fresh t"
    and s: "save_transaction fresh t s = Inr (u, s')"
  shows "\<exists>rs. written iso4217 (s_db s) t rs \<and> s_db s' = s_db s\<lparr>txns := rs\<rparr>"
proof (cases fresh)
  case True
  with s have "insert_txn_row (txn_row_of t) s = Inr (u, s')"
    by (simp add: save_transaction_def insert_transaction_def)
  from insert_txn_rowD [OF this] r show ?thesis
    by (auto simp: written_def txn_guards_ok ready_def)
next
  case False
  with r obtain t0 where a: "amends iso4217 (s_db s) t0 t" by (auto simp: ready_def)
  from False s have "update_transaction t s = Inr (u, s')" by (simp add: save_transaction_def)
  from update_transactionD [OF this] obtain q where
    q: "find_txn (wt_id t) (s_db s) = Some q"
    and g: "txn_guards (s_db s) (filter (\<lambda>q. tr_id q \<noteq> wt_id t) (txns (s_db s))) (change_txn_row t q) = Inr ()"
    and s': "s_db s' = s_db s\<lparr>txns := update_where (\<lambda>q. tr_id q = wt_id t) (change_txn_row t) (txns (s_db s))\<rparr>"
    by blast
  have same: "change_txn_row t p = txn_row_of t" if "p \<in> set (txns (s_db s))" "tr_id p = wt_id t" for p
    using amended_row [OF k a that] change_txn_row_of [OF amends_below(1) [OF a]] by simp
  have "q \<in> set (txns (s_db s))" "tr_id q = wt_id t" using q k by (simp_all add: find_txn_iff)
  with g same have "txn_guards (s_db s) (filter (\<lambda>q. tr_id q \<noteq> wt_id t) (txns (s_db s))) (txn_row_of t) = Inr ()"
    by metis
  moreover have "update_where (\<lambda>q. tr_id q = wt_id t) (change_txn_row t) (txns (s_db s)) = put_txn t (txns (s_db s))"
    unfolding put_txn_def by (rule update_where_cong) (auto simp: same)
  ultimately show ?thesis
    using r a s' by (auto simp: written_def txn_guards_ok ready_def)
qed

lemma announces_new_event:
  "status_event s = Some ty \<Longrightarrow> (\<And>c. dat \<noteq> BalanceChangedData c) \<Longrightarrow>
   announces (new_event eid ty tid co ca now dat) tid s"
  by (auto simp: announces_def event_change_def split: event_data.splits)

lemma status_event_simps [simp]:
  "status_event StatusProcessed = Some EventWagerTransactionProcessed"
  "status_event StatusRejected = Some EventWagerTransactionRejected"
  "status_event StatusFailed = Some EventWagerTransactionFailed"
  "status_event StatusPendingReference = Some EventWagerTransactionPendingReference"
  by (simp_all add: status_event_def)

text \<open>A transaction that moves no money is written and announced.\<close>

lemma record_announced:
  assumes inv: "db_inv iso4217 (s_db s)" and r: "ready iso4217 (s_db s) fresh t"
    and q: "wt_status t \<noteq> StatusProcessed \<or> wt_kind t = KindLoss"
    and s: "save_transaction fresh t s = Inr (u, s1)"
    and e: "emit ty (wt_id t) co ca now dat s1 = Inr (v, s2)"
    and ty: "status_event (wt_status t) = Some ty" "\<And>c. dat \<noteq> BalanceChangedData c"
  shows "db_step iso4217 (s_db s) (s_db s2)"
proof -
  from save_transactionD [OF db_invD(6) [OF inv] r s] obtain rs where
    w: "written iso4217 (s_db s) t rs" and s1: "s_db s1 = s_db s\<lparr>txns := rs\<rparr>" by blast
  from emitD [OF e] obtain eid where
    f: "event_fresh (s_db s1) (new_event eid ty (wt_id t) co ca now dat)"
    and s2: "s_db s2 = s_db s1\<lparr>outbox := outbox (s_db s1) @
      [outbox_row_of (new_event eid ty (wt_id t) co ca now dat)]\<rparr>" by blast
  have "event_fresh (s_db s) (new_event eid ty (wt_id t) co ca now dat)"
    using f by (simp add: s1 event_fresh_def)
  from db_step.record_txn [OF w q announces_new_event [OF ty] this] s1 s2 show ?thesis by simp
qed

lemma reject_txD:
  assumes inv: "db_inv (sv_iso sv) (s_db s)" and r: "ready (sv_iso sv) (s_db s) fresh t"
    and s: "reject_tx sv t w code co ca now fresh s = Inr (t', s')"
  shows "db_step (sv_iso sv) (s_db s) (s_db s')"
    and "reject_wager (sv_iso sv) t code (wallet_balance w) now = Inr t'"
proof -
  from s obtain s1 where j: "reject_wager (sv_iso sv) t code (wallet_balance w) now = Inr t'"
    and s1: "save_transaction fresh t' s = Inr ((), s1)"
    and e: "emit EventWagerTransactionRejected (wt_id t') co ca now
       (RejectedData \<lparr>od_transaction = wt_id t', od_external = wt_external t',
          od_provider = wt_provider t', od_wallet = wallet_id w, od_kind = wt_kind t',
          od_status = wt_status t', od_failure = code,
          od_balance = view_money (wallet_balance w)\<rparr>) s1 = Inr ((), s')"
    by (auto simp: reject_tx_def tx_bind_ok)
  show "reject_wager (sv_iso sv) t code (wallet_balance w) now = Inr t'" by (fact j)
  have "wt_status t' = StatusRejected" using j by (auto simp: reject_wager_ok)
  then show "db_step (sv_iso sv) (s_db s) (s_db s')"
    using record_announced [OF inv ready_step [OF r wager_step.rejected [OF j]] _ s1 e] by simp
qed

section \<open>Moving money\<close>

lemma update_wallet_put:
  assumes inv: "wallets_inv iso4217 (s_db s)" and w: "wallet_row_of w \<in> set (wallets (s_db s))"
    and cur: "money_currency after = money_currency (wallet_balance w)"
    and u: "update_wallet (wallet_apply w after now) s = Inr (v, s')"
  shows "s_db s' = s_db s\<lparr>wallets := put_wallet (wallet_apply w after now) (wallets (s_db s))\<rparr>"
    and "wallet_version w \<noteq> max_int64"
proof -
  let ?w = "wallet_apply w after now"
  let ?target = "\<lambda>r. wr_id r = wallet_id ?w \<and> sint (wr_version r) = sint (wallet_version ?w) - 1"
  note D = update_walletD [OF u]
  show nm: "wallet_version w \<noteq> max_int64"
  proof
    assume "wallet_version w = max_int64"
    then have "wallet_version ?w = min_int64" by (simp add: max_int64_def min_int64_def)
    with D show False by simp
  qed
  then have "int64_range (sint (wallet_version w) + 1)"
    using sint_le_max [of "wallet_version w"] sint_ge_min [of "wallet_version w"]
    by (auto simp: int64_range_def int64_eq_iff_sint)
  then have ver: "sint (wallet_version ?w) - 1 = sint (wallet_version w)"
    using sint_add_exact [of "wallet_version w" 1] by simp
  have row: "r = wallet_row_of w" if "r \<in> set (wallets (s_db s))" "wr_id r = wallet_id w" for r
    using wallets_inv_row [OF inv that(1), of "wallet_row_of w"] w that(2) by simp
  have "update_where ?target (moved_wallet ?w) (wallets (s_db s)) =
      update_where (\<lambda>r. wr_id r = wallet_id w) (moved_wallet ?w) (wallets (s_db s))"
    by (rule update_where_cong) (use ver in \<open>auto dest!: row\<close>)
  moreover have "moved_wallet ?w = (\<lambda>r. r\<lparr>wr_balance := money_minor (wallet_balance ?w),
      wr_version := wallet_version ?w, wr_updated := wallet_updated ?w\<rparr>)"
    by (rule ext) (simp add: moved_wallet_def)
  ultimately show "s_db s' = s_db s\<lparr>wallets := put_wallet ?w (wallets (s_db s))\<rparr>"
    using conjunct1 [OF D] put_wallet_moved [OF inv w cur, of now] by metis
qed

text \<open>The balance movement that \<open>movement_of\<close> computes.\<close>

definition moves_by :: "(string \<Rightarrow> bool) \<Rightarrow> wallet \<Rightarrow> money \<Rightarrow> time \<Rightarrow> direction \<Rightarrow> money \<Rightarrow> bool" where
  "moves_by iso4217 w m now dir after \<longleftrightarrow>
     0 < money_int m \<and> now \<noteq> 0 \<and> parse_currency iso4217 (money_currency m) \<and>
     money_currency m = money_currency (wallet_balance w) \<and>
     money_currency after = money_currency (wallet_balance w) \<and> 0 \<le> money_int after \<and>
     (dir = DirectionDebit \<or> dir = DirectionCredit) \<and>
     money_int after = money_int (wallet_balance w) + signed_amount dir (money_int m)"

lemma movement_ofD:
  assumes m: "movement_of iso4217 t w reference now = Inr (dir, before, after, w')"
    and ok: "wallet_ok iso4217 w"
  shows "before = wallet_balance w"
    and "wt_kind t = KindLoss \<and> dir = None \<and> after = wallet_balance w \<and> w' = w \<or>
      wt_kind t \<noteq> KindLoss \<and> (\<exists>dr. dir = Some dr \<and> moves_by iso4217 w (wt_money t) now dr after \<and>
        w' = wallet_apply w after now)"
proof -
  have deb: "before = wallet_balance w \<and> moves_by iso4217 w (wt_money t) now DirectionDebit after \<and>
      w' = wallet_apply w after now"
    if "wallet_debit iso4217 w (wt_money t) now = Inr (before, after, w')"
    using that wallet_ok_balance [OF ok]
    by (auto simp: wallet_debit_ok moves_by_def balance_int_money)
  have cre: "before = wallet_balance w \<and> moves_by iso4217 w (wt_money t) now DirectionCredit after \<and>
      w' = wallet_apply w after now"
    if "wallet_credit iso4217 w (wt_money t) now = Inr (before, after, w')"
    using that wallet_ok_balance [OF ok]
    by (auto simp: wallet_credit_ok moves_by_def balance_int_money)
  show "before = wallet_balance w"
    using m deb cre by (auto simp: movement_of_def Let_def split: kind.splits option.splits if_splits)
  show "wt_kind t = KindLoss \<and> dir = None \<and> after = wallet_balance w \<and> w' = w \<or>
      wt_kind t \<noteq> KindLoss \<and> (\<exists>dr. dir = Some dr \<and> moves_by iso4217 w (wt_money t) now dr after \<and>
        w' = wallet_apply w after now)"
    using m deb cre by (auto simp: movement_of_def Let_def split: kind.splits option.splits if_splits)
qed

text \<open>
  What the reference of \<open>t\<close> must satisfy for \<open>t\<close> to be processed: the status of \<open>t\<close>
  itself does not count.
\<close>

definition reference_ready :: "txn_row list \<Rightarrow> wager \<Rightarrow> bool" where
  "reference_ready rs t \<longleftrightarrow> reference_settled rs (txn_row_of t\<lparr>tr_status := StatusProcessed\<rparr>)"

lemma reference_ready_settled:
  "reference_ready rs t \<Longrightarrow> wt_status t' = StatusProcessed \<Longrightarrow> wt_ref_id t' = wt_ref_id t \<Longrightarrow>
   wager_identity t' = wager_identity t \<Longrightarrow> reference_settled rs (txn_row_of t')"
proof -
  assume r: "reference_ready rs t" and t': "wt_status t' = StatusProcessed" "wt_ref_id t' = wt_ref_id t"
    "wager_identity t' = wager_identity t"
  then have "reference_fits (txn_row_of t') q = reference_fits (txn_row_of t\<lparr>tr_status := StatusProcessed\<rparr>) q" for q
    by (simp add: reference_fits_def wager_identity_def)
  with r t' show ?thesis by (simp add: reference_ready_def reference_settled_def wager_identity_def)
qed

lemma money_eta_cur: "money_currency m = c \<Longrightarrow> \<lparr>money_minor = money_minor m, money_currency = c\<rparr> = m"
  by auto

lemma ledger_guard_txns: "txns d' = txns d \<Longrightarrow> ledger_guard d' l = ledger_guard d l"
proof -
  assume "txns d' = txns d"
  then have f: "find_txn x d' = find_txn x d" for x by (simp add: find_txn_def)
  then have "expected_direction d' r = expected_direction d r" for r
    by (cases "tr_kind r"; cases "tr_ref_id r") (simp_all add: expected_direction_def)
  with f show ?thesis by (cases "find_txn (lr_transaction l) d") (simp_all add: ledger_guard_def)
qed

lemma changed_mirrors:
  assumes e: "new_ledger_entry iso4217 lid (wallet_id w) (wt_id t) dir (wt_money t) before after now = Inr e"
    and d: "dat = changed_event t w' dir before after" "wallet_id w' = wallet_id w"
  shows "mirrors (new_event eid EventWalletBalanceChanged (wallet_id w) co ca now dat) (ledger_row_of e)"
  using entry_row [OF e] d
  by (simp add: mirrors_def event_change_def changed_event_def ledger_change_def Let_def money_eta_cur)

lemma processed_announces:
  "announces (new_event eid EventWagerTransactionProcessed tid co ca now (processed_event t w after))
     tid StatusProcessed"
  by (rule announces_new_event) (simp_all add: processed_event_def)

lemma settle_txD:
  assumes inv: "db_inv (sv_iso sv) (s_db s)" and r: "ready (sv_iso sv) (s_db s) fresh t"
    and w: "wallet_row_of w \<in> set (wallets (s_db s))" "wallet_ok (sv_iso sv) w"
      "wallet_id w = wt_wallet t"
    and m: "moves_by (sv_iso sv) w (wt_money t) now dr after" "wt_kind t \<noteq> KindLoss"
    and ref: "reference_ready (txns (s_db s)) t"
    and s: "settle_tx sv t (Some dr) (wallet_balance w) after (wallet_apply w after now) co ca now
      fresh s = Inr ((t', w'), s')"
  shows "db_step (sv_iso sv) (s_db s) (s_db s')"
proof -
  let ?w = "wallet_apply w after now"
  note inv_d = db_invD [OF inv]
  have cur: "money_currency after = money_currency (wallet_balance w)" using m(1) by (simp add: moves_by_def)
  from s obtain s1 s2 s3 lid e where
    j: "mark_processed (sv_iso sv) t after now = Inr t'"
    and s1: "save_transaction fresh t' s = Inr ((), s1)"
    and s2: "update_wallet ?w s1 = Inr ((), s2)"
    and e: "new_ledger_entry (sv_iso sv) lid (wallet_id w) (wt_id t') dr (wt_money t')
       (wallet_balance w) after now = Inr e"
    and s3: "insert_ledger e (s2\<lparr>s_drawn := Suc (s_drawn s2)\<rparr>) = Inr ((), s3)"
    and ev: "tx_bind (emit EventWagerTransactionProcessed (wt_id t') co ca now
       (processed_event t' ?w after)) (\<lambda>_.
     emit EventWalletBalanceChanged (wallet_id w) co (wt_id t') now
       (changed_event t' ?w dr (wallet_balance w) after)) s3 = Inr ((), s')"
    by (auto simp: settle_tx_def record_movement_def tx_bind_ok new_uuid_def)
  from j have t': "wt_status t' = StatusProcessed" "wt_result t' = Some after" "wt_money t' = wt_money t"
    "wt_id t' = wt_id t" "wt_wallet t' = wt_wallet t" "wt_kind t' = wt_kind t"
    "wt_ref_id t' = wt_ref_id t" "wager_identity t' = wager_identity t"
    by (auto simp: mark_processed_ok wager_identity_def)
  from save_transactionD [OF inv_d(6) ready_step [OF r wager_step.processed [OF j]] s1] obtain rs where
    wr: "written (sv_iso sv) (s_db s) t' rs" and d1: "s_db s1 = s_db s\<lparr>txns := rs\<rparr>" by blast
  have wi: "wallets_inv (sv_iso sv) (s_db s1)" using inv_d(1) by (simp add: d1 wallets_inv_def)
  have w1: "wallet_row_of w \<in> set (wallets (s_db s1))" using w(1) by (simp add: d1)
  note put = update_wallet_put [OF wi w1 cur s2]
  have d2: "s_db s2 = s_db s\<lparr>txns := rs, wallets := put_wallet ?w (wallets (s_db s))\<rparr>"
    using put(1) by (simp add: d1)
  from insert_ledgerD [OF s3] have
    g: "ledger_guard (s_db s\<lparr>txns := rs\<rparr>) (ledger_row_of e)" "ledger_checks (ledger_row_of e)"
    and d3: "s_db s3 = s_db s\<lparr>txns := rs, wallets := put_wallet ?w (wallets (s_db s)),
      ledger := ledger (s_db s) @ [ledger_row_of e]\<rparr>"
    using ledger_guard_txns [of "s_db s\<lparr>txns := rs\<rparr>" "s_db s2"] by (simp_all add: d2)
  let ?ev = "\<lambda>eid. new_event eid EventWagerTransactionProcessed (wt_id t') co ca now (processed_event t' ?w after)"
  let ?ev' = "\<lambda>eid. new_event eid EventWalletBalanceChanged (wallet_id w) co (wt_id t') now
       (changed_event t' ?w dr (wallet_balance w) after)"
  from ev obtain eid eid' where
    f: "event_fresh (s_db s3) (?ev eid)"
      "event_fresh (s_db s3\<lparr>outbox := outbox (s_db s3) @ [outbox_row_of (?ev eid)]\<rparr>) (?ev' eid')"
    and d4: "s_db s' = s_db s3\<lparr>outbox := outbox (s_db s3) @ [outbox_row_of (?ev eid), outbox_row_of (?ev' eid')]\<rparr>"
    by (auto simp: tx_bind_ok dest!: emitD)
  then have f': "event_fresh (s_db s) (?ev eid)" "event_fresh (s_db s) (?ev' eid')"
      "oe_id (?ev eid) \<noteq> oe_id (?ev' eid')"
    by (simp_all add: event_fresh_def d3 outbox_row_of_def)
  have ok': "wallet_ok (sv_iso sv) ?w"
    using w(2) m(1) put(2) by (intro movement_preserves_wallet_ok) (auto simp: moves_by_def)
  have an: "announces (?ev eid) (wt_id t') (wt_status t')"
    using processed_announces t'(1) by simp
  have mi: "mirrors (?ev' eid') (ledger_row_of e)" by (rule changed_mirrors [OF e refl]) simp
  have wid: "wallet_id w = wt_wallet t'" using w(3) t'(5) by simp
  show ?thesis
    unfolding d4 d3
    using db_step.settle [OF wr t'(1,2) reference_ready_settled [OF ref t'(1,7,8)] w(1) wid ok' put(2)
        e g an f'(1) mi f'(2,3)] by simp
qed

section \<open>Deciding a transaction\<close>

text \<open>What the calls in this section are given: a good store, a wallet and a transaction of it.\<close>

definition at_hand :: "service \<Rightarrow> session \<Rightarrow> bool \<Rightarrow> wager \<Rightarrow> wallet \<Rightarrow> bool" where
  "at_hand sv s fresh t w \<longleftrightarrow>
     db_inv (sv_iso sv) (s_db s) \<and> ready (sv_iso sv) (s_db s) fresh t \<and>
     wallet_row_of w \<in> set (wallets (s_db s)) \<and> wallet_ok (sv_iso sv) w \<and> wallet_id w = wt_wallet t"

lemma at_hand_db: "at_hand sv s fresh t w \<Longrightarrow> s_db s' = s_db s \<Longrightarrow> at_hand sv s' fresh t w"
  by (simp add: at_hand_def)

lemma at_hand_step:
  "at_hand sv s fresh t w \<Longrightarrow> wager_step (sv_iso sv) t t' \<Longrightarrow> at_hand sv s fresh t' w"
  using wager_step_identity [of "sv_iso sv" t t']
  by (auto simp: at_hand_def wager_identity_def intro: ready_step)

lemma reject_at_hand:
  "at_hand sv s fresh t w \<Longrightarrow> reject_tx sv t w code co ca now fresh s = Inr (t', s') \<Longrightarrow>
   db_step (sv_iso sv) (s_db s) (s_db s')"
  by (auto simp: at_hand_def dest: reject_txD)

lemma finalizeD:
  assumes h: "at_hand sv s fresh t w" and ref: "reference_ready (txns (s_db s)) t"
    and f: "finalize sv t w reference co ca now fresh s = Inr ((t', w'), s')"
  shows "db_step (sv_iso sv) (s_db s) (s_db s')"
proof (cases "movement_of (sv_iso sv) t w reference now")
  case (Inl e)
  with f h show ?thesis
    by (auto simp: finalize_def tx_bind_ok dest: reject_at_hand split: if_splits)
next
  case (Inr p)
  obtain dir before after w1 where p: "p = (dir, before, after, w1)" by (cases p) auto
  have ok: "wallet_ok (sv_iso sv) w" using h by (simp add: at_hand_def)
  note m = movement_ofD [OF Inr [unfolded p] ok]
  have st: "settle_tx sv t dir (wallet_balance w) after w1 co ca now fresh s = Inr ((t', w'), s')"
    using f Inr p m(1) by (simp add: finalize_def)
  show ?thesis
  proof (cases "wt_kind t = KindLoss")
    case False
    with m(2) obtain dr where dr: "dir = Some dr" "moves_by (sv_iso sv) w (wt_money t) now dr after"
      "w1 = wallet_apply w after now" by blast
    with st have st': "settle_tx sv t (Some dr) (wallet_balance w) after (wallet_apply w after now) co ca now
      fresh s = Inr ((t', w'), s')" by simp
    show ?thesis
      by (rule settle_txD [OF _ _ _ ok _ dr(2) False ref st']) (use h in \<open>simp_all add: at_hand_def\<close>)
  next
    case True
    with m(2) have "dir = None" by blast
    with st obtain s1 s2 where
      j: "mark_processed (sv_iso sv) t after now = Inr t'"
      and s1: "save_transaction fresh t' s = Inr ((), s1)"
      and e: "emit EventWagerTransactionProcessed (wt_id t') co ca now (processed_event t' w1 after) s1 =
        Inr ((), s')"
      by (auto simp: settle_tx_def tx_bind_ok)
    have "wt_kind t' = KindLoss" "wt_status t' = StatusProcessed"
      using j True by (auto simp: mark_processed_ok)
    then show ?thesis
      using record_announced [OF _ _ _ s1 e] h ready_step [OF _ wager_step.processed [OF j]]
      by (simp add: at_hand_def processed_event_def)
  qed
qed

lemma reference_failure_db:
  "reference_failure t reference s = Inr (code, s') \<Longrightarrow> s_db s' = s_db s"
  by (cases reference)
    (auto simp: reference_failure_def tx_bind_ok tx_if_ok dest!: successful_reversalD split: if_splits)

lemma reference_failure_none:
  "reference_failure t None s = Inr ([], s') \<Longrightarrow> \<not> reversal_kind (wt_kind t)"
  by (auto simp: reference_failure_def reversal_kind_def failure_code_defs split: if_splits)

lemma reference_failure_some:
  assumes "reference_failure t (Some r) s = Inr ([], s')"
  shows "wt_provider r = wt_provider t \<and> wt_player r = wt_player t \<and> wt_wallet r = wt_wallet t \<and>
      wt_round r = wt_round t \<and> money_currency (wt_money r) = money_currency (wt_money t)"
    and "reversal_kind (wt_kind t) \<Longrightarrow> wt_money r = wt_money t"
    and "wt_kind t = KindWin \<or> wt_kind t = KindRefund \<Longrightarrow> wt_kind r = KindBet"
    and "wt_kind t = KindRollback \<Longrightarrow> wt_kind r = KindBet \<or> wt_kind r = KindWin \<or> wt_kind r = KindRefund"
    and "reversal_kind (wt_kind t) \<Longrightarrow>
      \<not> list_ex (\<lambda>q. tr_ref_id q = Some (wt_id r) \<and> successful_reversal q) (txns (s_db s))"
  using assms
  by (cases "wt_kind t"; simp add: reference_failure_def tx_bind_ok tx_if_ok reversal_kind_def
      failure_code_defs split: if_splits; fastforce dest!: successful_reversalD split: if_splits)+

lemma reference_ready_none:
  "\<not> reversal_kind (wt_kind t) \<Longrightarrow> wt_ref_id t = [] \<Longrightarrow> reference_ready rs t"
  by (simp add: reference_ready_def reference_settled_def nullif_def)

lemma decide_noneD:
  assumes h: "at_hand sv s fresh t w" and n: "wt_ref_id t = []"
    and d: "decide_tx sv t w None co ca now fresh s = Inr (p, s')"
  shows "db_step (sv_iso sv) (s_db s) (s_db s')"
proof -
  obtain t' w' where p: "p = (t', w')" by (cases p)
  from d obtain code s1 where c: "reference_failure t None s = Inr (code, s1)"
    and r: "(if code \<noteq> [] then
        tx_bind (reject_tx sv t w code co ca now fresh) (\<lambda>t'. tx_return (t', w))
      else finalize sv t w None co ca now fresh) s1 = Inr (p, s')"
    by (auto simp: decide_tx_def tx_bind_ok)
  note db = reference_failure_db [OF c]
  note h1 = at_hand_db [OF h db]
  show ?thesis
  proof (cases "code = []")
    case True
    with c have "\<not> reversal_kind (wt_kind t)" using reference_failure_none by blast
    from reference_ready_none [OF this n] have "reference_ready (txns (s_db s1)) t" .
    from finalizeD [OF h1 this] r p True db show ?thesis by simp
  next
    case False
    with r reject_at_hand [OF h1] db show ?thesis by (auto simp: tx_bind_ok)
  qed
qed

lemma nullif_some: "x \<noteq> [] \<Longrightarrow> nullif x = Some x"
  by (simp add: nullif_def)

lemma decide_someD:
  assumes h: "at_hand sv s fresh t w"
    and r: "txn_row_of r \<in> set (txns (s_db s))" "wager_inv (sv_iso sv) r" "wt_status r = StatusProcessed"
      "wt_external r = wt_ref_external t" "wt_ref_id t = wt_id r"
    and d: "decide_tx sv t w (Some r) co ca now fresh s = Inr (p, s')"
  shows "db_step (sv_iso sv) (s_db s) (s_db s')"
proof -
  obtain t' w' where p: "p = (t', w')" by (cases p)
  from d obtain code s1 where c: "reference_failure t (Some r) s = Inr (code, s1)"
    and f: "(if code \<noteq> [] then
        tx_bind (reject_tx sv t w code co ca now fresh) (\<lambda>t'. tx_return (t', w))
      else finalize sv t w (Some r) co ca now fresh) s1 = Inr (p, s')"
    by (auto simp: decide_tx_def tx_bind_ok)
  note db = reference_failure_db [OF c]
  note h1 = at_hand_db [OF h db]
  have ne: "wt_id r \<noteq> []" "wt_external r \<noteq> []"
    using r(2) by (auto simp: wager_inv_def wager_ok_def)
  show ?thesis
  proof (cases "code = []")
    case True
    note ok = reference_failure_some [OF c [unfolded True]]
    have "reference_fits (txn_row_of t\<lparr>tr_status := StatusProcessed\<rparr>) (txn_row_of r)"
      using ok(1-4) r(3,4) ne by (simp add: reference_fits_def nullif_some)
    then have "reference_ready (txns (s_db s1)) t"
      using r(1,5) ne(1) db by (auto simp: reference_ready_def reference_settled_def nullif_some intro!: bexI)
    from finalizeD [OF h1 this] f p True db show ?thesis by simp
  next
    case False
    with f reject_at_hand [OF h1] db show ?thesis by (auto simp: tx_bind_ok)
  qed
qed

lemma resolved_txD:
  assumes h: "at_hand sv s fresh t w"
    and r: "txn_row_of r \<in> set (txns (s_db s))" "wager_inv (sv_iso sv) r" "wt_external r = wt_ref_external t"
    and d: "resolved_tx sv t w r co ca now fresh s = Inr (p, s')"
  shows "db_step (sv_iso sv) (s_db s) (s_db s')"
proof -
  from d obtain t1 where j: "resolve_reference t (wt_id r) now = Inr t1"
    and k: "(if wt_status r \<noteq> StatusProcessed then
       tx_bind (reject_tx sv t1 w FailureReferenceNotProcessed co ca now fresh)
         (\<lambda>t''. tx_return (t'', w))
     else decide_tx sv t1 w (Some r) co ca now fresh) s = Inr (p, s')"
    by (auto simp: resolved_tx_def tx_bind_ok)
  note h1 = at_hand_step [OF h wager_step.resolve [OF j]]
  have t1: "wt_ref_id t1 = wt_id r" "wt_external r = wt_ref_external t1"
    using j r(3) by (auto simp: resolve_reference_ok)
  show ?thesis
  proof (cases "wt_status r = StatusProcessed")
    case True
    with k show ?thesis using decide_someD [OF h1 r(1,2) True t1(2,1)] by simp
  next
    case False
    with k reject_at_hand [OF h1] show ?thesis by (auto simp: tx_bind_ok)
  qed
qed

section \<open>The use cases\<close>

text \<open>A reference read by its external identifier, unless it is missing or pending.\<close>

lemma stored_reference:
  assumes inv: "db_inv iso4217 (s_db s)" and f: "find_by_external_id iso4217 p x s = Inr (v, s')"
    and n: "\<not> reference_is_pending v"
  shows "s_db s' = s_db s" and "txn_row_of (the v) \<in> set (txns (s_db s))"
    and "wager_inv iso4217 (the v)" and "wt_external (the v) = x" and "wt_status (the v) \<noteq> StatusPendingReference"
proof -
  from find_by_external_idD [OF f] have db: "s_db s' = s_db s"
    and sc: "scan_optional iso4217 (find_by_external p x (s_db s)) = Inr v" by auto
  from n obtain r where v: "v = Some r" "wt_status r \<noteq> StatusPendingReference"
    by (auto simp: reference_is_pending_def split: option.splits)
  from find_by_external_wager [OF inv sc [unfolded v(1)]] v db
  show "s_db s' = s_db s" "txn_row_of (the v) \<in> set (txns (s_db s))"
    "wager_inv iso4217 (the v)" "wt_external (the v) = x" "wt_status (the v) \<noteq> StatusPendingReference"
    by simp_all
qed

lemma record_newD:
  assumes h: "at_hand sv s True t w" and t: "wt_ref_id t = []" "wt_ref_external t = cmd_ref_external cmd"
    and d: "record_new sv cmd t w co ca now s = Inr (p, s')"
  shows "db_step (sv_iso sv) (s_db s) (s_db s')"
proof -
  have inv: "db_inv (sv_iso sv) (s_db s)" using h by (simp add: at_hand_def)
  consider
    (mismatch) "wallet_player w \<noteq> cmd_player cmd \<or>
         money_currency (wallet_balance w) \<noteq> money_currency (cmd_money cmd)"
  | (reference) "\<not> (wallet_player w \<noteq> cmd_player cmd \<or>
         money_currency (wallet_balance w) \<noteq> money_currency (cmd_money cmd))" "cmd_ref_external cmd \<noteq> []"
  | (plain) "\<not> (wallet_player w \<noteq> cmd_player cmd \<or>
         money_currency (wallet_balance w) \<noteq> money_currency (cmd_money cmd))" "cmd_ref_external cmd = []"
    by blast
  then show ?thesis
  proof cases
    case mismatch
    with d have "tx_bind (reject_tx sv t w FailureWalletOwnershipOrCurrencyMismatch co ca now True)
        (\<lambda>t'. tx_return (t', w)) s = Inr (p, s')" by (simp add: record_new_def)
    with reject_at_hand [OF h] show ?thesis by (auto simp: tx_bind_ok)
  next
    case plain
    with d have "decide_tx sv t w None co ca now True s = Inr (p, s')" by (simp add: record_new_def)
    then show ?thesis by (rule decide_noneD [OF h t(1)])
  next
    case reference
    with d obtain v s1 where f: "find_by_external_id (sv_iso sv) (cmd_provider cmd) (cmd_ref_external cmd) s = Inr (v, s1)"
      and k: "(if reference_is_pending v then
            tx_bind (tx_lift (mark_pending_reference t
              (time_add now (service_backoff sv (wt_attempts t + 1))) now)) (\<lambda>t'.
            tx_bind (insert_transaction t') (\<lambda>_.
            tx_bind (pending_event t' co ca now) (\<lambda>_.
            tx_return (t', w))))
          else resolved_tx sv t w (the v) co ca now True) s1 = Inr (p, s')"
      by (auto simp: record_new_def tx_bind_ok)
    have db: "s_db s1 = s_db s" using find_by_external_idD [OF f] by simp
    note h1 = at_hand_db [OF h db]
    show ?thesis
    proof (cases "reference_is_pending v")
      case True
      with k obtain t1 s2 where
        j: "mark_pending_reference t (time_add now (service_backoff sv (wt_attempts t + 1))) now = Inr t1"
        and i: "insert_transaction t1 s1 = Inr ((), s2)" and e: "pending_event t1 co ca now s2 = Inr ((), s')"
        by (auto simp: tx_bind_ok)
      have "wt_status t1 = StatusPendingReference" using j by (auto simp: mark_pending_reference_ok)
      moreover have "save_transaction True t1 s1 = Inr ((), s2)" using i by (simp add: save_transaction_def)
      moreover have "ready (sv_iso sv) (s_db s1) True t1"
        using at_hand_step [OF h1 wager_step.pend [OF j]] by (simp add: at_hand_def)
      ultimately show ?thesis
        using record_announced [of "sv_iso sv" s1 True t1 "()" s2 _ co ca now] e inv db
        by (simp add: pending_event_def)
    next
      case False
      note r = stored_reference [OF inv f False]
      from False k have "resolved_tx sv t w (the v) co ca now True s1 = Inr (p, s')" by simp
      with resolved_txD [OF h1 _ r(3)] r t(2) db show ?thesis by simp
    qed
  qed
qed

lemma inbox_run: "inbox_only d d' \<Longrightarrow> (db_step iso4217)\<^sup>*\<^sup>* d d'"
  by (blast intro: db_step.inbox)

lemma replay_resultD:
  assumes "replay_result sv t s = Inr (p, s')" shows "s_db s' = s_db s"
  using assms by (auto simp: replay_result_def tx_bind_ok dest!: lock_walletD split: option.splits)

lemma process_unclaimedD:
  assumes inv: "db_inv (sv_iso sv) (s_db s)"
    and p: "process_unclaimed sv cmd co ca now s = Inr (res, s')"
  shows "(db_step (sv_iso sv))\<^sup>*\<^sup>* (s_db s) (s_db s')"
proof -
  from p obtain s1 s2 v where
    s1: "s_db s1 = s_db s" and f: "find_by_idempotency (sv_iso sv) (cmd_provider cmd) (cmd_key cmd) s1 = Inr (v, s2)"
    and k: "(case v of
       Some t \<Rightarrow>
         if wt_hash t \<noteq> wager_payload_hash sv cmd then tx_fail ErrIdempotencyPayloadConflict
         else tx_bind (replay_result sv t) (\<lambda>result.
              tx_bind (complete_inbox_if (cmd_inbox cmd) now) (\<lambda>_. tx_return result))
     | None \<Rightarrow>
         tx_bind (find_by_external_id (sv_iso sv) (cmd_provider cmd) (cmd_external cmd))
           (\<lambda>byExternal.
         if byExternal \<noteq> None then tx_fail ErrExternalTransactionConflict
         else tx_bind (lock_wallet (sv_iso sv) (cmd_wallet cmd)) (\<lambda>w.
           tx_bind new_uuid (\<lambda>tid.
           tx_bind (tx_lift (new_wager_transaction (sv_iso sv)
             (external_of_command sv cmd tid now))) (\<lambda>t.
           tx_bind (record_new sv cmd t w co ca now) (\<lambda>(t', w').
           tx_bind (complete_inbox_if (cmd_inbox cmd) now) (\<lambda>_.
           tx_return (result_from t' (wallet_balance w') False)))))))) s2 = Inr (res, s')"
    unfolding process_unclaimed_def tx_bind_ok by (blast dest: acquire_lockD)
  have db2: "s_db s2 = s_db s" using find_by_idempotencyD [OF f] s1 by simp
  show ?thesis
  proof (cases v)
    case (Some t)
    with k obtain s3 where "replay_result sv t s2 = Inr (res, s3)"
      "complete_inbox_if (cmd_inbox cmd) now s3 = Inr ((), s')"
      by (auto simp: tx_bind_ok split: if_splits)
    with replay_resultD complete_inbox_ifD db2 have "inbox_only (s_db s) (s_db s')" by metis
    then show ?thesis by (rule inbox_run)
  next
    case None
    with k obtain s3 s4 s5 s6 w tid t t' w' where
      s3: "s_db s3 = s_db s2" and w: "lock_wallet (sv_iso sv) (cmd_wallet cmd) s3 = Inr (w, s4)"
      and u: "new_uuid s4 = Inr (tid, s5)"
      and t: "new_wager_transaction (sv_iso sv) (external_of_command sv cmd tid now) = Inr t"
      and r: "record_new sv cmd t w co ca now s5 = Inr ((t', w'), s6)"
      and c: "complete_inbox_if (cmd_inbox cmd) now s6 = Inr ((), s')"
      by (auto simp: tx_bind_ok dest!: find_by_external_idD split: if_splits)
    note lw = lock_walletD [OF w]
    have db5: "s_db s5 = s_db s" using new_uuidD [OF u] lw s3 db2 by simp
    have tw: "wt_wallet t = cmd_wallet cmd" "wt_ref_id t = []" "wt_ref_external t = cmd_ref_external cmd"
      using t by (auto simp: new_wager_ok_iff external_of_command_def)
    have "at_hand sv s5 True t w"
      using inv new_wager_inv [OF t] lw tw(1) s3 db2 db5 by (simp add: at_hand_def ready_def)
    from record_newD [OF this tw(2,3) r] have "db_step (sv_iso sv) (s_db s) (s_db s6)"
      by (simp add: db5)
    from converse_rtranclp_into_rtranclp [OF this inbox_run [OF complete_inbox_ifD [OF c]]]
    show ?thesis .
  qed
qed

lemma process_txD:
  assumes inv: "db_inv (sv_iso sv) (s_db s)"
    and p: "process_tx sv cmd co ca now s = Inr (res, s')"
  shows "(db_step (sv_iso sv))\<^sup>*\<^sup>* (s_db s) (s_db s')"
proof (cases "cmd_inbox cmd")
  case None
  with p show ?thesis using process_unclaimedD [OF inv] by (simp add: process_tx_def)
next
  case (Some i)
  with p obtain disposition s1 where c: "claim_inbox i now s = Inr (disposition, s1)"
    and k: "(if disposition = InboxAlreadyCompleted then
            tx_bind (find_by_idempotency (sv_iso sv) (cmd_provider cmd) (cmd_key cmd)) (\<lambda>existing.
            case existing of
              None \<Rightarrow> tx_fail ErrInboxPayloadConflict
            | Some t \<Rightarrow>
                if wt_hash t \<noteq> wager_payload_hash sv cmd then tx_fail ErrInboxPayloadConflict
                else replay_result sv t)
          else process_unclaimed sv cmd co ca now) s1 = Inr (res, s')"
    unfolding process_tx_def by (auto simp: tx_bind_ok)
  note i1 = claim_inboxD [OF c]
  have inv1: "db_inv (sv_iso sv) (s_db s1)"
    using db_step_sound [OF db_step.inbox [OF i1]] inv by blast
  show ?thesis
  proof (cases "disposition = InboxAlreadyCompleted")
    case True
    with k obtain v s2 where "find_by_idempotency (sv_iso sv) (cmd_provider cmd) (cmd_key cmd) s1 = Inr (v, s2)"
      and m: "(case v of
              None \<Rightarrow> tx_fail ErrInboxPayloadConflict
            | Some t \<Rightarrow>
                if wt_hash t \<noteq> wager_payload_hash sv cmd then tx_fail ErrInboxPayloadConflict
                else replay_result sv t) s2 = Inr (res, s')"
      by (simp add: tx_bind_ok) blast
    from this(1) have "s_db s2 = s_db s1" by (auto dest: find_by_idempotencyD)
    moreover from m have "s_db s' = s_db s2"
      by (cases v) (auto dest: replay_resultD split: if_splits)
    ultimately have "s_db s' = s_db s1" by simp
    with inbox_run [OF i1] show ?thesis by simp
  next
    case False
    with k have "process_unclaimed sv cmd co ca now s1 = Inr (res, s')" by simp
    from rtranclp_trans [OF inbox_run [OF i1] process_unclaimedD [OF inv1 this]] show ?thesis .
  qed
qed

lemma within_transaction_run:
  assumes "within_transaction c n fn d = (res, d')"
    and "\<And>s x s'. s_db s = d \<Longrightarrow> fn s = Inr (x, s') \<Longrightarrow> (db_step iso4217)\<^sup>*\<^sup>* d (s_db s')"
  shows "(db_step iso4217)\<^sup>*\<^sup>* d d'"
proof -
  have "fn \<lparr>s_db = d, s_ids = c_ids c, s_drawn = n, s_fault = map_option (\<lambda>k. k - 1) (c_fault c)\<rparr> =
      Inr (x, s') \<Longrightarrow> (db_step iso4217)\<^sup>*\<^sup>* d (s_db s')" for x s'
    by (rule assms(2)) simp_all
  then show ?thesis
    using assms(1) by (auto simp: within_transaction_def exec_def split: sum.splits prod.splits if_splits)
qed

lemma process_run:
  assumes "db_inv (sv_iso sv) d" and "process sv c cmd d = (res, d')"
  shows "(db_step (sv_iso sv))\<^sup>*\<^sup>* d d'"
proof (cases "sv_valid sv cmd")
  case False
  with assms(2) show ?thesis by (simp add: process_def)
next
  case True
  with assms(2) obtain n co ca where "within_transaction c n (process_tx sv cmd co ca (c_now c)) d = (res, d')"
    by (auto simp: process_def Let_def)
  then show ?thesis
    by (rule within_transaction_run) (use process_txD assms(1) in blast)
qed

lemma ready_amended:
  "txn_row_of t \<in> set (txns d) \<Longrightarrow> wager_inv iso4217 t \<Longrightarrow> wt_status t = StatusPendingReference \<Longrightarrow>
   ready iso4217 d False t"
  by (auto simp: ready_def amends_def)

lemma defer_step:
  assumes inv: "db_inv iso4217 (s_db s)" and r: "ready iso4217 (s_db s) False t"
    and j: "mark_pending_reference t nextAt now = Inr t'" and u: "update_transaction t' s = Inr (v, s')"
  shows "db_step iso4217 (s_db s) (s_db s')"
proof -
  have "save_transaction False t' s = Inr (v, s')" using u by (simp add: save_transaction_def)
  from save_transactionD [OF db_invD(6) [OF inv] ready_step [OF r wager_step.pend [OF j]] this]
  obtain rs where "written iso4217 (s_db s) t' rs" "s_db s' = s_db s\<lparr>txns := rs\<rparr>" by blast
  moreover have "wt_status t' = StatusPendingReference" using j by (auto simp: mark_pending_reference_ok)
  ultimately show ?thesis using db_step.defer_txn by metis
qed

lemma locked_pending:
  assumes inv: "db_inv (sv_iso sv) (s_db s)" and l: "lock_transaction (sv_iso sv) tid s = Inr (t, s1)"
    and st: "wt_status t = StatusPendingReference"
    and w: "lock_wallet (sv_iso sv) (wt_wallet t) s1 = Inr (w, s2)"
  shows "s_db s1 = s_db s" and "s_db s2 = s_db s" and "at_hand sv s2 False t w"
proof -
  note t = lock_transaction_wager [OF inv l]
  note lw = lock_walletD [OF w]
  show db: "s_db s1 = s_db s" "s_db s2 = s_db s" using t(1) lw by simp_all
  show "at_hand sv s2 False t w"
    using t(2) [OF st] lw inv st ready_amended [of t "s_db s" "sv_iso sv"] db by (simp add: at_hand_def)
qed

lemma resolve_pending_txD:
  assumes inv: "db_inv (sv_iso sv) (s_db s)" and p: "resolve_pending_tx sv tid now s = Inr (u, s')"
  shows "(db_step (sv_iso sv))\<^sup>*\<^sup>* (s_db s) (s_db s')"
proof -
  from p obtain t s1 where l: "lock_transaction (sv_iso sv) tid s = Inr (t, s1)"
    and k: "(if wt_status t \<noteq> StatusPendingReference then tx_return ()
     else
       tx_bind (lock_wallet (sv_iso sv) (wt_wallet t)) (\<lambda>w.
       tx_bind (find_by_external_id (sv_iso sv) (wt_provider t) (wt_ref_external t)) (\<lambda>reference.
       if reference_is_pending reference then
         if sv_max_attempts sv \<le> wt_attempts t then
           tx_bind (reject_tx sv t w FailureReferenceNotFound (wt_id t) [] now False)
             (\<lambda>_. tx_return ())
         else
           tx_bind (tx_lift (mark_pending_reference t
             (time_add now (service_backoff sv (wt_attempts t + 1))) now)) (\<lambda>t'.
           update_transaction t')
       else
         tx_bind (resolved_tx sv t w (the reference) (wt_id t) [] now False)
           (\<lambda>_. tx_return ())))) s1 = Inr (u, s')"
    unfolding resolve_pending_tx_def tx_bind_ok by blast
  show ?thesis
  proof (cases "wt_status t = StatusPendingReference")
    case False
    with k l show ?thesis by (auto dest: lock_transactionD)
  next
    case True
    with k obtain w s2 v s3 where w: "lock_wallet (sv_iso sv) (wt_wallet t) s1 = Inr (w, s2)"
      and f: "find_by_external_id (sv_iso sv) (wt_provider t) (wt_ref_external t) s2 = Inr (v, s3)"
      and m: "(if reference_is_pending v then
         if sv_max_attempts sv \<le> wt_attempts t then
           tx_bind (reject_tx sv t w FailureReferenceNotFound (wt_id t) [] now False)
             (\<lambda>_. tx_return ())
         else
           tx_bind (tx_lift (mark_pending_reference t
             (time_add now (service_backoff sv (wt_attempts t + 1))) now)) (\<lambda>t'.
           update_transaction t')
       else
         tx_bind (resolved_tx sv t w (the v) (wt_id t) [] now False)
           (\<lambda>_. tx_return ())) s3 = Inr (u, s')"
      by (simp add: tx_bind_ok) blast
    note L = locked_pending [OF inv l True w]
    have db3: "s_db s3 = s_db s2" using find_by_external_idD [OF f] by simp
    note h = at_hand_db [OF L(3) db3]
    have inv3: "db_inv (sv_iso sv) (s_db s3)" and r3: "ready (sv_iso sv) (s_db s3) False t"
      using h by (simp_all add: at_hand_def)
    have "db_step (sv_iso sv) (s_db s3) (s_db s')"
    proof (cases "reference_is_pending v")
      case True
      with m reject_at_hand [OF h] defer_step [OF inv3 r3] show ?thesis
        by (auto simp: tx_bind_ok split: if_splits)
    next
      case False
      have inv2: "db_inv (sv_iso sv) (s_db s2)" using L(3) by (simp add: at_hand_def)
      note r = stored_reference [OF inv2 f False]
      from False m obtain x where "resolved_tx sv t w (the v) (wt_id t) [] now False s3 = Inr (x, s')"
        by (auto simp: tx_bind_ok)
      with resolved_txD [OF h _ r(3,4)] r(2) db3 show ?thesis by simp
    qed
    then show ?thesis using L(2) db3 by auto
  qed
qed

lemma record_failure_txD:
  assumes inv: "db_inv (sv_iso sv) (s_db s)" and p: "record_failure_tx sv tid now s = Inr (u, s')"
  shows "(db_step (sv_iso sv))\<^sup>*\<^sup>* (s_db s) (s_db s')"
proof -
  from p obtain t s1 where l: "lock_transaction (sv_iso sv) tid s = Inr (t, s1)"
    and k: "(if wt_status t \<noteq> StatusPendingReference then tx_return ()
     else
       tx_bind (lock_wallet (sv_iso sv) (wt_wallet t)) (\<lambda>w.
       if wt_attempts t < sv_max_attempts sv then
         tx_bind (tx_lift (mark_pending_reference t
           (time_add now (service_backoff sv (wt_attempts t + 1))) now)) (\<lambda>t'.
         update_transaction t')
       else
         tx_bind (tx_lift (fail_wager (sv_iso sv) t FailureProcessingAttemptsExhausted
           (wallet_balance w) now)) (\<lambda>t'.
         tx_bind (update_transaction t') (\<lambda>_.
         emit EventWagerTransactionFailed (wt_id t') (wt_id t') [] now
           (FailedData \<lparr>od_transaction = wt_id t', od_external = wt_external t',
              od_provider = wt_provider t', od_wallet = wt_wallet t', od_kind = wt_kind t',
              od_status = wt_status t', od_failure = wt_failure t',
              od_balance = view_money (wallet_balance w)\<rparr>))))) s1 = Inr (u, s')"
    unfolding record_failure_tx_def tx_bind_ok by blast
  show ?thesis
  proof (cases "wt_status t = StatusPendingReference")
    case False
    with k l show ?thesis by (auto dest: lock_transactionD)
  next
    case True
    with k obtain w s2 where w: "lock_wallet (sv_iso sv) (wt_wallet t) s1 = Inr (w, s2)"
      and m: "(if wt_attempts t < sv_max_attempts sv then
         tx_bind (tx_lift (mark_pending_reference t
           (time_add now (service_backoff sv (wt_attempts t + 1))) now)) (\<lambda>t'.
         update_transaction t')
       else
         tx_bind (tx_lift (fail_wager (sv_iso sv) t FailureProcessingAttemptsExhausted
           (wallet_balance w) now)) (\<lambda>t'.
         tx_bind (update_transaction t') (\<lambda>_.
         emit EventWagerTransactionFailed (wt_id t') (wt_id t') [] now
           (FailedData \<lparr>od_transaction = wt_id t', od_external = wt_external t',
              od_provider = wt_provider t', od_wallet = wt_wallet t', od_kind = wt_kind t',
              od_status = wt_status t', od_failure = wt_failure t',
              od_balance = view_money (wallet_balance w)\<rparr>)))) s2 = Inr (u, s')"
      by (simp add: tx_bind_ok) blast
    note L = locked_pending [OF inv l True w]
    have inv2: "db_inv (sv_iso sv) (s_db s2)" and r2: "ready (sv_iso sv) (s_db s2) False t"
      using L(3) by (simp_all add: at_hand_def)
    have "db_step (sv_iso sv) (s_db s2) (s_db s')"
    proof (cases "wt_attempts t < sv_max_attempts sv")
      case True
      with m defer_step [OF inv2 r2] show ?thesis by (auto simp: tx_bind_ok)
    next
      case False
      with m obtain t1 s3 where
        j: "fail_wager (sv_iso sv) t FailureProcessingAttemptsExhausted (wallet_balance w) now = Inr t1"
        and s3: "save_transaction False t1 s2 = Inr ((), s3)"
        and e: "emit EventWagerTransactionFailed (wt_id t1) (wt_id t1) [] now
           (FailedData \<lparr>od_transaction = wt_id t1, od_external = wt_external t1,
              od_provider = wt_provider t1, od_wallet = wt_wallet t1, od_kind = wt_kind t1,
              od_status = wt_status t1, od_failure = wt_failure t1,
              od_balance = view_money (wallet_balance w)\<rparr>) s3 = Inr (u, s')"
        by (auto simp: tx_bind_ok save_transaction_def)
      have "wt_status t1 = StatusFailed" using j by (auto simp: fail_wager_ok)
      then show ?thesis
        using record_announced [OF inv2 ready_step [OF r2 wager_step.failed [OF j]] _ s3 e] by simp
    qed
    then show ?thesis using L(2) by auto
  qed
qed

lemma resolve_run:
  assumes "db_inv (sv_iso sv) d" and "resolve_pending_reference sv c tid d = (res, d')"
  shows "(db_step (sv_iso sv))\<^sup>*\<^sup>* d d'"
  by (rule within_transaction_run [OF assms(2) [unfolded resolve_pending_reference_def]])
    (use resolve_pending_txD assms(1) in blast)

lemma record_failure_run:
  assumes "db_inv (sv_iso sv) d" and "record_pending_reference_failure sv c tid d = (res, d')"
  shows "(db_step (sv_iso sv))\<^sup>*\<^sup>* d d'"
  by (rule within_transaction_run [OF assms(2) [unfolded record_pending_reference_failure_def]])
    (use record_failure_txD assms(1) in blast)

end
