(* ===== verification/WalletService.thy ===== *)
theory WalletService
  imports Settlement
begin

text \<open>
  \<open>WalletService\<close> (\<open>internal/application/wallet_service.go\<close>: \<open>Create\<close>, \<open>Get\<close>,
  \<open>Reconcile\<close>) and \<open>QueryService\<close> (\<open>query_service.go\<close>), with the refinement of
  \<open>Create\<close> and what a reconciliation reports of a good store.
\<close>

section \<open>Create\<close>

definition opening_event :: "string \<Rightarrow> wallet \<Rightarrow> money \<Rightarrow> event_data" where
  "opening_event tid w amount =
     ProcessedData \<lparr>pd_transaction = tid, pd_external = [], pd_provider = [],
       pd_wallet = wallet_id w, pd_player = wallet_player w, pd_round = [], pd_game = [],
       pd_kind = KindOpening, pd_money = view_money amount, pd_status = StatusProcessed,
       pd_balance = view_money amount, pd_ref_id = [], pd_ref_external = []\<rparr>"

definition opening_change :: "string \<Rightarrow> wallet \<Rightarrow> money \<Rightarrow> money \<Rightarrow> event_data" where
  "opening_change tid w amount zero =
     BalanceChangedData \<lparr>cd_wallet = wallet_id w, cd_transaction = tid,
       cd_direction = DirectionCredit, cd_money = view_money amount,
       cd_before = view_money zero, cd_after = view_money amount,
       cd_version = wallet_version w\<rparr>"

definition create_tx :: "service \<Rightarrow> wallet \<Rightarrow> money \<Rightarrow> string \<Rightarrow> time \<Rightarrow> unit tx" where
  "create_tx sv w initial correlation now =
     tx_bind (insert_wallet w) (\<lambda>_.
     if is_zero initial then tx_return ()
     else
       tx_bind new_uuid (\<lambda>tid.
       tx_bind (insert_opening tid w initial now) (\<lambda>_.
       tx_bind (tx_lift (zero_money (sv_iso sv) (money_currency initial))) (\<lambda>zero.
       tx_bind new_uuid (\<lambda>lid.
       tx_bind (tx_lift (new_ledger_entry (sv_iso sv) lid (wallet_id w) tid DirectionCredit
         initial zero initial now)) (\<lambda>entry.
       tx_bind (insert_ledger entry) (\<lambda>_.
       tx_bind new_uuid (\<lambda>pid.
       tx_bind new_uuid (\<lambda>cid.
       tx_bind (insert_outbox (new_event pid EventWagerTransactionProcessed tid correlation []
         now (opening_event tid w initial))) (\<lambda>_.
       insert_outbox (new_event cid EventWalletBalanceChanged (wallet_id w) correlation tid
         now (opening_change tid w initial zero))))))))))))"

definition create :: "service \<Rightarrow> call \<Rightarrow> wallet_command \<Rightarrow> db \<Rightarrow> wallet_view res \<times> db" where
  "create sv c cmd d =
     (if \<not> sv_valid_wallet sv cmd \<or> is_negative (wc_initial cmd) then (Inl ErrInvalidWallet, d)
      else case new_wallet (sv_iso sv) (c_ids c 0) (wc_player cmd) (wc_initial cmd) (c_now c) of
        Inl e \<Rightarrow> (Inl e, d)
      | Inr w \<Rightarrow>
          let generated = (wc_correlation cmd = []);
              correlation = (if generated then c_ids c 1 else wc_correlation cmd)
          in (case within_transaction c (if generated then 2 else 1)
                (create_tx sv w (wc_initial cmd) correlation (c_now c)) d of
                (Inl e, d') \<Rightarrow> (Inl e, d')
              | (Inr _, d') \<Rightarrow> (Inr (wallet_view_of w), d')))"

section \<open>Reads\<close>

definition get_wallet :: "(string \<Rightarrow> bool) \<Rightarrow> string \<Rightarrow> db \<Rightarrow> wallet res" where
  "get_wallet iso4217 wid d =
     (case find_wallet wid d of None \<Rightarrow> Inl ErrNotFound | Some r \<Rightarrow> scan_wallet iso4217 r)"

definition get_transaction :: "(string \<Rightarrow> bool) \<Rightarrow> string \<Rightarrow> db \<Rightarrow> wager res" where
  "get_transaction iso4217 tid d =
     (case find_txn tid d of None \<Rightarrow> Inl ErrNotFound | Some r \<Rightarrow> scan_transaction iso4217 r)"

definition get_provider_transaction ::
    "(string \<Rightarrow> bool) \<Rightarrow> string \<Rightarrow> string \<Rightarrow> db \<Rightarrow> wager res" where
  "get_provider_transaction iso4217 provider ext d =
     (case find_by_external provider ext d of
        None \<Rightarrow> Inl ErrNotFound
      | Some r \<Rightarrow> scan_transaction iso4217 r)"

definition get :: "service \<Rightarrow> string \<Rightarrow> db \<Rightarrow> wallet_view res" where
  "get sv wid d = res_bind (get_wallet (sv_iso sv) wid d) (\<lambda>w. Inr (wallet_view_of w))"

definition query_transaction :: "service \<Rightarrow> string \<Rightarrow> db \<Rightarrow> transaction_view res" where
  "query_transaction sv tid d =
     res_bind (get_transaction (sv_iso sv) tid d) (\<lambda>t. Inr (transaction_view_of t))"

definition query_provider_transaction ::
    "service \<Rightarrow> string \<Rightarrow> string \<Rightarrow> db \<Rightarrow> transaction_view res" where
  "query_provider_transaction sv provider ext d =
     res_bind (get_provider_transaction (sv_iso sv) provider ext d)
       (\<lambda>t. Inr (transaction_view_of t))"

text \<open>\<open>WithinReadOnlyTransaction\<close>: the tables are a snapshot and stay as they are.\<close>

definition within_read_only :: "call \<Rightarrow> 'a tx \<Rightarrow> db \<Rightarrow> 'a res" where
  "within_read_only c fn d = fst (within_transaction c 0 fn d)"

definition reconcile_tx :: "service \<Rightarrow> string \<Rightarrow> reconciliation_view tx" where
  "reconcile_tx sv wid =
     tx_bind (read_wallet (sv_iso sv) wid) (\<lambda>w.
     tx_bind (sum_ledger wid (money_currency (wallet_balance w))) (\<lambda>(credits, debits, n).
     tx_bind (tx_lift (new_money_from_minor (sv_iso sv) (credits - debits)
       (money_currency (wallet_balance w)))) (\<lambda>calculated.
     tx_bind (tx_lift (money_subtract (sv_iso sv) (wallet_balance w) calculated)) (\<lambda>difference.
     tx_return \<lparr>rv_wallet = wallet_id w, rv_stored = view_money (wallet_balance w),
       rv_calculated = view_money calculated, rv_difference = view_money difference,
       rv_consistent = is_zero difference, rv_entries = n\<rparr>))))"

definition reconcile :: "service \<Rightarrow> call \<Rightarrow> string \<Rightarrow> db \<Rightarrow> reconciliation_view res" where
  "reconcile sv c wid d = within_read_only c (reconcile_tx sv wid) d"

section \<open>Create makes one step\<close>

lemma insert_openingD:
  "insert_opening tid w m now s = Inr (u, s') \<Longrightarrow>
     txn_guards (s_db s) (txns (s_db s)) (opening_row tid w m now) = Inr () \<and>
     s_db s' = s_db s\<lparr>txns := txns (s_db s) @ [opening_row tid w m now]\<rparr>"
  by (auto simp: insert_opening_def dest: insert_txn_rowD)

lemma opening_announces:
  "announces (new_event eid EventWagerTransactionProcessed tid co ca now (opening_event tid w m))
     tid StatusProcessed"
  by (rule announces_new_event) (simp_all add: opening_event_def)

lemma opening_mirrors:
  assumes "new_ledger_entry iso4217 lid (wallet_id w) tid DirectionCredit m zero m now = Inr e"
  shows "mirrors (new_event eid EventWalletBalanceChanged (wallet_id w) co ca now
    (opening_change tid w m zero)) (ledger_row_of e)"
  using entry_row [OF assms]
  by (simp add: mirrors_def event_change_def opening_change_def ledger_change_def Let_def money_eta_cur)

lemma create_txD:
  assumes inv: "db_inv (sv_iso sv) (s_db s)" and w: "wallet_ok (sv_iso sv) w" "wallet_balance w = initial"
    and c: "create_tx sv w initial co now s = Inr (u, s')"
  shows "db_step (sv_iso sv) (s_db s) (s_db s')"
proof -
  from c obtain s1 where i: "insert_wallet w s = Inr ((), s1)"
    and k: "(if is_zero initial then tx_return ()
     else
       tx_bind new_uuid (\<lambda>tid.
       tx_bind (insert_opening tid w initial now) (\<lambda>_.
       tx_bind (tx_lift (zero_money (sv_iso sv) (money_currency initial))) (\<lambda>zero.
       tx_bind new_uuid (\<lambda>lid.
       tx_bind (tx_lift (new_ledger_entry (sv_iso sv) lid (wallet_id w) tid DirectionCredit
         initial zero initial now)) (\<lambda>entry.
       tx_bind (insert_ledger entry) (\<lambda>_.
       tx_bind new_uuid (\<lambda>pid.
       tx_bind new_uuid (\<lambda>cid.
       tx_bind (insert_outbox (new_event pid EventWagerTransactionProcessed tid co []
         now (opening_event tid w initial))) (\<lambda>_.
       insert_outbox (new_event cid EventWalletBalanceChanged (wallet_id w) co tid
         now (opening_change tid w initial zero)))))))))))) s1 = Inr (u, s')"
    by (auto simp: create_tx_def tx_bind_ok)
  from insert_walletD [OF i] have un: "wallet_unique (wallets (s_db s)) (wallet_row_of w)"
    and d1: "s_db s1 = s_db s\<lparr>wallets := wallets (s_db s) @ [wallet_row_of w]\<rparr>" by auto
  show ?thesis
  proof (cases "is_zero initial")
    case True
    with k db_step.open_empty [OF w(1) _ un] w(2) d1 show ?thesis by simp
  next
    case False
    with k obtain tid s2 s3 zero lid s4 e s5 pid s6 cid s7 s8 where
      u1: "s_db s2 = s_db s1" and o: "insert_opening tid w initial now s2 = Inr ((), s3)"
      and z: "zero_money (sv_iso sv) (money_currency initial) = Inr zero"
      and u2: "s_db s4 = s_db s3"
      and e: "new_ledger_entry (sv_iso sv) lid (wallet_id w) tid DirectionCredit initial zero initial now = Inr e"
      and l: "insert_ledger e s4 = Inr ((), s5)"
      and u3: "s_db s7 = s_db s5"
      and p: "insert_outbox (new_event pid EventWagerTransactionProcessed tid co []
         now (opening_event tid w initial)) s7 = Inr ((), s8)"
      and c: "insert_outbox (new_event cid EventWalletBalanceChanged (wallet_id w) co tid
         now (opening_change tid w initial zero)) s8 = Inr (u, s')"
      by (auto simp: tx_bind_ok dest!: new_uuidD)
    note O = insert_openingD [OF o]
    note L = insert_ledgerD [OF l]
    have r: "txn_unique (txns (s_db s)) (opening_row tid w initial now)"
      using O u1 d1 by (simp add: txn_guards_ok)
    let ?ev = "new_event pid EventWagerTransactionProcessed tid co [] now (opening_event tid w initial)"
    let ?ev' = "new_event cid EventWalletBalanceChanged (wallet_id w) co tid now (opening_change tid w initial zero)"
    note P = insert_outboxD [OF p] and C = insert_outboxD [OF c]
    have f: "event_fresh (s_db s) ?ev" "event_fresh (s_db s) ?ev'" "oe_id ?ev \<noteq> oe_id ?ev'"
      using P C u3 L u2 O u1 d1 by (auto simp: event_fresh_def outbox_row_of_def)
    have d': "s_db s' = s_db s\<lparr>wallets := wallets (s_db s) @ [wallet_row_of w],
         txns := txns (s_db s) @ [opening_row tid w initial now],
         ledger := ledger (s_db s) @ [ledger_row_of e],
         outbox := outbox (s_db s) @ [outbox_row_of ?ev, outbox_row_of ?ev']\<rparr>"
      using P C u3 L u2 O u1 d1 by simp
    show ?thesis
      unfolding d'
      using db_step.open_funded [OF w(1) un _ refl _ _ _ opening_announces f(1) opening_mirrors [OF e] f(2,3)]
        z e L r w(2) by simp
  qed
qed

lemma create_run:
  assumes "db_inv (sv_iso sv) d" and "create sv c cmd d = (res, d')"
  shows "(db_step (sv_iso sv))\<^sup>*\<^sup>* d d'"
proof (cases "\<not> sv_valid_wallet sv cmd \<or> is_negative (wc_initial cmd)")
  case True
  with assms(2) show ?thesis by (auto simp: create_def)
next
  case False
  show ?thesis
  proof (cases "new_wallet (sv_iso sv) (c_ids c 0) (wc_player cmd) (wc_initial cmd) (c_now c)")
    case (Inl e)
    with False assms(2) show ?thesis by (simp add: create_def)
  next
    case (Inr w)
    with False assms(2) obtain n co r where
      "within_transaction c n (create_tx sv w (wc_initial cmd) co (c_now c)) d = (r, d')"
      by (auto simp: create_def Let_def split: prod.splits sum.splits)
    moreover have "wallet_ok (sv_iso sv) w" "wallet_balance w = wc_initial cmd"
      using Inr new_wallet_wallet_ok by (auto simp: new_wallet_ok)
    ultimately show ?thesis
      using create_txD assms(1) by (blast intro: within_transaction_run)
  qed
qed

end
