(* ===== verification/Outbox.thy ===== *)
theory Outbox
  imports WalletService "HOL-Library.List_Lexorder" "HOL-Library.Char_ord" "HOL-Library.Product_Lexorder"
begin

text \<open>
  The transactional outbox: the statements of \<open>store.go\<close> that lease, confirm and release
  stored events, and a pass of \<open>publishOutbox\<close> (\<open>messaging/outbox_worker.go\<close>) over
  what it leased, with the messages the queue has accepted.
\<close>

section \<open>Statements\<close>

record claimed_event =
  ce_event :: outbox_event
  ce_attempts :: int

text \<open>\<open>ORDER BY occurred_at, event_id\<close>; the text of a \<open>uuid\<close> orders as its bytes.\<close>

definition claim_key :: "outbox_row \<Rightarrow> time \<times> string" where
  "claim_key r = (oe_occurred (or_event r), oe_id (or_event r))"

definition claimable :: "time \<Rightarrow> outbox_row \<Rightarrow> bool" where
  "claimable now r \<longleftrightarrow>
     or_published r = None \<and> or_next r \<le> now \<and>
     (case or_locked_until r of None \<Rightarrow> True | Some u \<Rightarrow> u < now)"

definition candidates :: "time \<Rightarrow> nat \<Rightarrow> outbox_row list \<Rightarrow> outbox_row list" where
  "candidates now limit rs = take limit (sort_key claim_key (filter (claimable now) rs))"

text \<open>
  The row order of \<open>UPDATE ... FROM ... RETURNING\<close> is the database's choice: the function
  \<open>arrange\<close>.
\<close>

definition claim_outbox ::
    "(claimed_event list \<Rightarrow> claimed_event list) \<Rightarrow> string \<Rightarrow> nat \<Rightarrow> duration \<Rightarrow> time \<Rightarrow> db \<Rightarrow>
     claimed_event list \<times> db" where
  "claim_outbox arrange worker limit lease now d =
     (let chosen = candidates now limit (outbox d);
          hit = (\<lambda>r. list_ex (\<lambda>c. oe_id (or_event c) = oe_id (or_event r)) chosen)
      in (arrange (map (\<lambda>r. \<lparr>ce_event = or_event r, ce_attempts = or_attempts r\<rparr>) chosen),
          d\<lparr>outbox := update_where hit (\<lambda>r. r\<lparr>or_locked_by := Some worker,
              or_locked_until := Some (time_add now lease)\<rparr>) (outbox d)\<rparr>))"

definition leased_by :: "string \<Rightarrow> string \<Rightarrow> outbox_row \<Rightarrow> bool" where
  "leased_by eid worker r \<longleftrightarrow>
     oe_id (or_event r) = eid \<and> or_locked_by r = Some worker \<and> or_published r = None"

definition mark_outbox_published :: "string \<Rightarrow> string \<Rightarrow> time \<Rightarrow> db \<Rightarrow> unit res \<times> db" where
  "mark_outbox_published eid worker now d =
     (if count_where (leased_by eid worker) (outbox d) \<noteq> 1 then Inl ErrConflict else Inr (),
      d\<lparr>outbox := update_where (leased_by eid worker) (\<lambda>r. r\<lparr>or_published := Some now,
          or_locked_by := None, or_locked_until := None, or_error := None\<rparr>) (outbox d)\<rparr>)"

text \<open>The column \<open>attempts\<close> has 32 bits: the update fails rather than exceed them.\<close>

definition release_outbox :: "string \<Rightarrow> string \<Rightarrow> time \<Rightarrow> string \<Rightarrow> db \<Rightarrow> unit res \<times> db" where
  "release_outbox eid worker nextAt reason d =
     (if list_ex (\<lambda>r. leased_by eid worker r \<and> 2147483647 \<le> or_attempts r) (outbox d) then (Inl ErrDatabase, d)
      else (Inr (), d\<lparr>outbox := update_where (leased_by eid worker) (\<lambda>r. r\<lparr>
          or_attempts := or_attempts r + 1, or_next := nextAt, or_locked_by := None,
          or_locked_until := None, or_error := Some (take 1000 reason)\<rparr>) (outbox d)\<rparr>))"

section \<open>The worker\<close>

text \<open>
  What the environment decides for one event: whether the queue takes the message and
  whether the worker learns of it, the clock, the error text, and whether the statement that
  follows reaches the database.
\<close>

datatype delivery = Accepted | AcceptedUnconfirmed | Refused

record attempt =
  at_delivery :: delivery
  at_now :: time
  at_reason :: string
  at_stored :: bool

record message =
  msg_body :: envelope
  msg_group :: string
  msg_dedup :: string

definition publish :: "outbox_event \<Rightarrow> message" where
  "publish ev = \<lparr>msg_body = oe_payload ev, msg_group = oe_aggregate ev, msg_dedup = oe_id ev\<rparr>"

type_synonym relay = "db \<times> message list"

definition relay_event :: "string \<Rightarrow> attempt \<Rightarrow> claimed_event \<Rightarrow> relay \<Rightarrow> relay" where
  "relay_event worker a ce st =
     (let d = fst st; eid = oe_id (ce_event ce);
          sent = (if at_delivery a = Refused then snd st else snd st @ [publish (ce_event ce)])
      in if at_delivery a \<noteq> Accepted
         then (if at_stored a
               then snd (release_outbox eid worker
                 (time_add (at_now a) (outbox_backoff (ce_attempts ce + 1))) (at_reason a) d)
               else d, sent)
         else (if at_stored a then snd (mark_outbox_published eid worker (at_now a) d) else d, sent))"

fun relay_events :: "string \<Rightarrow> attempt list \<Rightarrow> claimed_event list \<Rightarrow> relay \<Rightarrow> relay" where
  "relay_events worker (a # as) (ce # ces) st = relay_events worker as ces (relay_event worker a ce st)"
| "relay_events worker _ _ st = st"

text \<open>
  One iteration of the loop; the list of attempts is shorter than the batch when the worker
  stops in the middle.
\<close>

definition relay_pass ::
    "(claimed_event list \<Rightarrow> claimed_event list) \<Rightarrow> string \<Rightarrow> nat \<Rightarrow> duration \<Rightarrow> time \<Rightarrow> attempt list \<Rightarrow>
     relay \<Rightarrow> relay" where
  "relay_pass arrange worker limit lease now as st =
     (let (ces, d) = claim_outbox arrange worker limit lease now (fst st)
      in relay_events worker as ces (d, snd st))"

section \<open>Relaying is a step of the accounts\<close>

lemma list_all2_update_where:
  "(\<And>r. p r \<Longrightarrow> R r (f r)) \<Longrightarrow> (\<And>r. R r r) \<Longrightarrow> list_all2 R rs (update_where p f rs)"
  by (induction rs) (auto simp: update_where_def)

lemma claim_relayed: "any_step iso4217 d (snd (claim_outbox arrange worker limit lease now d))"
  unfolding claim_outbox_def Let_def snd_conv
  by (rule any_step.relay) (auto intro!: list_all2_update_where simp: relayed_def)

lemma mark_relayed: "any_step iso4217 d (snd (mark_outbox_published eid worker now d))"
  unfolding mark_outbox_published_def snd_conv
  by (rule any_step.relay) (auto intro!: list_all2_update_where simp: relayed_def leased_by_def)

lemma release_relayed: "any_step iso4217 d (snd (release_outbox eid worker nextAt reason d))"
proof -
  have "any_step iso4217 d (d\<lparr>outbox := outbox d\<rparr>)"
    by (rule any_step.relay) (simp add: list_all2_refl relayed_def)
  moreover have "any_step iso4217 d (d\<lparr>outbox := update_where p (\<lambda>r. r\<lparr>
      or_attempts := or_attempts r + 1, or_next := nextAt, or_locked_by := None,
      or_locked_until := None, or_error := Some (take 1000 reason)\<rparr>) (outbox d)\<rparr>)" for p
    by (rule any_step.relay) (auto intro!: list_all2_update_where simp: relayed_def)
  ultimately show ?thesis by (simp add: release_outbox_def)
qed

lemma relay_event_run: "(any_step iso4217)\<^sup>*\<^sup>* (fst st) (fst (relay_event worker a ce st))"
  using mark_relayed release_relayed by (auto simp: relay_event_def Let_def)

lemma relay_events_run: "(any_step iso4217)\<^sup>*\<^sup>* (fst st) (fst (relay_events worker as ces st))"
proof (induction worker as ces st rule: relay_events.induct)
  case (1 worker a as ce ces st)
  from rtranclp_trans [OF relay_event_run 1] show ?case by simp
qed auto

lemma relay_pass_run: "(any_step iso4217)\<^sup>*\<^sup>* (fst st) (fst (relay_pass arrange worker limit lease now as st))"
proof -
  obtain ces d where c: "claim_outbox arrange worker limit lease now (fst st) = (ces, d)" by fastforce
  then have "any_step iso4217 (fst st) d" using claim_relayed by (metis snd_conv)
  with relay_events_run [of iso4217 "(d, snd st)"] c show ?thesis
    by (auto simp: relay_pass_def intro: converse_rtranclp_into_rtranclp)
qed

section \<open>Nothing is confirmed that was not sent\<close>

definition sent_before :: "relay \<Rightarrow> bool" where
  "sent_before st \<longleftrightarrow>
     (\<forall>r \<in> set (outbox (fst st)). or_published r \<noteq> None \<longrightarrow> publish (or_event r) \<in> set (snd st))"

definition only_stored :: "relay \<Rightarrow> bool" where
  "only_stored st \<longleftrightarrow> set (snd st) \<subseteq> publish ` set (events (fst st))"

text \<open>The events a worker holds are rows of the table.\<close>

definition held :: "claimed_event list \<Rightarrow> db \<Rightarrow> bool" where
  "held ces d \<longleftrightarrow> ce_event ` set ces \<subseteq> set (events d)"

lemma relayed_events: "list_all2 relayed os os' \<Longrightarrow> map or_event os' = map or_event os"
  by (induction rule: list_all2_induct) (auto simp: relayed_def)

lemma events_update_where:
  "(\<And>r. or_event (f r) = or_event r) \<Longrightarrow> events (d\<lparr>outbox := update_where p f (outbox d)\<rparr>) = events d"
  by (simp add: events_def)

lemma relay_event_events [simp]: "events (fst (relay_event worker a ce st)) = events (fst st)"
  by (simp add: relay_event_def Let_def mark_outbox_published_def release_outbox_def events_update_where)

lemma claim_events [simp]: "events (snd (claim_outbox arrange worker limit lease now d)) = events d"
  by (simp add: claim_outbox_def Let_def events_update_where)

lemma event_key_unique:
  "outbox_inv d \<Longrightarrow> ev \<in> set (events d) \<Longrightarrow> ev' \<in> set (events d) \<Longrightarrow> oe_id ev = oe_id ev' \<Longrightarrow> ev = ev'"
  unfolding outbox_inv_def by (blast intro: distinct_key_unique)

lemma relay_event_sent:
  assumes o: "outbox_inv (fst st)" and i: "sent_before st" and h: "ce_event ce \<in> set (events (fst st))"
  shows "sent_before (relay_event worker a ce st)"
proof (cases "at_delivery a = Accepted \<and> at_stored a")
  case True
  have eq: "or_event r = ce_event ce"
    if "r \<in> set (outbox (fst st))" "leased_by (oe_id (ce_event ce)) worker r" for r
    using that h by (intro event_key_unique [OF o]) (auto simp: events_def leased_by_def)
  show ?thesis
    using True i by (auto dest: eq simp: sent_before_def relay_event_def Let_def mark_outbox_published_def set_update_where)
next
  case False
  then show ?thesis
    using i by (auto simp: sent_before_def relay_event_def Let_def release_outbox_def set_update_where leased_by_def)
qed

lemma relay_event_only_stored:
  "only_stored st \<Longrightarrow> ce_event ce \<in> set (events (fst st)) \<Longrightarrow> only_stored (relay_event worker a ce st)"
  by (auto simp: only_stored_def relay_event_events) (auto simp: relay_event_def Let_def split: if_splits)

lemma relay_event_inv: "outbox_inv (fst st) \<Longrightarrow> outbox_inv (fst (relay_event worker a ce st))"
proof -
  have "txns (fst (relay_event worker a ce st)) = txns (fst st)"
    "ledger (fst (relay_event worker a ce st)) = ledger (fst st)"
    by (simp_all add: relay_event_def Let_def mark_outbox_published_def release_outbox_def)
  then show "outbox_inv (fst st) \<Longrightarrow> outbox_inv (fst (relay_event worker a ce st))"
    by (simp add: outbox_inv_def)
qed

lemma relay_events_sent:
  "outbox_inv (fst st) \<Longrightarrow> sent_before st \<Longrightarrow> only_stored st \<Longrightarrow> held ces (fst st) \<Longrightarrow>
   sent_before (relay_events worker as ces st) \<and> only_stored (relay_events worker as ces st)"
proof (induction worker as ces st rule: relay_events.induct)
  case (1 worker a as ce ces st)
  then show ?case
    using relay_event_sent relay_event_only_stored relay_event_inv by (simp add: held_def)
qed auto

lemma relay_pass_sent:
  assumes o: "outbox_inv (fst st)" and s: "sent_before st" "only_stored st"
    and ar: "\<And>ces. set (arrange ces) = set ces"
  shows "sent_before (relay_pass arrange worker limit lease now as st) \<and>
    only_stored (relay_pass arrange worker limit lease now as st)"
proof -
  obtain ces d where c: "claim_outbox arrange worker limit lease now (fst st) = (ces, d)" by fastforce
  have ev: "events d = events (fst st)" using claim_events c by (metis snd_conv)
  have same: "txns d = txns (fst st)" "ledger d = ledger (fst st)"
    using c by (auto simp: claim_outbox_def Let_def)
  have "outbox_inv d" using o ev same by (simp add: outbox_inv_def)
  moreover have "sent_before (d, snd st)"
    using s(1) c by (auto simp: sent_before_def claim_outbox_def Let_def set_update_where)
  moreover have "only_stored (d, snd st)" using s(2) ev by (simp add: only_stored_def)
  moreover have "held ces d"
  proof -
    have "set (candidates now limit (outbox (fst st))) \<subseteq> set (outbox (fst st))"
      using set_take_subset [of limit "sort_key claim_key (filter (claimable now) (outbox (fst st)))"]
      by (auto simp: candidates_def)
    moreover have "ces = arrange (map (\<lambda>r. \<lparr>ce_event = or_event r, ce_attempts = or_attempts r\<rparr>)
        (candidates now limit (outbox (fst st))))"
      using c by (simp add: claim_outbox_def Let_def)
    ultimately have "ce_event ` set ces \<subseteq> set (events (fst st))" using ar by (auto simp: events_def)
    then show ?thesis by (simp add: held_def ev)
  qed
  ultimately show ?thesis
    using relay_events_sent [of "(d, snd st)"] c by (simp add: relay_pass_def)
qed

end
