(* ===== verification/System.thy ===== *)
theory System
  imports Outbox "HOL-Library.Multiset"
begin

text \<open>
  The whole service: any sequence of calls of its use cases and of its workers, each with
  its own clock, identifiers and failures, from an empty database. The accounting
  invariant holds in every reachable state.
\<close>

section \<open>Reachable states\<close>

datatype request =
    CreateWallet call wallet_command
  | ProcessWager call wager_command
  | ResolvePending call string
  | RecordFailure call string
  | RelayOutbox "claimed_event list \<Rightarrow> claimed_event list" string nat duration time "attempt list"

text \<open>\<open>RETURNING\<close> may list the claimed rows in any order.\<close>

fun admissible :: "request \<Rightarrow> bool" where
  "admissible (RelayOutbox arrange worker limit lease now as) \<longleftrightarrow>
     (\<forall>ces. mset (arrange ces) = mset ces)"
| "admissible _ \<longleftrightarrow> True"

fun serve :: "service \<Rightarrow> request \<Rightarrow> relay \<Rightarrow> relay" where
  "serve sv (CreateWallet c cmd) st = (snd (create sv c cmd (fst st)), snd st)"
| "serve sv (ProcessWager c cmd) st = (snd (process sv c cmd (fst st)), snd st)"
| "serve sv (ResolvePending c tid) st = (snd (resolve_pending_reference sv c tid (fst st)), snd st)"
| "serve sv (RecordFailure c tid) st =
     (snd (record_pending_reference_failure sv c tid (fst st)), snd st)"
| "serve sv (RelayOutbox arrange worker limit lease now as) st =
     relay_pass arrange worker limit lease now as st"

inductive served :: "service \<Rightarrow> relay \<Rightarrow> relay \<Rightarrow> bool" for sv where
  "admissible q \<Longrightarrow> served sv st (serve sv q st)"

inductive_cases servedE: "served sv st st'"

definition reachable :: "service \<Rightarrow> relay \<Rightarrow> bool" where
  "reachable sv st \<longleftrightarrow> (served sv)\<^sup>*\<^sup>* (empty_db, []) st"

definition system_inv :: "service \<Rightarrow> relay \<Rightarrow> bool" where
  "system_inv sv st \<longleftrightarrow> db_inv (sv_iso sv) (fst st) \<and> sent_before st \<and> only_stored st"

lemma only_stored_appends: "outbox_appends d d' \<Longrightarrow> only_stored (d, ms) \<Longrightarrow> only_stored (d', ms)"
  by (auto simp: outbox_appends_def only_stored_def events_def)

lemma sent_before_appends: "outbox_appends d d' \<Longrightarrow> sent_before (d, ms) \<Longrightarrow> sent_before (d', ms)"
  by (auto simp: outbox_appends_def sent_before_def outbox_row_of_def)

lemma use_case_system_inv:
  assumes "(db_step (sv_iso sv))\<^sup>*\<^sup>* d d'" and "system_inv sv (d, ms)"
  shows "system_inv sv (d', ms)"
  using assms appends.run_below [OF assms(1)] run_sound [OF assms(1)]
    only_stored_appends [of d d' ms] sent_before_appends [of d d' ms]
  by (simp add: system_inv_def)

lemma served_runs:
  assumes "served sv st st'" and "system_inv sv st"
  shows "(any_step (sv_iso sv))\<^sup>*\<^sup>* (fst st) (fst st')" and "system_inv sv st'"
proof -
  obtain d ms where st: "st = (d, ms)" by (cases st)
  have inv: "db_inv (sv_iso sv) d" and sys: "system_inv sv (d, ms)"
    using assms(2) by (simp_all add: system_inv_def st)
  from assms(1) obtain q where q: "admissible q" "st' = serve sv q st" by (auto elim: servedE)
  have "(any_step (sv_iso sv))\<^sup>*\<^sup>* (fst st) (fst st') \<and> system_inv sv st'"
  proof (cases q)
    case (CreateWallet c cmd)
    then have "(db_step (sv_iso sv))\<^sup>*\<^sup>* d (fst st')" "st' = (fst st', ms)"
      using create_run [OF inv] q(2) st by (auto simp: prod_eq_iff)
    then show ?thesis using use_case_system_inv [OF _ sys] st by (metis fst_conv use_case_run)
  next
    case (ProcessWager c cmd)
    then have "(db_step (sv_iso sv))\<^sup>*\<^sup>* d (fst st')" "st' = (fst st', ms)"
      using process_run [OF inv] q(2) st by (auto simp: prod_eq_iff)
    then show ?thesis using use_case_system_inv [OF _ sys] st by (metis fst_conv use_case_run)
  next
    case (ResolvePending c tid)
    then have "(db_step (sv_iso sv))\<^sup>*\<^sup>* d (fst st')" "st' = (fst st', ms)"
      using resolve_run [OF inv] q(2) st by (auto simp: prod_eq_iff)
    then show ?thesis using use_case_system_inv [OF _ sys] st by (metis fst_conv use_case_run)
  next
    case (RecordFailure c tid)
    then have "(db_step (sv_iso sv))\<^sup>*\<^sup>* d (fst st')" "st' = (fst st', ms)"
      using record_failure_run [OF inv] q(2) st by (auto simp: prod_eq_iff)
    then show ?thesis using use_case_system_inv [OF _ sys] st by (metis fst_conv use_case_run)
  next
    case (RelayOutbox arrange worker limit lease now as)
    then have st': "st' = relay_pass arrange worker limit lease now as st" using q(2) by simp
    have "set (arrange ces) = set ces" for ces
      using q(1) RelayOutbox by (metis admissible.simps(1) set_mset_mset)
    then have "sent_before st' \<and> only_stored st'"
      unfolding st' using sys inv relay_pass_sent [of st arrange]
      by (simp add: system_inv_def st db_inv_def)
    moreover have run: "(any_step (sv_iso sv))\<^sup>*\<^sup>* (fst st) (fst st')"
      unfolding st' by (rule relay_pass_run)
    moreover have "db_inv (sv_iso sv) (fst st')"
      using any_run_sound [OF run] inv st by simp
    ultimately show ?thesis by (simp add: system_inv_def)
  qed
  then show "(any_step (sv_iso sv))\<^sup>*\<^sup>* (fst st) (fst st')" "system_inv sv st'" by blast+
qed

interpretation system: machine "served sv" "system_inv sv"
  for sv
  by unfold_locales (rule served_runs(2))

lemma initial_inv: "system_inv sv (empty_db, [])"
  by (simp add: system_inv_def sent_before_def only_stored_def empty_db_def events_def)
    (use empty_db_inv [of "sv_iso sv"] in \<open>simp add: empty_db_def\<close>)

lemma reachable_inv: "reachable sv st \<Longrightarrow> system_inv sv st"
  unfolding reachable_def by (rule system.run_inv [OF _ initial_inv])

lemma reachable_db_inv: "reachable sv st \<Longrightarrow> db_inv (sv_iso sv) (fst st)"
  using reachable_inv by (simp add: system_inv_def)

lemma served_run_below:
  assumes "(served sv)\<^sup>*\<^sup>* st st'" and "system_inv sv st"
  shows "db_below (fst st) (fst st')"
  using assms
proof (induction rule: converse_rtranclp_induct)
  case base
  then show ?case by simp
next
  case (step st st1)
  note r = served_runs [OF step.hyps(1) step.prems]
  have "db_below (fst st) (fst st1)"
    using any_run_sound [OF r(1)] step.prems by (simp add: system_inv_def)
  with step.IH [OF r(2)] show ?case by (blast intro: db_below_trans)
qed

end
