(* ===== verification/Sample.thy ===== *)
theory Sample
  imports System
begin

text \<open>
  A concrete run for the witnesses: a wallet is created with 100.00 BRL, a bet of 25.00 is
  processed, then refunded. Each call is evaluated through the model.
\<close>

section \<open>The service and its calls\<close>

definition sample_service :: service where
  "sample_service = \<lparr>sv_iso = (\<lambda>c. c = ''BRL''), sv_digest = (\<lambda>fs. concat (map snd fs)),
     sv_valid = (\<lambda>_. True), sv_valid_wallet = (\<lambda>_. True), sv_max_attempts = 3,
     sv_base_backoff = 2000000000, sv_max_backoff = 300000000000\<rparr>"

definition sample_call :: "time \<Rightarrow> string list \<Rightarrow> call" where
  "sample_call now ids = \<lparr>c_now = now, c_ids = (\<lambda>n. ids ! n), c_fault = None, c_ack_lost = False\<rparr>"

definition brl :: "int64 \<Rightarrow> money" where
  "brl m = \<lparr>money_minor = m, money_currency = ''BRL''\<rparr>"

lemma brl_sel [simp]: "money_minor (brl m) = m" "money_currency (brl m) = ''BRL''"
  by (simp_all add: brl_def)

lemma parse_brl [simp]: "parse_currency (\<lambda>c. c = ''BRL'') ''BRL''"
  by (simp add: parse_currency_def)

lemma currency_check_brl [simp]: "currency_check ''BRL''"
  by (simp add: currency_check_def)

lemma brl_eq: "brl m = brl n \<longleftrightarrow> m = n" by (auto simp: brl_def)

definition sample_wallet :: wallet_command where
  "sample_wallet = \<lparr>wc_player = ''p'', wc_initial = brl 10000, wc_correlation = ''c''\<rparr>"

lemma service_sel [simp]:
  "sv_iso sample_service = (\<lambda>c. c = ''BRL'')" "sv_valid sample_service cmd" "sv_valid_wallet sample_service wcmd"
  "sv_max_attempts sample_service = 3" "sv_base_backoff sample_service = 2000000000"
  "sv_max_backoff sample_service = 300000000000"
  by (simp_all add: sample_service_def)

lemma zero_brl [simp]: "zero_money (\<lambda>c. c = ''BRL'') ''BRL'' = Inr (brl 0)"
  by (simp add: zero_money_def new_money_from_minor_def brl_def)

lemmas run_simps = within_transaction_def exec_def tx_bind_def tx_return_def tx_fail_def tx_lift_def select_def Let_def
  new_uuid_def insert_wallet_def wallet_checks_def wallet_unique_def insert_opening_def insert_txn_row_def txn_guards_def
  wager_identity_guard_def txn_checks_def external_kind_def terminal_status_def txn_unique_def reversal_kind_def
  txn_foreign_keys_def insert_ledger_def ledger_guard_def find_txn_def expected_direction_def ledger_checks_def
  ledger_unique_def ledger_foreign_keys_def insert_outbox_def deferred_ok_def wallet_consistent_def processed_has_ledger_def
  ledger_total_def outbox_row_of_def ledger_row_of_def opening_row_def wallet_row_of_def
  new_event_def time_is_zero_def is_negative_def is_positive_def is_zero_def sless_iff_sint sample_call_def nullif_def
  coalesce_def

lemma sample_opening_entry:
  "new_ledger_entry (\<lambda>c. c = ''BRL'') ''l0'' ''w'' ''t0'' DirectionCredit (brl 10000) (brl 0) (brl 10000) 5 =
    Inr \<lparr>entry_id = ''l0'', entry_wallet = ''w'', entry_transaction = ''t0'',
          entry_direction = DirectionCredit, entry_money = brl 10000, entry_before = brl 0, entry_after = brl 10000, entry_created = 5\<rparr>"
  by (simp add: new_ledger_entry_ok money_int_def)


text \<open>The rows, as the statements write them.\<close>

definition at :: "int64 \<Rightarrow> int64 \<Rightarrow> time \<Rightarrow> wallet" where
  "at balance version now =
     \<lparr>wallet_id = ''w'', wallet_player = ''p'', wallet_balance = brl balance,
      wallet_version = version, wallet_created = 5, wallet_updated = now\<rparr>"

lemma at_sel [simp]:
  "wallet_id (at b v n) = ''w''" "wallet_player (at b v n) = ''p''" "wallet_balance (at b v n) = brl b"
  "wallet_version (at b v n) = v" "wallet_updated (at b v n) = n"
  by (simp_all add: at_def)

definition sample_row :: "int64 \<Rightarrow> int64 \<Rightarrow> time \<Rightarrow> wallet_row" where
  "sample_row balance version now = wallet_row_of (at balance version now)"

lemma sample_row_sel [simp]:
  "wr_id (sample_row b v n) = ''w''" "wr_player (sample_row b v n) = ''p''"
  "wr_currency (sample_row b v n) = ''BRL''" "wr_balance (sample_row b v n) = b"
  "wr_version (sample_row b v n) = v"
  by (simp_all add: sample_row_def)

lemma sample_row_update [simp]:
  "sample_row b v n\<lparr>wr_balance := b', wr_version := v', wr_updated := n'\<rparr> = sample_row b' v' n'"
  by (simp add: sample_row_def wallet_row_of_def at_def)

lemma scan_sample [simp]:
  "0 \<le> sint b \<Longrightarrow> 1 \<le> sint v \<Longrightarrow> n \<noteq> 0 \<Longrightarrow>
   scan_wallet (\<lambda>c. c = ''BRL'') (sample_row b v n) = Inr (at b v n)"
  by (simp add: sample_row_def scan_wallet_ok wallet_ok_def sless_iff_sint is_negative_int money_int_def)
    (simp add: at_def)

lemma debit_sample:
  "0 < sint m \<Longrightarrow> sint m \<le> sint b \<Longrightarrow> sint (b - m) = sint b - sint m \<Longrightarrow> n' \<noteq> 0 \<Longrightarrow>
   wallet_debit (\<lambda>c. c = ''BRL'') (at b v n) (brl m) n' = Inr (brl b, brl (b - m), at (b - m) (v + 1) n')"
  by (simp add: wallet_debit_ok balance_int_def money_int_def wallet_apply_def at_def)

lemma credit_sample:
  "0 < sint m \<Longrightarrow> sint (b + m) = sint b + sint m \<Longrightarrow> n' \<noteq> 0 \<Longrightarrow>
   wallet_credit (\<lambda>c. c = ''BRL'') (at b v n) (brl m) n' = Inr (brl b, brl (b + m), at (b + m) (v + 1) n')"
  by (simp add: wallet_credit_ok balance_int_def money_int_def wallet_apply_def at_def)

abbreviation opened :: wallet where "opened \<equiv> at 10000 1 5"

definition sample_entry :: "string \<Rightarrow> string \<Rightarrow> direction \<Rightarrow> int64 \<Rightarrow> int64 \<Rightarrow> int64 \<Rightarrow> time \<Rightarrow> ledger_row" where
  "sample_entry lid tid dir m before after now =
     \<lparr>lr_id = lid, lr_wallet = ''w'', lr_transaction = tid, lr_direction = dir, lr_money = m,
      lr_currency = ''BRL'', lr_before = before, lr_after = after, lr_created = now\<rparr>"

definition db_opened :: db where
  "db_opened =
     \<lparr>wallets = [sample_row 10000 1 5],
      txns = [opening_row ''t0'' opened (brl 10000) 5],
      ledger = [sample_entry ''l0'' ''t0'' DirectionCredit 10000 0 10000 5], inbox = [],
      outbox = [outbox_row_of (new_event ''e0'' EventWagerTransactionProcessed ''t0'' ''c'' [] 5
          (opening_event ''t0'' opened (brl 10000))),
        outbox_row_of (new_event ''e1'' EventWalletBalanceChanged ''w'' ''c'' ''t0'' 5
          (opening_change ''t0'' opened (brl 10000) (brl 0)))]\<rparr>"

lemma sample_create:
  "create sample_service (sample_call 5 [''w'', ''t0'', ''l0'', ''e0'', ''e1'']) sample_wallet empty_db =
     (Inr (wallet_view_of opened), db_opened)"
  by (simp add: create_def sample_wallet_def new_wallet_def validate_money_def create_tx_def
     empty_db_def run_simps sample_opening_entry db_opened_def sample_row_def sample_entry_def at_def)

definition sample_cmd :: "kind \<Rightarrow> string \<Rightarrow> string \<Rightarrow> int64 \<Rightarrow> string \<Rightarrow> wager_command" where
  "sample_cmd k ext key m ref =
     \<lparr>cmd_provider = ''v'', cmd_external = ext, cmd_key = key, cmd_player = ''p'',
      cmd_wallet = ''w'', cmd_round = ''r'', cmd_game = ''g'', cmd_kind = k, cmd_money = brl m,
      cmd_ref_external = ref, cmd_correlation = ''c'', cmd_inbox = None\<rparr>"

lemma sample_cmd_sel [simp]:
  "cmd_provider (sample_cmd k ext key m ref) = ''v''" "cmd_external (sample_cmd k ext key m ref) = ext"
  "cmd_key (sample_cmd k ext key m ref) = key" "cmd_player (sample_cmd k ext key m ref) = ''p''"
  "cmd_wallet (sample_cmd k ext key m ref) = ''w''" "cmd_round (sample_cmd k ext key m ref) = ''r''"
  "cmd_game (sample_cmd k ext key m ref) = ''g''" "cmd_kind (sample_cmd k ext key m ref) = k"
  "cmd_money (sample_cmd k ext key m ref) = brl m" "cmd_ref_external (sample_cmd k ext key m ref) = ref"
  "cmd_correlation (sample_cmd k ext key m ref) = ''c''" "cmd_inbox (sample_cmd k ext key m ref) = None"
  by (simp_all add: sample_cmd_def)

text \<open>A transaction of the sample wallet.\<close>

definition sample_txn :: "string \<Rightarrow> wager_command \<Rightarrow> string \<Rightarrow> status \<Rightarrow> money option \<Rightarrow> time \<Rightarrow> wager" where
  "sample_txn tid cmd ref_id st result now =
     \<lparr>wt_id = tid, wt_provider = ''v'', wt_external = cmd_external cmd, wt_key = cmd_key cmd,
      wt_hash = wager_payload_hash sample_service cmd, wt_wallet = ''w'', wt_player = ''p'',
      wt_round = ''r'', wt_game = ''g'', wt_kind = cmd_kind cmd, wt_money = cmd_money cmd,
      wt_ref_external = cmd_ref_external cmd, wt_ref_id = ref_id, wt_status = st, wt_failure = [],
      wt_result = result, wt_attempts = 0, wt_next = None, wt_created = now, wt_updated = now\<rparr>"

lemma sample_hash:
  "wager_payload_hash sample_service cmd =
     money_amount (cmd_money cmd) @ money_currency (cmd_money cmd) @ cmd_external cmd @ cmd_game cmd @
     string_of_kind (cmd_kind cmd) @ cmd_player cmd @ cmd_provider cmd @ cmd_ref_external cmd @
     cmd_round cmd @ cmd_wallet cmd"
  by (simp add: wager_payload_hash_def payload_fields_def sample_service_def)


lemma entry_sample:
  "lid \<noteq> [] \<Longrightarrow> tid \<noteq> [] \<Longrightarrow> now \<noteq> 0 \<Longrightarrow> 0 < sint m \<Longrightarrow> 0 \<le> sint a \<Longrightarrow>
   dir = DirectionDebit \<or> dir = DirectionCredit \<Longrightarrow> sint a = sint b + signed_amount dir (sint m) \<Longrightarrow>
   new_ledger_entry (\<lambda>c. c = ''BRL'') lid ''w'' tid dir (brl m) (brl b) (brl a) now =
    Inr \<lparr>entry_id = lid, entry_wallet = ''w'', entry_transaction = tid,
          entry_direction = dir, entry_money = brl m, entry_before = brl b, entry_after = brl a, entry_created = now\<rparr>"
  by (simp add: new_ledger_entry_ok money_int_def)

lemmas process_simps = process_def process_tx_def process_unclaimed_def
    acquire_idempotency_lock_def find_by_idempotency_def scan_optional_def
    find_by_key_def find_by_external_id_def find_by_external_def lock_wallet_def find_wallet_def
    validate_money_def new_wager_transaction_def
    external_of_command_def validate_amount_for_kind_def record_new_def decide_tx_def reference_failure_def
    finalize_def movement_of_def debit_sample credit_sample settle_tx_def mark_processed_def save_transaction_def insert_transaction_def
   record_movement_def update_wallet_def count_where_def update_where_def entry_sample emit_def
   complete_inbox_if_def

lemma sample_hash_ne [simp]: "wager_payload_hash sample_service (sample_cmd k ext key m ref) \<noteq> []"
  by (simp add: sample_hash)

abbreviation bet_cmd :: wager_command where "bet_cmd \<equiv> sample_cmd KindBet ''x1'' ''k1'' 2500 []"
abbreviation bet_txn :: wager where
  "bet_txn \<equiv> sample_txn ''t1'' bet_cmd [] StatusProcessed (Some (brl 7500)) 6"

definition db_bet :: db where
  "db_bet =
     \<lparr>wallets = [sample_row 7500 2 6],
      txns = [opening_row ''t0'' opened (brl 10000) 5, txn_row_of bet_txn],
      ledger = [sample_entry ''l0'' ''t0'' DirectionCredit 10000 0 10000 5,
        sample_entry ''l1'' ''t1'' DirectionDebit 2500 10000 7500 6], inbox = [],
      outbox = outbox db_opened @
       [outbox_row_of (new_event ''e2'' EventWagerTransactionProcessed ''t1'' ''c'' [] 6
          (processed_event bet_txn (at 7500 2 6) (brl 7500))),
        outbox_row_of (new_event ''e3'' EventWalletBalanceChanged ''w'' ''c'' ''t1'' 6
          (changed_event bet_txn (at 7500 2 6) DirectionDebit (brl 10000) (brl 7500)))]\<rparr>"

lemma sample_process_bet: "process sample_service (sample_call 6 [''t1'', ''l1'', ''e2'', ''e3'']) bet_cmd db_opened =
   (Inr (result_from bet_txn (brl 7500) False), db_bet)"
  by (simp add: process_simps run_simps db_opened_def db_bet_def sample_entry_def min_int64_def txn_clash_def sample_txn_def txn_row_of_def)

lemma txn_row_sample [simp]:
  "tr_id (txn_row_of (sample_txn tid cmd ref_id st result now)) = tid"
  by (simp add: sample_txn_def)

lemma scan_sample_txn [simp]:
  "wager_ok (\<lambda>c. c = ''BRL'') (sample_txn tid cmd ref_id st result now) \<Longrightarrow>
   scan_transaction (\<lambda>c. c = ''BRL'') (txn_row_of (sample_txn tid cmd ref_id st result now)) =
     Inr (sample_txn tid cmd ref_id st result now)"
  by (rule scan_txn_row)

lemma bet_txn_ok [simp]: "wager_ok (\<lambda>c. c = ''BRL'') bet_txn"
  by (simp add: wager_ok_def sample_txn_def amount_ok_def status_ok_def terminal_result_ok_def
      result_currency_of_def money_int_def)

abbreviation refund_cmd :: wager_command where
  "refund_cmd \<equiv> sample_cmd KindRefund ''x2'' ''k2'' 2500 ''x1''"
abbreviation refund_txn :: wager where
  "refund_txn \<equiv> sample_txn ''t2'' refund_cmd ''t1'' StatusProcessed (Some (brl 10000)) 7"

definition db_refund :: db where
  "db_refund =
     \<lparr>wallets = [sample_row 10000 3 7], txns = txns db_bet @ [txn_row_of refund_txn],
      ledger = ledger db_bet @ [sample_entry ''l2'' ''t2'' DirectionCredit 2500 7500 10000 7], inbox = [],
      outbox = outbox db_bet @
       [outbox_row_of (new_event ''e4'' EventWagerTransactionProcessed ''t2'' ''c'' [] 7
          (processed_event refund_txn (at 10000 3 7) (brl 10000))),
        outbox_row_of (new_event ''e5'' EventWalletBalanceChanged ''w'' ''c'' ''t2'' 7
          (changed_event refund_txn (at 10000 3 7) DirectionCredit (brl 7500) (brl 10000)))]\<rparr>"

lemma bet_txn_sel [simp]:
  "wt_id bet_txn = ''t1''" "wt_provider bet_txn = ''v''" "wt_player bet_txn = ''p''"
  "wt_wallet bet_txn = ''w''" "wt_round bet_txn = ''r''" "wt_money bet_txn = brl 2500"
  "wt_kind bet_txn = KindBet" "wt_status bet_txn = StatusProcessed" "wt_external bet_txn = ''x1''"
  "wt_key bet_txn = ''k1''" "wt_ref_external bet_txn = []" "wt_ref_id bet_txn = []"
  "wt_result bet_txn = Some (brl 7500)" "wt_failure bet_txn = []" "wt_hash bet_txn = wager_payload_hash sample_service bet_cmd"
  by (simp_all add: sample_txn_def)

lemma sample_process_refund:
  "process sample_service (sample_call 7 [''t2'', ''l2'', ''e4'', ''e5'']) refund_cmd db_bet =
   (Inr (result_from refund_txn (brl 10000) False), db_refund)"
  by (simp add: process_simps run_simps db_opened_def db_bet_def db_refund_def sample_entry_def min_int64_def txn_clash_def
     reference_is_pending_def resolved_tx_def resolve_reference_def successful_reversal_exists_def successful_reversal_def
     reference_failure_def sample_txn_def [of "''t2''"])

section \<open>They are reachable\<close>

lemma reachable_serve:
  assumes "reachable sv st" and "admissible q" and "serve sv q st = st'" shows "reachable sv st'"
  using assms served.intros [of q sv st] unfolding reachable_def
  by (auto intro: rtranclp.rtrancl_into_rtrancl)

lemma reachable_opened: "reachable sample_service (db_opened, [])"
  by (rule reachable_serve [where q = "CreateWallet (sample_call 5 [''w'', ''t0'', ''l0'', ''e0'', ''e1'']) sample_wallet"
        and st = "(empty_db, [])"]) (simp_all add: sample_create reachable_def)

lemma reachable_bet: "reachable sample_service (db_bet, [])"
  by (rule reachable_serve [OF reachable_opened, where q = "ProcessWager (sample_call 6 [''t1'', ''l1'', ''e2'', ''e3'']) bet_cmd"])
    (simp_all add: sample_process_bet)

lemma reachable_refund: "reachable sample_service (db_refund, [])"
  by (rule reachable_serve [OF reachable_bet, where q = "ProcessWager (sample_call 7 [''t2'', ''l2'', ''e4'', ''e5'']) refund_cmd"])
    (simp_all add: sample_process_refund)

section \<open>Variants of the run\<close>

definition sample_session :: "db \<Rightarrow> string list \<Rightarrow> session" where
  "sample_session d ids = \<lparr>s_db = d, s_ids = (\<lambda>n. ids ! n), s_drawn = 0, s_fault = None\<rparr>"

lemma sample_process_bet_tx:
  "\<exists>s'. process_tx sample_service bet_cmd ''c'' [] 6
      (sample_session db_opened [''t1'', ''l1'', ''e2'', ''e3'']) = Inr (result_from bet_txn (brl 7500) False, s')"
  using sample_process_bet
  by (auto simp: process_def within_transaction_def exec_def sample_call_def sample_session_def
      split: sum.splits prod.splits if_splits)

text \<open>The update of the wallet fails in the driver.\<close>

lemma sample_fault:
  "fst (process sample_service (sample_call 6 [''t1'', ''l1'', ''e2'', ''e3'']\<lparr>c_fault := Some 6\<rparr>) bet_cmd db_opened) =
     Inl ErrDatabase"
  by (simp add: process_simps run_simps db_opened_def sample_entry_def min_int64_def txn_clash_def
      sample_txn_def txn_row_of_def)

definition sample_relay :: relay where
  "sample_relay = relay_pass (\<lambda>ces. ces) ''wk'' 10 30000000000 9
     [\<lparr>at_delivery = Accepted, at_now = 9, at_reason = [], at_stored = True\<rparr>] (db_opened, [])"

lemma reachable_relay: "reachable sample_service sample_relay"
  by (rule reachable_serve [OF reachable_opened, where q = "RelayOutbox (\<lambda>ces. ces) ''wk'' 10 30000000000 9
     [\<lparr>at_delivery = Accepted, at_now = 9, at_reason = [], at_stored = True\<rparr>]"])
    (simp_all add: sample_relay_def)

lemma sample_relay_published: "\<exists>r \<in> set (outbox (fst sample_relay)). or_published r = Some 9"
  by (simp add: sample_relay_def relay_pass_def claim_outbox_def Let_def candidates_def claimable_def
      db_opened_def outbox_row_of_def claim_key_def update_where_def relay_event_def
      mark_outbox_published_def leased_by_def)

end
