(* ===== verification/Guarantees.thy ===== *)
theory Guarantees
  imports Sample
begin

text \<open>
  What every reachable state of the system satisfies, and what no continuation of a run
  undoes: the properties of the refinement of \<open>Settlement\<close>, stated over the tables.
\<close>

section \<open>Consequences of the invariant\<close>

lemma ledger_entry_of:
  assumes inv: "db_inv iso4217 d" and l: "l \<in> set (ledger d)"
  shows "\<exists>r \<in> set (txns d). tr_id r = lr_transaction l \<and> moved r \<and> lr_wallet l = tr_wallet r \<and>
    lr_currency l = tr_currency r \<and> lr_money l = tr_money r \<and> Some (lr_after l) = tr_result r \<and>
    expected_direction d r = Some (lr_direction l)"
proof -
  from inv l have "ledger_guard d l" by (auto simp: db_inv_def ledger_inv_def)
  then obtain r where "find_txn (lr_transaction l) d = Some r"
    and "tr_status r = StatusProcessed \<and> tr_kind r \<noteq> KindLoss \<and>
          lr_wallet l = tr_wallet r \<and> lr_currency l = tr_currency r \<and>
          lr_money l = tr_money r \<and> Some (lr_after l) = tr_result r \<and>
          expected_direction d r = Some (lr_direction l)"
    by (auto simp: ledger_guard_def split: option.splits)
  then show ?thesis
    using find_txn_iff [OF db_invD(6) [OF inv]] by (auto simp: moved_def intro!: bexI)
qed

lemma txn_unique_id:
  "db_inv iso4217 d \<Longrightarrow> q \<in> set (txns d) \<Longrightarrow> r \<in> set (txns d) \<Longrightarrow> tr_id q = tr_id r \<Longrightarrow> q = r"
  using distinct_key_unique [OF keys_ok_distinct] db_invD(6) by metis

lemma distinct_filter_key:
  "distinct (map k xs) \<Longrightarrow> length (filter (\<lambda>x. k x = a) xs) = (if a \<in> k ` set xs then 1 else 0)"
  by (induction xs) (auto simp: image_iff)

lemma entry_count:
  assumes inv: "db_inv iso4217 d" and r: "r \<in> set (txns d)"
  shows "length (filter (\<lambda>l. lr_transaction l = tr_id r) (ledger d)) = (if moved r then 1 else 0)"
proof -
  have "distinct (map lr_transaction (ledger d))" using inv by (simp add: db_inv_def ledger_inv_def)
  moreover have "tr_id r \<in> lr_transaction ` set (ledger d) \<longleftrightarrow> moved r"
  proof
    assume "moved r"
    then show "tr_id r \<in> lr_transaction ` set (ledger d)"
      using inv r by (force simp: db_inv_def ledger_inv_def)
  next
    assume "tr_id r \<in> lr_transaction ` set (ledger d)"
    then obtain l where l: "l \<in> set (ledger d)" "tr_id r = lr_transaction l" by auto
    from ledger_entry_of [OF inv l(1)] obtain q where "q \<in> set (txns d)" "tr_id q = tr_id r" "moved q"
      using l(2) by metis
    with txn_unique_id [OF inv _ r] show "moved r" by metis
  qed
  ultimately show ?thesis by (simp add: distinct_filter_key)
qed

lemma entry_matches:
  assumes inv: "db_inv iso4217 d" and r: "r \<in> set (txns d)" and l: "l \<in> set (ledger d)" "lr_transaction l = tr_id r"
  shows "lr_wallet l = tr_wallet r \<and> lr_currency l = tr_currency r \<and> lr_money l = tr_money r \<and>
    Some (lr_after l) = tr_result r \<and> expected_direction d r = Some (lr_direction l)"
proof -
  from ledger_entry_of [OF inv l(1)] obtain q where q: "q \<in> set (txns d)" "tr_id q = tr_id r"
    "lr_wallet l = tr_wallet q \<and> lr_currency l = tr_currency q \<and> lr_money l = tr_money q \<and>
    Some (lr_after l) = tr_result q \<and> expected_direction d q = Some (lr_direction l)"
    using l(2) by metis
  with txn_unique_id [OF inv q(1) r q(2)] show ?thesis by simp
qed

lemma moved_entry:
  "db_inv iso4217 d \<Longrightarrow> r \<in> set (txns d) \<Longrightarrow> moved r \<Longrightarrow> \<exists>l \<in> set (ledger d). lr_transaction l = tr_id r"
  by (auto simp: db_inv_def ledger_inv_def)

lemma wallet_row_facts:
  assumes inv: "db_inv iso4217 d" and r: "r \<in> set (wallets d)"
  shows "replay 0 (book (wr_id r) (ledger d)) = Some (sint (wr_balance r))" and "0 \<le> sint (wr_balance r)"
    and "l \<in> set (book (wr_id r) (ledger d)) \<Longrightarrow> lr_currency l = wr_currency r"
proof -
  note I = db_invD [OF inv]
  show "replay 0 (book (wr_id r) (ledger d)) = Some (sint (wr_balance r))"
    using I(4) r by (simp add: balance_inv_def)
  obtain w where "r = wallet_row_of w" "wallet_ok iso4217 w" using I(1) r by (auto simp: wallets_inv_def)
  then show "0 \<le> sint (wr_balance r)" using wallet_ok_balance by (simp add: balance_int_def)
  assume "l \<in> set (book (wr_id r) (ledger d))"
  then have "l \<in> set (ledger d)" and id: "lr_wallet l = wr_id r" by (auto simp: book_def)
  then obtain q where "q \<in> set (wallets d)" "wr_id q = lr_wallet l" "wr_currency q = lr_currency l"
    using I(3) by (auto simp: ledger_inv_def ledger_foreign_keys_def list_ex_iff)
  with wallets_inv_row [OF I(1) this(1), of r] r id show "lr_currency l = wr_currency r" by simp
qed

lemma replay_total: "replay b ls = Some c \<Longrightarrow>
   c = b + sum_list (map (\<lambda>l. signed_amount (lr_direction l) (sint (lr_money l))) ls)"
  by (induction b ls rule: replay.induct) (auto split: if_splits)

lemma deferred_accepts:
  assumes inv: "db_inv iso4217 d" shows "deferred_ok d0 d"
proof -
  have "wallet_consistent d w" if "w \<in> set (wallets d)" for w
    using replay_total [OF wallet_row_facts(1) [OF inv that]]
    by (simp add: wallet_consistent_def ledger_total_def book_def)
  moreover have "processed_has_ledger d r" if "r \<in> set (txns d)" for r
    using moved_entry [OF inv that] by (auto simp: processed_has_ledger_def moved_def list_ex_iff)
  ultimately show ?thesis by (simp add: deferred_ok_def list_all_iff)
qed

lemma reversal_facts:
  assumes inv: "db_inv iso4217 d" and r: "r \<in> set (txns d)" "successful_reversal r"
  obtains q l m where "q \<in> set (txns d)" "tr_ref_id r = Some (tr_id q)" "reference_fits r q"
    "l \<in> set (ledger d)" "lr_transaction l = tr_id r" "m \<in> set (ledger d)" "lr_transaction m = tr_id q"
    "lr_wallet l = lr_wallet m" "lr_money l = lr_money m"
    "signed_amount (lr_direction l) (sint (lr_money l)) = - signed_amount (lr_direction m) (sint (lr_money m))"
proof -
  have rs: "reference_settled (txns d) r" using inv r(1) by (simp add: db_inv_def txns_inv_def)
  have st: "tr_status r = StatusProcessed" "reversal_kind (tr_kind r)"
    using r(2) by (auto simp: successful_reversal_def)
  with rs obtain q where q: "q \<in> set (txns d)" "tr_ref_id r = Some (tr_id q)" "reference_fits r q"
    by (auto simp: reference_settled_def)
  have mr: "moved r" and mq: "moved q"
    using st q(3) by (auto simp: moved_def reversal_kind_def reference_fits_def)
  obtain l m where l: "l \<in> set (ledger d)" "lr_transaction l = tr_id r"
    and m: "m \<in> set (ledger d)" "lr_transaction m = tr_id q"
    using moved_entry [OF inv r(1) mr] moved_entry [OF inv q(1) mq] by blast
  note el = entry_matches [OF inv r(1) l] and em = entry_matches [OF inv q(1) m]
  have fq: "find_txn (tr_id q) d = Some q" using find_txn_iff [OF db_invD(6) [OF inv]] q(1) by simp
  have "lr_wallet l = lr_wallet m" "lr_money l = lr_money m"
    using el em q(3) st(2) by (auto simp: reference_fits_def)
  moreover have "signed_amount (lr_direction l) (sint (lr_money l)) = - signed_amount (lr_direction m) (sint (lr_money m))"
    using el em q(3) st(2) fq q(2)
    by (auto simp: reference_fits_def reversal_kind_def expected_direction_def)
  ultimately show thesis using that q l m by blast
qed

section \<open>The ledger\<close>

text \<open>
  C1: In every reachable state the stored balance of a wallet is what the replay of its
  ledger entries from zero gives, where each entry starts at the balance the previous one
  left and none leaves a negative balance; every entry is in the wallet's currency.
\<close>

theorem wallet_balance_is_ledger:
  assumes "reachable sv st" and "r \<in> set (wallets (fst st))"
  shows "replay 0 (book (wr_id r) (ledger (fst st))) = Some (sint (wr_balance r)) \<and>
    0 \<le> sint (wr_balance r) \<and>
    (\<forall>l \<in> set (book (wr_id r) (ledger (fst st))). lr_currency l = wr_currency r)"
  using wallet_row_facts [OF reachable_db_inv [OF assms(1)] assms(2)] by blast

lemma wallet_balance_is_ledger_witness:
  "replay 0 (book ''w'' (ledger db_refund)) = Some 10000 \<and>
   book ''w'' (ledger db_refund) \<noteq> []"
  using wallet_balance_is_ledger [OF reachable_refund, of "sample_row 10000 3 7"]
  by (simp add: db_refund_def book_def sample_entry_def db_bet_def)

text \<open>
  C2: In every reachable state a processed transaction other than a \<open>LOSS\<close> has exactly
  one ledger entry and any other transaction has none; the entry has the wallet, the currency
  and the amount of the transaction, the direction its kind demands, and leaves the balance
  the transaction reports.
\<close>

theorem one_entry_per_movement:
  assumes "reachable sv st" and "r \<in> set (txns (fst st))"
  shows "length (filter (\<lambda>l. lr_transaction l = tr_id r) (ledger (fst st))) = (if moved r then 1 else 0) \<and>
    (\<forall>l \<in> set (ledger (fst st)). lr_transaction l = tr_id r \<longrightarrow>
       lr_wallet l = tr_wallet r \<and> lr_currency l = tr_currency r \<and> lr_money l = tr_money r \<and>
       Some (lr_after l) = tr_result r \<and>
       expected_direction (fst st) r = Some (lr_direction l))"
  using entry_count [OF reachable_db_inv [OF assms(1)] assms(2)]
    entry_matches [OF reachable_db_inv [OF assms(1)] assms(2)] by blast

lemma one_entry_per_movement_witness:
  "length (filter (\<lambda>l. lr_transaction l = ''t1'') (ledger db_refund)) = 1"
  using one_entry_per_movement [OF reachable_refund, of "txn_row_of bet_txn"]
  by (simp add: db_refund_def db_bet_def moved_def)

text \<open>
  C4: In every reachable state a processed \<open>REFUND\<close> or \<open>ROLLBACK\<close> refers to a
  processed transaction of the same provider, player, wallet, round, currency and amount and
  of a kind it may reverse; the two ledger entries move the same amount in opposite
  directions; and no other reversal of that transaction was processed.
\<close>

theorem reversal_exact_and_unique:
  assumes "reachable sv st" and "r \<in> set (txns (fst st))" and "successful_reversal r"
  shows "(\<exists>q \<in> set (txns (fst st)). \<exists>l \<in> set (ledger (fst st)). \<exists>m \<in> set (ledger (fst st)).
      tr_ref_id r = Some (tr_id q) \<and> reference_fits r q \<and>
      lr_transaction l = tr_id r \<and> lr_transaction m = tr_id q \<and>
      lr_wallet l = lr_wallet m \<and>
      signed_amount (lr_direction l) (sint (lr_money l)) =
        - signed_amount (lr_direction m) (sint (lr_money m))) \<and>
    (\<forall>r' \<in> set (txns (fst st)). successful_reversal r' \<and> tr_ref_id r' = tr_ref_id r \<longrightarrow> r' = r)"
proof
  note inv = reachable_db_inv [OF assms(1)]
  from reversal_facts [OF inv assms(2,3)] obtain q l m where
    f: "q \<in> set (txns (fst st))" "tr_ref_id r = Some (tr_id q)" "reference_fits r q"
    "l \<in> set (ledger (fst st))" "lr_transaction l = tr_id r" "m \<in> set (ledger (fst st))"
    "lr_transaction m = tr_id q" "lr_wallet l = lr_wallet m"
    "signed_amount (lr_direction l) (sint (lr_money l)) = - signed_amount (lr_direction m) (sint (lr_money m))"
    by metis
  then show "\<exists>q \<in> set (txns (fst st)). \<exists>l \<in> set (ledger (fst st)). \<exists>m \<in> set (ledger (fst st)).
      tr_ref_id r = Some (tr_id q) \<and> reference_fits r q \<and>
      lr_transaction l = tr_id r \<and> lr_transaction m = tr_id q \<and>
      lr_wallet l = lr_wallet m \<and>
      signed_amount (lr_direction l) (sint (lr_money l)) =
        - signed_amount (lr_direction m) (sint (lr_money m))" by blast
  show "\<forall>r' \<in> set (txns (fst st)). successful_reversal r' \<and> tr_ref_id r' = tr_ref_id r \<longrightarrow> r' = r"
    using keys_ok_clash [OF db_invD(6) [OF inv] _ assms(2)] assms(3) f(2) by (simp add: txn_clash_def)
qed

lemma reversal_exact_and_unique_witness:
  "\<exists>q \<in> set (txns db_refund). tr_ref_id (txn_row_of refund_txn) = Some (tr_id q) \<and>
     reference_fits (txn_row_of refund_txn) q"
proof -
  have "successful_reversal (txn_row_of refund_txn)"
    by (simp add: successful_reversal_def reversal_kind_def sample_txn_def)
  with reversal_exact_and_unique [OF reachable_refund, of "txn_row_of refund_txn"]
  show ?thesis by (auto simp: db_refund_def)
qed

section \<open>The outbox\<close>

text \<open>
  C14: In every reachable state a transaction has exactly one outcome event in the outbox
  when its status is terminal and none before, and the \<open>WalletBalanceChanged\<close> events are
  the ledger entries, in the order of the ledger, with the same amounts and balances.
\<close>

theorem events_mirror_the_store:
  assumes "reachable sv st"
  shows "outcomes tid (events (fst st)) = (if decided tid (txns (fst st)) then 1 else 0) \<and>
    changes (events (fst st)) = map ledger_change (ledger (fst st))"
  using db_invD(5) [OF reachable_db_inv [OF assms]] by (simp add: outbox_inv_def flip: decided_def)

lemma events_mirror_the_store_witness:
  "outcomes ''t2'' (events db_refund) = 1 \<and> length (changes (events db_refund)) = 3"
  using events_mirror_the_store [OF reachable_refund, of "''t2''"]
  by (simp add: db_refund_def db_bet_def db_opened_def decided_def terminal_status_def sample_txn_def)

text \<open>
  C16: In every reachable state an event marked as published has been sent to the queue,
  whatever failed or was lost between the two, and every message sent is a stored event
  with its aggregate as group and its identifier as deduplication key.
\<close>

theorem published_was_sent:
  assumes "reachable sv (d, ms)"
  shows "(\<forall>r \<in> set (outbox d). or_published r \<noteq> None \<longrightarrow> publish (or_event r) \<in> set ms) \<and>
    set ms \<subseteq> publish ` set (events d)"
  using reachable_inv [OF assms] by (simp add: system_inv_def sent_before_def only_stored_def)

lemma published_was_sent_witness:
  "\<exists>r \<in> set (outbox (fst sample_relay)). or_published r = Some 9 \<and>
     publish (or_event r) \<in> set (snd sample_relay)"
  using published_was_sent [of sample_service "fst sample_relay" "snd sample_relay"]
    reachable_relay sample_relay_published by auto

section \<open>History\<close>

text \<open>
  C15: No continuation of a run undoes anything: rows never disappear, a transaction in a
  terminal status never changes again, the identity of a transaction and of a wallet stays,
  versions and attempt counters do not decrease, the ledger is only appended to, and stored
  events keep their content, place and publication time.
\<close>

theorem history_is_final:
  assumes "reachable sv st" and "(served sv)\<^sup>*\<^sup>* st st'"
  shows "db_below (fst st) (fst st')"
  by (rule served_run_below [OF assms(2) reachable_inv [OF assms(1)]])

lemma history_is_final_witness: "db_below db_opened db_bet"
proof -
  have "served sample_service (db_opened, []) (db_bet, [])"
    using served.intros [of "ProcessWager (sample_call 6 [''t1'', ''l1'', ''e2'', ''e3'']) bet_cmd"
      sample_service "(db_opened, [])"] by (simp add: sample_process_bet)
  then show ?thesis
    using history_is_final [OF reachable_opened, of "(db_bet, [])"] by (simp add: r_into_rtranclp)
qed

section \<open>Commit and rollback\<close>

text \<open>
  C20: The deferred triggers of the schema never reject what the services write: from a
  reachable state, whenever the statements of a call succeed, the check at the commit does.
\<close>

theorem deferred_triggers_accept:
  assumes "reachable sv (d, ms)" and "s_db s = d"
  shows "(process_tx sv cmd co ca now s = Inr (res, s') \<longrightarrow> deferred_ok d (s_db s')) \<and>
    (resolve_pending_tx sv tid now s = Inr (u, s') \<longrightarrow> deferred_ok d (s_db s')) \<and>
    (record_failure_tx sv tid now s = Inr (u, s') \<longrightarrow> deferred_ok d (s_db s')) \<and>
    (wallet_ok (sv_iso sv) w \<longrightarrow>
      create_tx sv w (wallet_balance w) co now s = Inr (u, s') \<longrightarrow> deferred_ok d (s_db s'))"
proof -
  have inv: "db_inv (sv_iso sv) (s_db s)" using reachable_db_inv [OF assms(1)] assms(2) by simp
  have ok: "(db_step (sv_iso sv))\<^sup>*\<^sup>* (s_db s) (s_db s') \<Longrightarrow> deferred_ok d (s_db s')"
    using run_sound [OF _ inv] deferred_accepts by blast
  show ?thesis
    using ok process_txD [OF inv] resolve_pending_txD [OF inv] record_failure_txD [OF inv]
      create_txD [OF inv] by (meson r_into_rtranclp)
qed


lemma deferred_triggers_accept_witness:
  "\<exists>s'. process_tx sample_service bet_cmd ''c'' []  6 (sample_session db_opened [''t1'', ''l1'', ''e2'', ''e3'']) =
       Inr (result_from bet_txn (brl 7500) False, s') \<and> deferred_ok db_opened (s_db s')"
proof -
  obtain s' where "process_tx sample_service bet_cmd ''c'' [] 6
      (sample_session db_opened [''t1'', ''l1'', ''e2'', ''e3'']) = Inr (result_from bet_txn (brl 7500) False, s')"
    using sample_process_bet_tx by blast
  with deferred_triggers_accept [OF reachable_opened, of "sample_session db_opened [''t1'', ''l1'', ''e2'', ''e3'']"]
  show ?thesis by (simp add: sample_session_def)
qed

lemma within_atomic:
  "\<not> c_ack_lost c \<Longrightarrow> within_transaction c n fn d = (Inl e, d') \<Longrightarrow> d' = d"
  by (auto simp: within_transaction_def split: sum.splits prod.splits if_splits)

lemma process_atomic:
  assumes "\<not> c_ack_lost c" and "process sv c cmd d = (Inl e, d')" shows "d' = d"
proof (cases "sv_valid sv cmd")
  case True
  with assms(2) show ?thesis by (simp add: process_def Let_def within_atomic [OF assms(1)])
next
  case False
  with assms(2) show ?thesis by (simp add: process_def)
qed

end
