(* ===== verification/Processing.thy ===== *)
theory Processing
  imports Guarantees
begin

text \<open>
  What \<open>Process\<close> answers. First the replay of a stored command; then, for a call that no
  failure of the infrastructure disturbs, the outcome of a new command: every statement it
  issues passes the constraints of the schema, so the answer is the one of the rules.
\<close>

section \<open>Undisturbed calls\<close>

text \<open>
  \<open>uuid.NewString\<close> gives identifiers not used before: the first six of a call, more
  than any call draws.
\<close>

definition used_ids :: "db \<Rightarrow> string set" where
  "used_ids d = tr_id ` set (txns d) \<union> lr_id ` set (ledger d) \<union> oe_id ` set (events d) \<union>
     wr_id ` set (wallets d)"

definition undisturbed :: "call \<Rightarrow> db \<Rightarrow> bool" where
  "undisturbed c d \<longleftrightarrow>
     c_fault c = None \<and> \<not> c_ack_lost c \<and> c_now c \<noteq> 0 \<and>
     distinct (map (c_ids c) [0..<6]) \<and>
     (\<forall>n \<in> set [0..<6]. c_ids c n \<noteq> [] \<and> c_ids c n \<notin> used_ids d)"

text \<open>What is left of the supply after \<open>k\<close> draws.\<close>

definition supplied :: "(nat \<Rightarrow> string) \<Rightarrow> nat \<Rightarrow> db \<Rightarrow> bool" where
  "supplied ids k d \<longleftrightarrow>
     distinct (map ids [k..<6]) \<and> (\<forall>n \<in> set [k..<6]. ids n \<noteq> [] \<and> ids n \<notin> used_ids d)"

lemma supplied_mono: "supplied ids k d \<Longrightarrow> k \<le> m \<Longrightarrow> supplied ids m d"
proof -
  assume s: "supplied ids k d" and k: "k \<le> m"
  have "set [m..<6] \<subseteq> set [k..<6]" using k by auto
  with s show ?thesis
    unfolding supplied_def distinct_map by (meson distinct_upt inj_on_subset subsetD)
qed

lemma supplied_fresh:
  assumes "supplied ids k d" and "k \<le> n" and "n < 6"
  shows "ids n \<noteq> []" and "r \<in> set (txns d) \<Longrightarrow> tr_id r \<noteq> ids n"
    and "l \<in> set (ledger d) \<Longrightarrow> lr_id l \<noteq> ids n" and "ev \<in> set (events d) \<Longrightarrow> oe_id ev \<noteq> ids n"
proof -
  have n: "n \<in> set [k..<6]" using assms(2,3) by simp
  with assms(1) have f: "ids n \<noteq> []" "ids n \<notin> used_ids d" by (auto simp: supplied_def)
  then show "ids n \<noteq> []" by simp
  show "r \<in> set (txns d) \<Longrightarrow> tr_id r \<noteq> ids n"
    and "l \<in> set (ledger d) \<Longrightarrow> lr_id l \<noteq> ids n" and "ev \<in> set (events d) \<Longrightarrow> oe_id ev \<noteq> ids n"
    using f(2) by (force simp: used_ids_def)+
qed

lemma supplied_distinct:
  assumes "supplied ids k d" and "k \<le> m" and "m < n" and "n < 6" shows "ids m \<noteq> ids n"
proof -
  have "m \<in> set [k..<6]" "n \<in> set [k..<6]" using assms(2-4) by simp_all
  with assms(1,3) show ?thesis unfolding supplied_def distinct_map by (metis inj_onD less_irrefl_nat)
qed

lemma exec_done: "steady s \<Longrightarrow> st (s_db s) = Inr (x, d) \<Longrightarrow> exec st s = Inr (x, s\<lparr>s_db := d\<rparr>)"
  by (simp add: exec_steady)

lemma select_done: "steady s \<Longrightarrow> q (s_db s) = Inr x \<Longrightarrow> select q s = Inr (x, s)"
  by (simp add: select_steady)

lemma steady_same [simp]: "s\<lparr>s_db := s_db s\<rparr> = s"
  by simp

section \<open>The constraints on a new transaction\<close>

definition new_txn_ok :: "(string \<Rightarrow> bool) \<Rightarrow> wager \<Rightarrow> bool" where
  "new_txn_ok iso4217 t \<longleftrightarrow>
     wager_inv iso4217 t \<and> wt_attempts t \<le> 2147483647 \<and>
     (reversal_kind (wt_kind t) \<longrightarrow> wt_ref_external t \<noteq> []) \<and>
     (wt_kind t = KindBet \<or> wt_kind t = KindLoss \<longrightarrow> wt_ref_external t = [])"

lemma new_txn_ok_step:
  "new_txn_ok iso4217 t \<Longrightarrow> wager_step iso4217 t t' \<Longrightarrow> wt_attempts t' \<le> 2147483647 \<Longrightarrow> new_txn_ok iso4217 t'"
  using wager_step_identity [of iso4217 t t'] wager_step_inv [of iso4217 t t']
  by (auto simp: new_txn_ok_def wager_identity_def)

lemma new_txn_ok_same:
  "new_txn_ok iso4217 t \<Longrightarrow> wager_step iso4217 t t' \<Longrightarrow> wt_attempts t' = wt_attempts t \<Longrightarrow> new_txn_ok iso4217 t'"
  by (rule new_txn_ok_step) (auto simp: new_txn_ok_def)

lemma parse_currency_check: "parse_currency iso4217 c \<Longrightarrow> currency_check c"
  by (simp add: parse_currency_def currency_check_def)

lemma nullif_eq_None [simp]: "nullif x = None \<longleftrightarrow> x = []"
  by (simp add: nullif_def)

lemma txn_checks_ok:
  assumes t: "new_txn_ok iso4217 t"
  shows "txn_checks (txn_row_of t)"
proof -
  have inv: "wager_ok iso4217 t" "external_kind (wt_kind t)" "0 \<le> wt_attempts t" "wt_attempts t \<le> 2147483647"
    using t by (auto simp: new_txn_ok_def wager_inv_def)
  then have am: "amount_ok (wt_kind t) (wt_money t)" and st: "status_ok iso4217 t"
    and cur: "currency_check (money_currency (wt_money t))"
    and ref: "wt_ref_external t = [] \<Longrightarrow> wt_ref_id t = []"
    by (auto simp: wager_ok_def intro: parse_currency_check)
  have "wt_kind t \<noteq> KindOpening" using inv(2) by auto
  have money: "if wt_kind t = KindLoss then sint (money_minor (wt_money t)) = 0
      else 0 < sint (money_minor (wt_money t))"
    using am by (simp add: amount_ok_def money_int_def split: if_splits)
  have refp: "reversal_kind (wt_kind t) \<and> wt_ref_external t \<noteq> [] \<or> wt_kind t = KindWin \<or>
      \<not> reversal_kind (wt_kind t) \<and> wt_kind t \<noteq> KindWin \<and> wt_ref_external t = [] \<and> wt_ref_id t = []"
    using t inv(2) ref by (cases rule: external_kind_cases [OF inv(2)]) (auto simp: new_txn_ok_def reversal_kind_def)
  have res: "case map_option money_minor (wt_result t) of None \<Rightarrow> True | Some b \<Rightarrow> 0 \<le> sint b"
      "case map_option money_currency (wt_result t) of None \<Rightarrow> True | Some c \<Rightarrow> currency_check c"
    using st by (cases "wt_status t";
        auto simp: status_ok_def terminal_result_ok_def money_int_def dest: parse_currency_check)+
  have pol: "if terminal_status (wt_status t) then wt_result t \<noteq> None else wt_result t = None"
      "(wt_status t = StatusRejected \<or> wt_status t = StatusFailed) \<longleftrightarrow> wt_failure t \<noteq> []"
      "wt_result t = None \<or> wt_status t = StatusRejected \<or>
        map_option money_currency (wt_result t) = Some (money_currency (wt_money t))"
      "wt_status t = StatusPending \<or> wt_status t = StatusPendingReference \<or>
      wt_status t = StatusProcessed \<or> wt_status t = StatusRejected \<or> wt_status t = StatusFailed"
    using st by (cases "wt_status t";
        auto simp: status_ok_def terminal_result_ok_def terminal_status_def result_currency_of_def)+
  have m0: "0 \<le> sint (money_minor (wt_money t))" using money by (auto split: if_splits)
  show ?thesis
    unfolding txn_checks_def
    using money refp res pol m0 cur inv(2-4) \<open>wt_kind t \<noteq> KindOpening\<close> by (simp split: if_splits)
qed

text \<open>A new transaction of a stored wallet, with unused keys.\<close>

definition insertable :: "db \<Rightarrow> wager \<Rightarrow> bool" where
  "insertable d t \<longleftrightarrow>
     (\<forall>r \<in> set (txns d). tr_id r \<noteq> wt_id t) \<and>
     find_by_key (wt_provider t) (wt_key t) d = None \<and>
     find_by_external (wt_provider t) (wt_external t) d = None \<and>
     (\<exists>w \<in> set (wallets d). wr_id w = wt_wallet t \<and>
        (wt_status t = StatusRejected \<or>
         wr_player w = wt_player t \<and> wr_currency w = money_currency (wt_money t))) \<and>
     (wt_ref_id t \<noteq> [] \<longrightarrow> (\<exists>q \<in> set (txns d). tr_id q = wt_ref_id t)) \<and>
     (wt_status t = StatusProcessed \<and> reversal_kind (wt_kind t) \<longrightarrow>
        \<not> list_ex (\<lambda>q. tr_ref_id q = Some (wt_ref_id t) \<and> successful_reversal q) (txns d))"

lemma find_None: "find p xs = None \<longleftrightarrow> (\<forall>x \<in> set xs. \<not> p x)"
  by (auto simp: find_None_iff)

lemma insertable_guards:
  assumes i: "insertable d t" and t: "new_txn_ok iso4217 t"
  shows "txn_guards d (txns d) (txn_row_of t) = Inr ()"
proof -
  have "\<not> txn_clash q (txn_row_of t)" if q: "q \<in> set (txns d)" for q
    using i q by (auto simp: insertable_def txn_clash_def find_by_key_def find_by_external_def find_None
        successful_reversal_def list_ex_iff nullif_def split: if_splits)
  moreover have "wager_identity_guard d (txn_row_of t)"
    using i by (auto simp: insertable_def wager_identity_guard_def list_ex_iff)
  moreover have "txn_foreign_keys d (txn_row_of t)"
    using i by (auto simp: insertable_def txn_foreign_keys_def list_ex_iff nullif_def split: if_splits)
  ultimately show ?thesis
    using txn_checks_ok [OF t] by (simp add: txn_guards_ok txn_unique_def list_all_iff)
qed

lemma insert_done:
  assumes "steady s" and "insertable (s_db s) t" and "new_txn_ok iso4217 t"
  shows "save_transaction True t s = Inr ((), s\<lparr>s_db := s_db s\<lparr>txns := txns (s_db s) @ [txn_row_of t]\<rparr>\<rparr>)"
  unfolding save_transaction_def insert_transaction_def insert_txn_row_def
  using insertable_guards [OF assms(2,3)] assms(1) by (simp add: exec_steady)

lemma emit_done:
  assumes "steady s" and "\<And>ev. ev \<in> set (events (s_db s)) \<Longrightarrow> oe_id ev \<noteq> s_ids s (s_drawn s)"
  shows "emit ty ag co ca now dat s =
    Inr ((), s\<lparr>s_drawn := Suc (s_drawn s), s_db := s_db s\<lparr>outbox := outbox (s_db s) @
      [outbox_row_of (new_event (s_ids s (s_drawn s)) ty ag co ca now dat)]\<rparr>\<rparr>)"
proof -
  have "\<not> list_ex (\<lambda>r. oe_id (or_event r) = s_ids s (s_drawn s)) (outbox (s_db s))"
    using assms(2) by (auto simp: list_ex_iff events_def)
  with assms(1) show ?thesis
    by (simp add: emit_def tx_bind_def new_uuid_def insert_outbox_def exec_steady)
qed

section \<open>Moving money\<close>

lemma update_wallet_done:
  assumes inv: "wallets_inv iso4217 (s_db s)" and st: "steady s"
    and w: "wallet_row_of w \<in> set (wallets (s_db s))" "wallet_ok iso4217 w" "wallet_version w \<noteq> max_int64"
    and m: "0 \<le> money_int after" "money_currency after = money_currency (wallet_balance w)" "now \<noteq> 0"
  shows "update_wallet (wallet_apply w after now) s =
    Inr ((), s\<lparr>s_db := s_db s\<lparr>wallets := put_wallet (wallet_apply w after now) (wallets (s_db s))\<rparr>\<rparr>)"
proof -
  let ?w = "wallet_apply w after now" and ?ws = "wallets (s_db s)"
  let ?target = "\<lambda>r. wr_id r = wallet_id ?w \<and> sint (wr_version r) = sint (wallet_version ?w) - 1"
  have ok: "wallet_ok iso4217 ?w" by (rule movement_preserves_wallet_ok [OF w(2) m(1,3,2) w(3)])
  have "int64_range (sint (wallet_version w) + 1)"
    using w(3) sint_le_max [of "wallet_version w"] sint_ge_min [of "wallet_version w"]
    by (auto simp: int64_range_def int64_eq_iff_sint)
  then have ver: "sint (wallet_version ?w) = sint (wallet_version w) + 1"
    using sint_add_exact [of "wallet_version w" 1] by simp
  have pos: "1 \<le> sint (wallet_version w)" using w(2) by (simp add: wallet_ok_def sless_iff_sint)
  have nmin: "wallet_version ?w \<noteq> min_int64"
    using ver pos by (metis sint_min_int64 add_nonneg_nonneg le_minus_one_simps(3) neg_numeral_le_zero
      order_trans zero_le_one not_one_le_neg_numeral add_increasing2)
  have row: "r = wallet_row_of w" if "r \<in> set ?ws" "wr_id r = wallet_id w" for r
    using wallets_inv_row [OF inv that(1), of "wallet_row_of w"] w(1) that(2) by simp
  have tgt: "?target r \<longleftrightarrow> wr_id r = wallet_id w" if "r \<in> set ?ws" for r
    using row [OF that] ver by auto
  have cnt: "count_where ?target ?ws = 1"
  proof -
    have "filter ?target ?ws = filter (\<lambda>r. wr_id r = wallet_id w) ?ws" by (rule filter_cong [OF refl tgt])
    moreover have "length (filter (\<lambda>r. wr_id r = wallet_id w) ?ws) = 1"
      using inv w(1) distinct_filter_key [of wr_id ?ws "wallet_id w"]
      by (force simp: wallets_inv_def)
    ultimately show ?thesis by (simp add: count_where_def)
  qed
  have chk: "wallet_checks (moved_wallet ?w r)" if "r \<in> set ?ws" "?target r" for r
    using row [OF that(1)] that(2) ok
    by (auto simp: moved_wallet_def wallet_checks_def wallet_ok_def sless_iff_sint is_negative_def
      dest: parse_currency_check) (auto simp: w wallet_ok_def m(2) intro: parse_currency_check)
  have eq: "update_where ?target (moved_wallet ?w) ?ws = put_wallet ?w ?ws"
    unfolding put_wallet_moved [OF inv w(1) m(2)] by (rule update_where_cong [OF tgt refl])
  show ?thesis
    unfolding update_wallet_def Let_def moved_wallet_def [symmetric]
    using nmin cnt chk st eq by (simp add: exec_steady list_ex_iff)
qed

lemma insert_ledger_done:
  assumes inv: "db_inv iso4217 d" and st: "steady s"
    and d: "s_db s = d\<lparr>txns := txns d @ [txn_row_of t], wallets := ws\<rparr>"
    and k: "keys_ok (txns (s_db s))" and w: "wallet_row_of w' \<in> set ws"
    and e: "new_ledger_entry iso4217 lid (wallet_id w') (wt_id t) dir (wt_money t) before after now = Inr e"
    and t: "wt_status t = StatusProcessed" "wt_kind t \<noteq> KindLoss" "wt_result t = Some after" "wallet_id w' = wt_wallet t"
      "money_currency (wallet_balance w') = money_currency (wt_money t)"
    and dir: "expected_direction d (txn_row_of t) = Some dir"
    and new: "\<And>r. r \<in> set (txns d) \<Longrightarrow> tr_id r \<noteq> wt_id t" "\<And>l. l \<in> set (ledger d) \<Longrightarrow> lr_id l \<noteq> lid"
    and b: "0 \<le> money_int before"
  shows "insert_ledger e s = Inr ((), s\<lparr>s_db := s_db s\<lparr>ledger := ledger d @ [ledger_row_of e]\<rparr>\<rparr>)"
proof -
  note row = entry_row [OF e]
  let ?l = "ledger_row_of e"
  have led: "ledger (s_db s) = ledger d" by (simp add: d)
  have kd: "keys_ok (txns d)" using db_invD(6) [OF inv] .
  have f: "find_txn (wt_id t) (s_db s) = Some (txn_row_of t)"
    using find_txn_iff [OF k] by (simp add: d)
  have "expected_direction (s_db s) (txn_row_of t) = Some dir"
    by (rule expected_direction_below [OF kd k _ dir]) (simp add: d)
  then have g: "ledger_guard (s_db s) ?l"
    using f row t by (simp add: ledger_guard_def)
  have c: "ledger_checks ?l"
  proof -
    have "dir = DirectionDebit \<or> dir = DirectionCredit" "parse_currency iso4217 (money_currency before)"
      using e by (auto simp: new_ledger_entry_ok)
    then show ?thesis
      using row b by (simp add: ledger_checks_def parse_currency_check flip: money_int_def)
  qed
  have u: "ledger_unique (ledger d) ?l"
  proof -
    have "lr_transaction m \<noteq> wt_id t" if m: "m \<in> set (ledger d)" for m
      using ledger_entry_of [OF inv m] new(1) by metis
    moreover have "lr_id ?l = lid" using e by (auto simp: new_ledger_entry_ok ledger_row_of_def)
    ultimately show ?thesis using new(2) row(2) by (auto simp: ledger_unique_def list_all_iff)
  qed
  have fk: "ledger_foreign_keys (s_db s) ?l"
    using w row t(5) by (auto simp: ledger_foreign_keys_def list_ex_iff d intro!: bexI)
  show ?thesis
    unfolding insert_ledger_def Let_def using g c u fk st led by (simp add: exec_steady)
qed

lemma settle_done:
  assumes inv: "db_inv (sv_iso sv) d" and st: "steady s" and d: "s_db s = d"
    and w: "wallet_row_of w \<in> set (wallets d)" "wallet_ok (sv_iso sv) w" "wallet_version w \<noteq> max_int64"
      "wallet_id w = wt_wallet t"
    and t: "new_txn_ok (sv_iso sv) t" "wt_status t = StatusPending" "wt_kind t \<noteq> KindLoss"
    and m: "moves_by (sv_iso sv) w (wt_money t) now dr after"
    and t': "t' = t\<lparr>wt_status := StatusProcessed, wt_result := Some after, wt_failure := [],
            wt_next := None, wt_updated := now\<rparr>"
    and ins: "insertable d t'" and dir: "expected_direction d (txn_row_of t') = Some dr"
    and ids: "supplied (s_ids s) (s_drawn s) d" "s_drawn s + 3 \<le> 6"
  shows "\<exists>s' e. settle_tx sv t (Some dr) (wallet_balance w) after (wallet_apply w after now) co ca now True s =
      Inr ((t', wallet_apply w after now), s') \<and> steady s' \<and>
    txns (s_db s') = txns d @ [txn_row_of t'] \<and>
    wallets (s_db s') = put_wallet (wallet_apply w after now) (wallets d) \<and>
    ledger (s_db s') = ledger d @ [e] \<and> inbox (s_db s') = inbox d \<and>
    lr_wallet e = wallet_id w \<and> lr_transaction e = wt_id t' \<and> lr_direction e = dr \<and>
    lr_money e = money_minor (wt_money t') \<and> lr_before e = money_minor (wallet_balance w) \<and>
    lr_after e = money_minor after"
proof -
  let ?w = "wallet_apply w after now" and ?i = "s_ids s" and ?n = "s_drawn s"
  have mp: "mark_processed (sv_iso sv) t after now = Inr t'"
    using t(2) m by (auto simp: mark_processed_ok moves_by_def t')
  have ok': "new_txn_ok (sv_iso sv) t'" by (rule new_txn_ok_same [OF t(1) wager_step.processed [OF mp]]) (simp add: t')
  have s1: "save_transaction True t' s = Inr ((), s\<lparr>s_db := d\<lparr>txns := txns d @ [txn_row_of t']\<rparr>\<rparr>)"
    using insert_done [OF st _ ok'] ins d by simp
  let ?s1 = "s\<lparr>s_db := d\<lparr>txns := txns d @ [txn_row_of t']\<rparr>\<rparr>"
  have wi: "wallets_inv (sv_iso sv) (s_db ?s1)" using db_invD(1) [OF inv] by (simp add: wallets_inv_def)
  have s2: "update_wallet ?w ?s1 = Inr ((), s\<lparr>s_db := d\<lparr>txns := txns d @ [txn_row_of t'],
      wallets := put_wallet ?w (wallets d)\<rparr>\<rparr>)"
    using update_wallet_done [OF wi _ _ w(2,3), of after now] st w(1) m by (simp add: moves_by_def)
  let ?s2 = "s\<lparr>s_db := d\<lparr>txns := txns d @ [txn_row_of t'], wallets := put_wallet ?w (wallets d)\<rparr>, s_drawn := Suc ?n\<rparr>"
  have n6: "?n < 6" "Suc ?n < 6" "Suc (Suc ?n) < 6" using ids(2) by simp_all
  have same: "wt_id t' = wt_id t" "wt_money t' = wt_money t" "wt_kind t' = wt_kind t" "wt_wallet t' = wt_wallet t"
    by (simp_all add: t')
  have tid: "wt_id t \<noteq> []" "wallet_id w \<noteq> []" using t(1) w(2) by (auto simp: new_txn_ok_def wager_inv_def wager_ok_def wallet_ok_def)
  have pc: "parse_currency (sv_iso sv) (money_currency (wallet_balance w))" using w(2) by (simp add: wallet_ok_def)
  obtain e where e: "new_ledger_entry (sv_iso sv) (?i ?n) (wallet_id ?w) (wt_id t') dr (wt_money t')
       (wallet_balance w) after now = Inr e"
    using m tid pc supplied_fresh(1) [OF ids(1) order_refl n6(1)]
    by (auto simp: new_ledger_entry_ok moves_by_def same)
  have un: "txn_guards d (txns d) (txn_row_of t') = Inr ()" by (rule insertable_guards [OF ins ok'])
  have k2: "keys_ok (txns (s_db ?s2))" using db_invD(6) [OF inv] un by (simp add: keys_ok_snoc txn_guards_ok)
  have w2: "wallet_row_of ?w \<in> set (put_wallet ?w (wallets d))"
    using w(1) by (auto simp: put_wallet_def set_update_where)
  have s3: "insert_ledger e ?s2 = Inr ((), ?s2\<lparr>s_db := s_db ?s2\<lparr>ledger := ledger d @ [ledger_row_of e]\<rparr>\<rparr>)"
  proof (rule insert_ledger_done [OF inv _ _ k2 w2 e])
    show "\<And>r. r \<in> set (txns d) \<Longrightarrow> tr_id r \<noteq> wt_id t'" using ins by (simp add: insertable_def)
    show "\<And>l. l \<in> set (ledger d) \<Longrightarrow> lr_id l \<noteq> ?i ?n" by (rule supplied_fresh(3) [OF ids(1) order_refl n6(1)])
    show "0 \<le> money_int (wallet_balance w)" using wallet_ok_balance [OF w(2)] by (simp add: balance_int_money)
  qed (use st w t m dir in \<open>simp_all add: t' moves_by_def\<close>)
  let ?s3 = "?s2\<lparr>s_db := s_db ?s2\<lparr>ledger := ledger d @ [ledger_row_of e]\<rparr>\<rparr>"
  have ev3: "events (s_db ?s3) = events d" by (simp add: events_def)
  let ?ev = "new_event (?i (Suc ?n)) EventWagerTransactionProcessed (wt_id t') co ca now (processed_event t' ?w after)"
  have s4: "emit EventWagerTransactionProcessed (wt_id t') co ca now (processed_event t' ?w after) ?s3 =
      Inr ((), ?s3\<lparr>s_drawn := Suc (Suc ?n), s_db := s_db ?s3\<lparr>outbox := outbox d @ [outbox_row_of ?ev]\<rparr>\<rparr>)"
    using emit_done [of ?s3] st supplied_fresh(4) [OF ids(1) _ n6(2)] by (simp add: ev3) (simp add: events_def)
  let ?s4 = "?s3\<lparr>s_drawn := Suc (Suc ?n), s_db := s_db ?s3\<lparr>outbox := outbox d @ [outbox_row_of ?ev]\<rparr>\<rparr>"
  have fr: "oe_id ev \<noteq> ?i (Suc (Suc ?n))" if "ev \<in> set (events (s_db ?s4))" for ev
    using that supplied_fresh(4) [OF ids(1) _ n6(3)] supplied_distinct [OF ids(1), of "Suc ?n" "Suc (Suc ?n)"] n6(3)
    by (auto simp: events_def outbox_row_of_def)
  obtain s5 where s5: "emit EventWalletBalanceChanged (wallet_id ?w) co (wt_id t') now
      (changed_event t' ?w dr (wallet_balance w) after) ?s4 = Inr ((), s5)" "steady s5"
      "txns (s_db s5) = txns (s_db ?s4)" "wallets (s_db s5) = wallets (s_db ?s4)"
      "ledger (s_db s5) = ledger (s_db ?s4)" "inbox (s_db s5) = inbox (s_db ?s4)"
    using emit_done [of ?s4] st fr by simp
  have "settle_tx sv t (Some dr) (wallet_balance w) after ?w co ca now True s = Inr ((t', ?w), s5)"
    using mp s1 s2 s3 s4 s5(1) e
    by (simp add: settle_tx_def tx_bind_def tx_lift_def record_movement_def new_uuid_def tx_return_def)
  then show ?thesis using s5 entry_row [OF e] by auto
qed

section \<open>The movement of each kind\<close>

text \<open>The specification: what a kind does to the balance, given the kind of its reference.\<close>

fun direction_of :: "kind \<Rightarrow> kind option \<Rightarrow> direction option" where
  "direction_of KindBet _ = Some DirectionDebit"
| "direction_of KindWin _ = Some DirectionCredit"
| "direction_of KindRefund _ = Some DirectionCredit"
| "direction_of KindRollback (Some KindBet) = Some DirectionCredit"
| "direction_of KindRollback (Some _) = Some DirectionDebit"
| "direction_of _ _ = None"

lemma direction_rollback:
  "direction_of KindRollback (Some k) = Some (if k = KindBet then DirectionCredit else DirectionDebit)"
  by (cases k) simp_all

lemma direction_debit_credit: "direction_of k rk = Some dr \<Longrightarrow> dr = DirectionDebit \<or> dr = DirectionCredit"
  by (cases "(k, rk)" rule: direction_of.cases) auto

lemma movement_value:
  assumes w: "wallet_ok iso4217 w" and m: "is_positive (wt_money t)" "now \<noteq> 0"
    and cur: "money_currency (wt_money t) = money_currency (wallet_balance w)"
    and dr: "direction_of (wt_kind t) (map_option wt_kind reference) = Some dr"
    and k: "k = balance_int w + signed_amount dr (money_int (wt_money t))"
  shows "movement_of iso4217 t w reference now =
    (if k < 0 then Inl ErrInsufficientFunds
     else if 9223372036854775807 < k then Inl ErrMoneyOverflow
     else Inr (Some dr, wallet_balance w, money_of k (money_currency (wallet_balance w)),
       wallet_apply w (money_of k (money_currency (wallet_balance w))) now))"
proof -
  let ?deb = "res_bind (wallet_debit iso4217 w (wt_money t) now)
      (\<lambda>(before, after, w'). Inr (Some DirectionDebit, before, after, w'))"
  let ?cre = "res_bind (wallet_credit iso4217 w (wt_money t) now)
      (\<lambda>(before, after, w'). Inr (Some DirectionCredit, before, after, w'))"
  have mv: "movement_of iso4217 t w reference now = (if dr = DirectionDebit then ?deb else ?cre)"
    using dr by (cases "(wt_kind t, map_option wt_kind reference)" rule: direction_of.cases)
      (auto simp: movement_of_def Let_def)
  have pos: "0 < money_int (wt_money t)" using m(1) by (simp add: is_positive_int)
  have b: "0 \<le> balance_int w" "balance_int w \<le> 9223372036854775807"
    using wallet_ok_balance [OF w] sint_le_max by (simp_all add: balance_int_def)
  show ?thesis
    using direction_debit_credit [OF dr] wallet_debit_result [OF w m cur] wallet_credit_result [OF w m cur]
      pos b k unfolding mv by (auto simp: Let_def)
qed

lemma movement_moves_by:
  assumes w: "wallet_ok iso4217 w" and m: "is_positive (wt_money t)" "now \<noteq> 0"
    and cur: "money_currency (wt_money t) = money_currency (wallet_balance w)"
    and dr: "dr = DirectionDebit \<or> dr = DirectionCredit"
    and k: "k = balance_int w + signed_amount dr (money_int (wt_money t))" "0 \<le> k" "k \<le> 9223372036854775807"
  shows "moves_by iso4217 w (wt_money t) now dr (money_of k (money_currency (wallet_balance w)))"
proof -
  have "int64_range k" using k(2,3) by (simp add: int64_range_def)
  then show ?thesis
    using w m cur dr k by (simp add: moves_by_def wallet_ok_def is_positive_int balance_int_money)
qed

section \<open>Recording without a movement\<close>

lemma reject_done:
  assumes st: "steady s" and t: "new_txn_ok (sv_iso sv) t" "\<not> terminal t" and w: "wallet_ok (sv_iso sv) w"
    and c: "code \<noteq> []" "now \<noteq> 0"
    and t': "t' = t\<lparr>wt_status := StatusRejected, wt_failure := code, wt_result := Some (wallet_balance w),
            wt_next := None, wt_updated := now\<rparr>"
    and ins: "insertable (s_db s) t'" and ids: "supplied (s_ids s) (s_drawn s) (s_db s)" "s_drawn s < 6"
  shows "\<exists>s'. reject_tx sv t w code co ca now True s = Inr (t', s') \<and> steady s' \<and>
    txns (s_db s') = txns (s_db s) @ [txn_row_of t'] \<and> wallets (s_db s') = wallets (s_db s) \<and>
    ledger (s_db s') = ledger (s_db s) \<and> inbox (s_db s') = inbox (s_db s)"
proof -
  have r: "reject_wager (sv_iso sv) t code (wallet_balance w) now = Inr t'"
    using t(2) c w wallet_ok_balance [OF w]
    by (simp add: reject_wager_ok t' wallet_ok_def balance_int_money)
  have ok': "new_txn_ok (sv_iso sv) t'" by (rule new_txn_ok_same [OF t(1) wager_step.rejected [OF r]]) (simp add: t')
  let ?s1 = "s\<lparr>s_db := s_db s\<lparr>txns := txns (s_db s) @ [txn_row_of t']\<rparr>\<rparr>"
  have s1: "save_transaction True t' s = Inr ((), ?s1)" by (rule insert_done [OF st ins ok'])
  have fr: "oe_id ev \<noteq> s_ids ?s1 (s_drawn ?s1)" if "ev \<in> set (events (s_db ?s1))" for ev
    using that supplied_fresh(4) [OF ids(1) order_refl ids(2)] by (simp add: events_def)
  have "steady ?s1" using st by simp
  from emit_done [OF this fr] r s1 st show ?thesis by (simp add: reject_tx_def tx_bind_def tx_lift_def tx_return_def)
qed

lemma loss_done:
  assumes st: "steady s" and t: "new_txn_ok (sv_iso sv) t" "wt_status t = StatusPending" and w: "wallet_ok (sv_iso sv) w"
    and c: "now \<noteq> 0" "money_currency (wallet_balance w) = money_currency (wt_money t)"
    and t': "t' = t\<lparr>wt_status := StatusProcessed, wt_result := Some (wallet_balance w), wt_failure := [],
            wt_next := None, wt_updated := now\<rparr>"
    and ins: "insertable (s_db s) t'" and ids: "supplied (s_ids s) (s_drawn s) (s_db s)" "s_drawn s < 6"
  shows "\<exists>s'. settle_tx sv t None before (wallet_balance w) w co ca now True s = Inr ((t', w), s') \<and> steady s' \<and>
    txns (s_db s') = txns (s_db s) @ [txn_row_of t'] \<and> wallets (s_db s') = wallets (s_db s) \<and>
    ledger (s_db s') = ledger (s_db s) \<and> inbox (s_db s') = inbox (s_db s)"
proof -
  have r: "mark_processed (sv_iso sv) t (wallet_balance w) now = Inr t'"
    using t(2) c w wallet_ok_balance [OF w]
    by (simp add: mark_processed_ok t' wallet_ok_def balance_int_money)
  have ok': "new_txn_ok (sv_iso sv) t'" by (rule new_txn_ok_same [OF t(1) wager_step.processed [OF r]]) (simp add: t')
  let ?s1 = "s\<lparr>s_db := s_db s\<lparr>txns := txns (s_db s) @ [txn_row_of t']\<rparr>\<rparr>"
  have s1: "save_transaction True t' s = Inr ((), ?s1)" by (rule insert_done [OF st ins ok'])
  have fr: "oe_id ev \<noteq> s_ids ?s1 (s_drawn ?s1)" if "ev \<in> set (events (s_db ?s1))" for ev
    using that supplied_fresh(4) [OF ids(1) order_refl ids(2)] by (simp add: events_def)
  have "steady ?s1" using st by simp
  from emit_done [OF this fr] r s1 st show ?thesis by (simp add: settle_tx_def tx_bind_def tx_lift_def tx_return_def)
qed

lemma wait_done:
  assumes st: "steady s" and t: "new_txn_ok (sv_iso sv) t" "wt_status t = StatusPending" "wt_ref_external t \<noteq> []"
      "wt_attempts t = 0"
    and c: "now \<noteq> 0" "now < nextAt"
    and t': "t' = t\<lparr>wt_status := StatusPendingReference, wt_attempts := wt_attempts t + 1,
            wt_next := Some nextAt, wt_updated := now\<rparr>"
    and ins: "insertable (s_db s) t'" and ids: "supplied (s_ids s) (s_drawn s) (s_db s)" "s_drawn s < 6"
  shows "\<exists>s'. tx_bind (tx_lift (mark_pending_reference t nextAt now)) (\<lambda>t'.
            tx_bind (insert_transaction t') (\<lambda>_.
            tx_bind (pending_event t' co ca now) (\<lambda>_.
            tx_return (t', w)))) s = Inr ((t', w), s') \<and> steady s' \<and>
    txns (s_db s') = txns (s_db s) @ [txn_row_of t'] \<and> wallets (s_db s') = wallets (s_db s) \<and>
    ledger (s_db s') = ledger (s_db s) \<and> inbox (s_db s') = inbox (s_db s)"
proof -
  have r: "mark_pending_reference t nextAt now = Inr t'"
    using t(2,3) c by (simp add: mark_pending_reference_ok t')
  have ok': "new_txn_ok (sv_iso sv) t'" by (rule new_txn_ok_step [OF t(1) wager_step.pend [OF r]]) (use t(4) in \<open>simp add: t'\<close>)
  let ?s1 = "s\<lparr>s_db := s_db s\<lparr>txns := txns (s_db s) @ [txn_row_of t']\<rparr>\<rparr>"
  have s1: "insert_transaction t' s = Inr ((), ?s1)"
    using insert_done [OF st ins ok'] by (simp add: save_transaction_def)
  have fr: "oe_id ev \<noteq> s_ids ?s1 (s_drawn ?s1)" if "ev \<in> set (events (s_db ?s1))" for ev
    using that supplied_fresh(4) [OF ids(1) order_refl ids(2)] by (simp add: events_def)
  have "steady ?s1" using st by simp
  from emit_done [OF this fr] r s1 st show ?thesis
    by (simp add: tx_bind_def tx_lift_def tx_return_def pending_event_def)
qed

section \<open>A new command\<close>

text \<open>The identifiers drawn before the transaction starts: the correlation, if it is missing.\<close>

definition drawn_before :: "wager_command \<Rightarrow> nat" where
  "drawn_before cmd = (if cmd_correlation cmd = [] then 1 else 0)"

text \<open>
  A valid command without an inbox message, whose key and external identifier are unused,
  for the stored wallet \<open>w\<close>; \<open>t\<close> is its transaction.
\<close>

definition new_command :: "service \<Rightarrow> call \<Rightarrow> wager_command \<Rightarrow> db \<Rightarrow> wallet \<Rightarrow> wager \<Rightarrow> bool" where
  "new_command sv c cmd d w t \<longleftrightarrow>
     sv_valid sv cmd \<and> cmd_inbox cmd = None \<and>
     new_wager_transaction (sv_iso sv)
       (external_of_command sv cmd (c_ids c (drawn_before cmd)) (c_now c)) = Inr t \<and>
     find_by_key (cmd_provider cmd) (cmd_key cmd) d = None \<and>
     find_by_external (cmd_provider cmd) (cmd_external cmd) d = None \<and>
     wallet_row_of w \<in> set (wallets d) \<and> wallet_id w = cmd_wallet cmd"

definition correlation_of :: "call \<Rightarrow> wager_command \<Rightarrow> string" where
  "correlation_of c cmd = (if cmd_correlation cmd = [] then c_ids c 0 else cmd_correlation cmd)"

definition start_session :: "call \<Rightarrow> db \<Rightarrow> nat \<Rightarrow> session" where
  "start_session c d n = \<lparr>s_db = d, s_ids = c_ids c, s_drawn = n, s_fault = None\<rparr>"

lemma start_session_sel [simp]:
  "s_db (start_session c d n) = d" "s_ids (start_session c d n) = c_ids c"
  "s_drawn (start_session c d n) = n" "steady (start_session c d n)"
  by (simp_all add: start_session_def steady_def)

lemma stored_wallet:
  assumes inv: "wallets_inv iso4217 d" and w: "wallet_row_of w \<in> set (wallets d)"
  shows "find_wallet (wallet_id w) d = Some (wallet_row_of w)" and "wallet_ok iso4217 w"
proof -
  from inv w obtain v where "wallet_row_of w = wallet_row_of v" "wallet_ok iso4217 v"
    by (auto simp: wallets_inv_def)
  then show "wallet_ok iso4217 w" by (simp add: wallet_row_inject)
  show "find_wallet (wallet_id w) d = Some (wallet_row_of w)"
    using find_key_some [of wr_id "wallets d" "wallet_row_of w"] inv w
    by (simp add: find_wallet_def wallets_inv_def)
qed

lemma lock_wallet_done:
  assumes "wallets_inv iso4217 (s_db s)" and "wallet_row_of w \<in> set (wallets (s_db s))" and "steady s"
  shows "lock_wallet iso4217 (wallet_id w) s = Inr (w, s)"
proof -
  note w = stored_wallet [OF assms(1,2)]
  have "scan_wallet iso4217 (wallet_row_of w) = Inr w" using w(2) by (simp add: scan_wallet_ok)
  then show ?thesis using w(1) assms(3) by (simp add: lock_wallet_def select_steady)
qed

lemma undisturbed_supply: "undisturbed c d \<Longrightarrow> supplied (c_ids c) 0 d"
  by (simp add: undisturbed_def supplied_def)

lemma process_new:
  assumes inv: "db_inv (sv_iso sv) d" and u: "undisturbed c d" and n: "new_command sv c cmd d w t"
    and r: "record_new sv cmd t w (correlation_of c cmd) [] (c_now c)
      (start_session c d (Suc (drawn_before cmd))) = Inr ((t', w'), s')" "steady s'"
  shows "process sv c cmd d = (Inr (result_from t' (wallet_balance w') False), s_db s')"
proof -
  let ?s = "start_session c d (drawn_before cmd)"
  have st: "steady ?s" by simp
  have lw: "lock_wallet (sv_iso sv) (cmd_wallet cmd) ?s = Inr (w, ?s)"
    using lock_wallet_done [of "sv_iso sv" ?s w] db_invD(1) [OF inv] n by (simp add: new_command_def)
  have p: "process_tx sv cmd (correlation_of c cmd) [] (c_now c) ?s =
      Inr (result_from t' (wallet_balance w') False, s')"
    using n lw r(1) st
    by (simp add: new_command_def process_tx_def process_unclaimed_def tx_bind_def
        acquire_idempotency_lock_def exec_steady find_by_idempotency_def find_by_external_id_def
        select_steady scan_optional_def new_uuid_def tx_lift_def complete_inbox_if_def tx_return_def)
      (simp add: start_session_def tx_bind_def new_uuid_def tx_lift_def)
  have "db_inv (sv_iso sv) (s_db s')"
    using process_txD [OF _ p] run_sound inv by simp
  then have "deferred_ok d (s_db s')" by (rule deferred_accepts)
  with p r(2) u n show ?thesis
    by (simp add: process_def within_transaction_def exec_def undisturbed_def new_command_def Let_def
        drawn_before_def correlation_of_def start_session_def steady_def)
qed

lemma process_new_fails:
  assumes inv: "db_inv (sv_iso sv) d" and u: "undisturbed c d" and n: "new_command sv c cmd d w t"
    and r: "record_new sv cmd t w (correlation_of c cmd) [] (c_now c)
      (start_session c d (Suc (drawn_before cmd))) = Inl e"
  shows "process sv c cmd d = (Inl e, d)"
proof -
  let ?s = "start_session c d (drawn_before cmd)"
  have st: "steady ?s" by simp
  have lw: "lock_wallet (sv_iso sv) (cmd_wallet cmd) ?s = Inr (w, ?s)"
    using lock_wallet_done [of "sv_iso sv" ?s w] db_invD(1) [OF inv] n by (simp add: new_command_def)
  have p: "process_tx sv cmd (correlation_of c cmd) [] (c_now c) ?s = Inl e"
    using n lw r st
    by (simp add: new_command_def process_tx_def process_unclaimed_def tx_bind_def
        acquire_idempotency_lock_def exec_steady find_by_idempotency_def find_by_external_id_def
        select_steady scan_optional_def new_uuid_def tx_lift_def)
      (simp add: start_session_def tx_bind_def new_uuid_def tx_lift_def)
  with u n show ?thesis
    by (simp add: process_def within_transaction_def exec_def undisturbed_def new_command_def Let_def
        drawn_before_def correlation_of_def start_session_def)
qed

section \<open>The references of a new command\<close>

text \<open>
  The reference that decides the command: none is named, or the named one is stored and
  processed, fits the command and was not reversed yet.
\<close>

definition good_reference :: "wager_command \<Rightarrow> wager \<Rightarrow> db \<Rightarrow> wager option \<Rightarrow> bool" where
  "good_reference cmd t d reference \<longleftrightarrow>
     (case reference of
        None \<Rightarrow> cmd_ref_external cmd = []
      | Some r \<Rightarrow>
          cmd_ref_external cmd \<noteq> [] \<and> txn_row_of r \<in> set (txns d) \<and>
          wt_provider r = cmd_provider cmd \<and> wt_external r = cmd_ref_external cmd \<and>
          wt_status r = StatusProcessed \<and> wt_player r = wt_player t \<and> wt_wallet r = wt_wallet t \<and>
          wt_round r = wt_round t \<and> money_currency (wt_money r) = money_currency (wt_money t) \<and>
          (reversal_kind (wt_kind t) \<longrightarrow> wt_money r = wt_money t \<and>
             \<not> list_ex (\<lambda>q. tr_ref_id q = Some (wt_id r) \<and> successful_reversal q) (txns d)) \<and>
          (wt_kind t = KindWin \<or> wt_kind t = KindRefund \<longrightarrow> wt_kind r = KindBet) \<and>
          (wt_kind t = KindRollback \<longrightarrow>
             wt_kind r = KindBet \<or> wt_kind r = KindWin \<or> wt_kind r = KindRefund))"

text \<open>The transaction once its reference is resolved.\<close>

definition with_reference :: "wager \<Rightarrow> wager option \<Rightarrow> time \<Rightarrow> wager" where
  "with_reference t reference now =
     (case reference of None \<Rightarrow> t
      | Some r \<Rightarrow> t\<lparr>wt_ref_id := wt_id r, wt_updated := now\<rparr>)"

lemma stored_external:
  assumes inv: "db_inv iso4217 d" and r: "txn_row_of r \<in> set (txns d)" "wager_ok iso4217 r"
  shows "find_by_external (wt_provider r) (wt_external r) d = Some (txn_row_of r)"
  unfolding find_by_external_def
proof (rule find_unique)
  fix q assume q: "q \<in> set (txns d)"
  show "tr_provider q = Some (wt_provider r) \<and> tr_external q = Some (wt_external r) \<longleftrightarrow> q = txn_row_of r"
  proof
    assume m: "tr_provider q = Some (wt_provider r) \<and> tr_external q = Some (wt_external r)"
    then have "external_row iso4217 q" using txns_invD(1) [OF inv q] by (auto simp: opening_ok_def)
    then have "tr_origin q = External" by (auto simp: external_row_def)
    with m have "txn_clash q (txn_row_of r)" by (simp add: txn_clash_def)
    then show "q = txn_row_of r" by (rule keys_ok_clash [OF db_invD(6) [OF inv] q r(1)])
  qed simp
qed (rule r(1))

lemma stored_wager_ok:
  assumes inv: "db_inv iso4217 d" and r: "txn_row_of r \<in> set (txns d)" "wt_provider r \<noteq> []"
  shows "\<exists>t. txn_row_of t = txn_row_of r \<and> wager_inv iso4217 t"
  using txns_invD(1) [OF inv r(1)] by (auto simp: external_row_def opening_ok_def)

lemma find_reference_done:
  assumes inv: "db_inv iso4217 (s_db s)" and r: "txn_row_of r \<in> set (txns (s_db s))" "wager_ok iso4217 r" and st: "steady s"
  shows "find_by_external_id iso4217 (wt_provider r) (wt_external r) s = Inr (Some r, s)"
  using stored_external [OF inv r] scan_txn_row [OF r(2)] st
  by (simp add: find_by_external_id_def select_steady scan_optional_def)

lemma reference_failure_good:
  assumes g: "good_reference cmd t (s_db s) reference" and st: "steady s"
    and t': "t' = with_reference t reference now" and p: "wt_provider t = cmd_provider cmd"
    and n: "reference = None \<Longrightarrow> \<not> reversal_kind (wt_kind t)"
  shows "reference_failure t' reference s = Inr ([], s)"
  using g st n p unfolding t'
  by (cases reference; cases "wt_kind t")
    (auto simp: reference_failure_def good_reference_def with_reference_def tx_return_def tx_bind_def
      successful_reversal_exists_def select_steady reversal_kind_def)

lemma record_new_decides:
  assumes inv: "db_inv (sv_iso sv) (s_db s)" and st: "steady s"
    and g: "good_reference cmd t (s_db s) reference" and rok: "\<And>r. reference = Some r \<Longrightarrow> wager_ok (sv_iso sv) r"
    and t: "wt_status t = StatusPending" "wt_provider t = cmd_provider cmd" "wt_ref_external t = cmd_ref_external cmd"
      "wt_next t = None" "now \<noteq> 0" "reference = None \<Longrightarrow> \<not> reversal_kind (wt_kind t)"
    and own: "wallet_player w = cmd_player cmd" "money_currency (wallet_balance w) = money_currency (cmd_money cmd)"
  shows "record_new sv cmd t w co ca now s =
    finalize sv (with_reference t reference now) w reference co ca now True s"
proof (cases reference)
  case None
  then show ?thesis
    using g own st reference_failure_good [OF g st refl t(2,6)]
    by (simp add: record_new_def decide_tx_def tx_bind_def good_reference_def with_reference_def)
next
  case (Some r)
  note G = g [unfolded Some good_reference_def, simplified]
  have r: "wager_ok (sv_iso sv) r" using rok Some by blast
  have f: "find_by_external_id (sv_iso sv) (cmd_provider cmd) (cmd_ref_external cmd) s = Inr (Some r, s)"
    using find_reference_done [OF inv _ r st] G by metis
  have rr: "resolve_reference t (wt_id r) now = Inr (with_reference t reference now)"
    using t G r Some by (simp add: resolve_reference_ok with_reference_def wager_ok_def)
  show ?thesis
    using f rr G own Some reference_failure_good [OF g st refl t(2,6), of now]
    by (simp add: record_new_def decide_tx_def resolved_tx_def tx_bind_def tx_lift_def reference_is_pending_def)
qed

section \<open>Outcomes\<close>

lemma nullif_inj: "nullif x = nullif y \<longleftrightarrow> x = y"
  by (auto simp: nullif_def split: if_splits)

lemma txn_row_inj: "txn_row_of t = txn_row_of u \<Longrightarrow> t = u"
proof -
  assume eq: "txn_row_of t = txn_row_of u"
  have "wt_result t = wt_result u"
  proof (cases "wt_result t")
    case None
    then show ?thesis using eq by (cases "wt_result u") (auto simp: txn_row_of_def)
  next
    case (Some a)
    then obtain b where b: "wt_result u = Some b" using eq by (cases "wt_result u") (auto simp: txn_row_of_def)
    have "a = b" by (rule money.equality) (use eq Some b in \<open>auto simp: txn_row_of_def\<close>)
    with Some b show ?thesis by simp
  qed
  moreover have "wt_money t = wt_money u"
    by (rule money.equality) (use eq in \<open>auto simp: txn_row_of_def\<close>)
  ultimately show ?thesis
    using eq by (intro wager.equality) (auto simp: txn_row_of_def nullif_inj)
qed

lemma good_reference_ok:
  assumes inv: "db_inv iso4217 d" and g: "good_reference cmd t d (Some r)"
  shows "wager_ok iso4217 r"
proof -
  have "txn_row_of r \<in> set (txns d)" using g by (simp add: good_reference_def)
  from txns_invD(1) [OF inv this] obtain u where "txn_row_of r = txn_row_of u" "wager_inv iso4217 u"
    by (auto simp: external_row_def opening_ok_def)
  then show ?thesis using txn_row_inj by (auto simp: wager_inv_def)
qed

text \<open>What a new command brings.\<close>

lemma new_command_facts:
  assumes n: "new_command sv c cmd d w t"
  shows "new_txn_ok (sv_iso sv) t" and "wt_status t = StatusPending" and "wt_next t = None"
    and "wt_provider t = cmd_provider cmd" and "wt_ref_external t = cmd_ref_external cmd" and "wt_ref_id t = []"
    and "wt_kind t = cmd_kind cmd" and "wt_money t = cmd_money cmd" and "wt_id t = c_ids c (drawn_before cmd)"
    and "wt_key t = cmd_key cmd" and "wt_external t = cmd_external cmd" and "wt_player t = cmd_player cmd"
    and "wt_wallet t = cmd_wallet cmd" and "cmd_ref_external cmd = [] \<Longrightarrow> \<not> reversal_kind (wt_kind t)"
    and "wt_failure t = []" and "wt_attempts t = 0" and "wt_hash t = wager_payload_hash sv cmd"
proof -
  have t: "new_wager_transaction (sv_iso sv)
       (external_of_command sv cmd (c_ids c (drawn_before cmd)) (c_now c)) = Inr t"
    using n by (simp add: new_command_def)
  show "new_txn_ok (sv_iso sv) t"
    using new_wager_inv [OF t] t by (auto simp: new_txn_ok_def new_wager_ok_iff external_of_command_def reversal_kind_def)
  show "wt_status t = StatusPending" "wt_next t = None"
    "wt_provider t = cmd_provider cmd" "wt_ref_external t = cmd_ref_external cmd" "wt_ref_id t = []"
    "wt_kind t = cmd_kind cmd" "wt_money t = cmd_money cmd" "wt_id t = c_ids c (drawn_before cmd)"
    "wt_key t = cmd_key cmd" "wt_external t = cmd_external cmd" "wt_player t = cmd_player cmd"
    "wt_wallet t = cmd_wallet cmd" "cmd_ref_external cmd = [] \<Longrightarrow> \<not> reversal_kind (wt_kind t)"
    "wt_failure t = []" "wt_attempts t = 0" "wt_hash t = wager_payload_hash sv cmd"
    using t by (auto simp: new_wager_ok_iff external_of_command_def reversal_kind_def)
qed

lemma new_insertable:
  assumes n: "new_command sv c cmd d w t" and u: "undisturbed c d"
    and t': "wager_identity t' = wager_identity t"
    and own: "wt_status t' = StatusRejected \<or> wallet_player w = cmd_player cmd \<and>
      money_currency (wallet_balance w) = money_currency (cmd_money cmd)"
    and ref: "wt_ref_id t' \<noteq> [] \<Longrightarrow> \<exists>q \<in> set (txns d). tr_id q = wt_ref_id t'"
    and rev: "wt_status t' = StatusProcessed \<Longrightarrow> reversal_kind (wt_kind t) \<Longrightarrow>
        \<not> list_ex (\<lambda>q. tr_ref_id q = Some (wt_ref_id t') \<and> successful_reversal q) (txns d)"
  shows "insertable d t'"
proof -
  note f = new_command_facts [OF n]
  have i: "wt_id t' = wt_id t" "wt_provider t' = wt_provider t" "wt_key t' = wt_key t" "wt_external t' = wt_external t"
    "wt_wallet t' = wt_wallet t" "wt_player t' = wt_player t" "wt_kind t' = wt_kind t" "wt_money t' = wt_money t"
    using t' by (auto simp: wager_identity_def)
  have "drawn_before cmd < 6" by (simp add: drawn_before_def)
  then have "tr_id r \<noteq> wt_id t" if "r \<in> set (txns d)" for r
    using supplied_fresh(2) [OF undisturbed_supply [OF u], of "drawn_before cmd"] that f(9) by simp
  moreover have "wallet_row_of w \<in> set (wallets d)" "wallet_id w = cmd_wallet cmd" using n by (simp_all add: new_command_def)
  ultimately show ?thesis
    using n i f own ref rev unfolding insertable_def new_command_def by (auto intro!: bexI [of _ "wallet_row_of w"])
qed

lemma good_reference_with:
  assumes inv: "db_inv (sv_iso sv) d" and n: "new_command sv c cmd d w t" and g: "good_reference cmd t d reference"
    and now: "now \<noteq> 0" and t1: "t1 = with_reference t reference now"
  shows "new_txn_ok (sv_iso sv) t1" and "wager_identity t1 = wager_identity t" and "wt_status t1 = StatusPending"
    and "wt_ref_id t1 \<noteq> [] \<Longrightarrow> \<exists>q \<in> set (txns d). tr_id q = wt_ref_id t1"
    and "reversal_kind (wt_kind t) \<Longrightarrow>
        \<not> list_ex (\<lambda>q. tr_ref_id q = Some (wt_ref_id t1) \<and> successful_reversal q) (txns d)"
    and "direction_of (wt_kind t) (map_option wt_kind reference) = Some dr \<Longrightarrow>
      tr_kind q = wt_kind t \<Longrightarrow> tr_ref_id q = nullif (wt_ref_id t1) \<Longrightarrow> expected_direction d q = Some dr"
proof -
  note f = new_command_facts [OF n]
  have "new_txn_ok (sv_iso sv) t1 \<and> wager_identity t1 = wager_identity t \<and> wt_status t1 = StatusPending \<and>
    (wt_ref_id t1 \<noteq> [] \<longrightarrow> (\<exists>q \<in> set (txns d). tr_id q = wt_ref_id t1)) \<and>
    (reversal_kind (wt_kind t) \<longrightarrow>
        \<not> list_ex (\<lambda>q. tr_ref_id q = Some (wt_ref_id t1) \<and> successful_reversal q) (txns d)) \<and>
    (direction_of (wt_kind t) (map_option wt_kind reference) = Some dr \<longrightarrow>
      tr_kind q = wt_kind t \<longrightarrow> tr_ref_id q = nullif (wt_ref_id t1) \<longrightarrow> expected_direction d q = Some dr)"
  proof (cases reference)
    case None
    then have t1t: "t1 = t" and nr: "\<not> reversal_kind (wt_kind t)"
      using t1 g f(14) by (simp_all add: with_reference_def good_reference_def)
    have "direction_of (wt_kind t) (map_option wt_kind reference) = Some dr \<Longrightarrow>
      tr_kind q = wt_kind t \<Longrightarrow> expected_direction d q = Some dr"
      using nr None by (cases "wt_kind t") (auto simp: expected_direction_def reversal_kind_def)
    with t1t nr f show ?thesis by simp
  next
    case (Some r)
    note G = g [unfolded Some good_reference_def, simplified]
    have rid: "wt_id r \<noteq> []" using good_reference_ok [OF inv g [unfolded Some]] by (simp add: wager_ok_def)
    have st: "resolve_reference t (wt_id r) now = Inr t1"
      using f(2,3,5) G rid now by (simp add: t1 Some with_reference_def resolve_reference_ok)
    have ok: "new_txn_ok (sv_iso sv) t1" by (rule new_txn_ok_same [OF f(1) wager_step.resolve [OF st]])
      (simp add: t1 Some with_reference_def)
    have ft: "find_txn (wt_id r) d = Some (txn_row_of r)"
      using find_txn_iff [OF db_invD(6) [OF inv]] G by simp
    have "direction_of (wt_kind t) (map_option wt_kind reference) = Some dr \<Longrightarrow>
      tr_kind q = wt_kind t \<Longrightarrow> tr_ref_id q = nullif (wt_ref_id t1) \<Longrightarrow> expected_direction d q = Some dr"
      using ft rid Some t1
      by (cases "wt_kind t") (auto simp: expected_direction_def with_reference_def nullif_def direction_rollback)
    moreover have "\<exists>q \<in> set (txns d). tr_id q = wt_ref_id t1"
      using G t1 Some by (intro bexI [of _ "txn_row_of r"]) (simp_all add: with_reference_def)
    moreover have "wager_identity t1 = wager_identity t" "wt_status t1 = StatusPending"
      "reversal_kind (wt_kind t) \<Longrightarrow>
        \<not> list_ex (\<lambda>q. tr_ref_id q = Some (wt_ref_id t1) \<and> successful_reversal q) (txns d)"
      using G t1 Some f(2) by (simp_all add: with_reference_def wager_identity_def)
    ultimately show ?thesis using ok by blast
  qed
  then show "new_txn_ok (sv_iso sv) t1" "wager_identity t1 = wager_identity t" "wt_status t1 = StatusPending"
    "wt_ref_id t1 \<noteq> [] \<Longrightarrow> \<exists>q \<in> set (txns d). tr_id q = wt_ref_id t1"
    "reversal_kind (wt_kind t) \<Longrightarrow>
        \<not> list_ex (\<lambda>q. tr_ref_id q = Some (wt_ref_id t1) \<and> successful_reversal q) (txns d)"
    "direction_of (wt_kind t) (map_option wt_kind reference) = Some dr \<Longrightarrow>
      tr_kind q = wt_kind t \<Longrightarrow> tr_ref_id q = nullif (wt_ref_id t1) \<Longrightarrow> expected_direction d q = Some dr"
    by blast+
qed

end
