(* ===== verification/Outcomes.thy ===== *)
theory Outcomes
  imports Processing
begin

text \<open>
  The outcome of every new command, as the rules of the service give it: the balance moves by
  the amount in the direction of the kind, or the command is rejected with its code, or waits
  for its reference, or is refused with the database unchanged.
\<close>

section \<open>Recorded outcomes\<close>

definition settled :: "wager \<Rightarrow> money \<Rightarrow> time \<Rightarrow> wager" where
  "settled t after now = t\<lparr>wt_status := StatusProcessed, wt_result := Some after, wt_failure := [],
     wt_next := None, wt_updated := now\<rparr>"

definition rejected :: "wager \<Rightarrow> string \<Rightarrow> money \<Rightarrow> time \<Rightarrow> wager" where
  "rejected t code balance now = t\<lparr>wt_status := StatusRejected, wt_failure := code,
     wt_result := Some balance, wt_next := None, wt_updated := now\<rparr>"

definition awaiting :: "wager \<Rightarrow> time \<Rightarrow> time \<Rightarrow> wager" where
  "awaiting t nextAt now = t\<lparr>wt_status := StatusPendingReference, wt_attempts := wt_attempts t + 1,
     wt_next := Some nextAt, wt_updated := now\<rparr>"

lemmas outcome_defs = settled_def rejected_def awaiting_def

lemma outcome_sel [simp]:
  "wt_status (settled t a n) = StatusProcessed" "wt_status (rejected t co a n) = StatusRejected"
  "wt_status (awaiting t nx n) = StatusPendingReference"
  "wt_result (settled t a n) = Some a" "wt_result (rejected t co a n) = Some a"
  "wt_ref_id (settled t a n) = wt_ref_id t" "wt_ref_id (rejected t co a n) = wt_ref_id t"
  "wt_ref_id (awaiting t nx n) = wt_ref_id t"
  "wager_identity (settled t a n) = wager_identity t" "wager_identity (rejected t co a n) = wager_identity t"
  "wager_identity (awaiting t nx n) = wager_identity t"
  "wt_id (settled t a n) = wt_id t" "wt_id (rejected t co a n) = wt_id t" "wt_id (awaiting t nx n) = wt_id t"
  by (simp_all add: outcome_defs wager_identity_def)

text \<open>The transaction is recorded; nothing else the accounts hold changes.\<close>

definition records :: "db \<Rightarrow> wager \<Rightarrow> db \<Rightarrow> bool" where
  "records d t' d' \<longleftrightarrow> txns d' = txns d @ [txn_row_of t'] \<and> wallets d' = wallets d \<and>
     ledger d' = ledger d \<and> inbox d' = inbox d"

text \<open>The wallet moves to \<open>after\<close>, and one entry says so.\<close>

definition moves :: "db \<Rightarrow> wager \<Rightarrow> wallet \<Rightarrow> direction \<Rightarrow> money \<Rightarrow> time \<Rightarrow> db \<Rightarrow> bool" where
  "moves d t' w dr after now d' \<longleftrightarrow>
     txns d' = txns d @ [txn_row_of t'] \<and>
     wallets d' = put_wallet (wallet_apply w after now) (wallets d) \<and>
     (\<exists>e. ledger d' = ledger d @ [e] \<and> lr_wallet e = wallet_id w \<and> lr_transaction e = wt_id t' \<and>
        lr_direction e = dr \<and> lr_money e = money_minor (wt_money t') \<and>
        lr_before e = money_minor (wallet_balance w) \<and> lr_after e = money_minor after) \<and>
     inbox d' = inbox d"

section \<open>The five outcomes of the recording\<close>

text \<open>A command of the owner, in the currency of the wallet, whose reference is good.\<close>

definition accepted :: "call \<Rightarrow> wager_command \<Rightarrow> db \<Rightarrow> wallet \<Rightarrow> wager \<Rightarrow> wager option \<Rightarrow> bool" where
  "accepted c cmd d w t reference \<longleftrightarrow>
     wallet_player w = cmd_player cmd \<and>
     money_currency (wallet_balance w) = money_currency (cmd_money cmd) \<and>
     good_reference cmd t d reference"

lemma accepted_finalizes:
  assumes inv: "db_inv (sv_iso sv) d" and u: "undisturbed c d" and n: "new_command sv c cmd d w t"
    and a: "accepted c cmd d w t reference" and s: "s = start_session c d (Suc (drawn_before cmd))"
  shows "record_new sv cmd t w co [] (c_now c) s =
    finalize sv (with_reference t reference (c_now c)) w reference co [] (c_now c) True s"
proof (rule record_new_decides)
  note f = new_command_facts [OF n]
  show "db_inv (sv_iso sv) (s_db s)" using inv s by simp
  show "good_reference cmd t (s_db s) reference" using a s by (simp add: accepted_def)
  show "\<And>r. reference = Some r \<Longrightarrow> wager_ok (sv_iso sv) r"
    using good_reference_ok [OF inv] a unfolding accepted_def by blast
  show "reference = None \<Longrightarrow> \<not> reversal_kind (wt_kind t)"
    using a f(14) by (simp add: accepted_def good_reference_def)
qed (use new_command_facts [OF n] u a s in \<open>simp_all add: accepted_def undisturbed_def\<close>)

lemma accepted_facts:
  assumes inv: "db_inv (sv_iso sv) d" and u: "undisturbed c d" and n: "new_command sv c cmd d w t"
    and a: "accepted c cmd d w t reference" and t1: "t1 = with_reference t reference (c_now c)"
  shows "c_now c \<noteq> 0" and "wallet_row_of w \<in> set (wallets d)" and "wallet_id w = wt_wallet t1" and "wallet_ok (sv_iso sv) w"
    and "wt_kind t1 = cmd_kind cmd" and "wt_money t1 = cmd_money cmd"
    and "money_currency (wallet_balance w) = money_currency (wt_money t1)"
    and "new_txn_ok (sv_iso sv) t1" and "wt_status t1 = StatusPending"
    and "cmd_kind cmd \<noteq> KindLoss \<Longrightarrow> is_positive (wt_money t1)"
    and "supplied (c_ids c) (Suc (drawn_before cmd)) d"
    and "\<And>t'. wager_identity t' = wager_identity t1 \<Longrightarrow> wt_ref_id t' = wt_ref_id t1 \<Longrightarrow> insertable d t'"
    and "direction_of (cmd_kind cmd) (map_option wt_kind reference) = Some dr \<Longrightarrow>
        expected_direction d (txn_row_of (settled t1 b n')) = Some dr"
proof -
  note f = new_command_facts [OF n]
  show now: "c_now c \<noteq> 0" using u by (simp add: undisturbed_def)
  have g: "good_reference cmd t d reference" using a by (simp add: accepted_def)
  note G = good_reference_with [OF inv n g now t1]
  have i: "wt_kind t1 = wt_kind t" "wt_money t1 = wt_money t" "wt_wallet t1 = wt_wallet t"
    using G(2) by (simp_all add: wager_identity_def)
  show w: "wallet_row_of w \<in> set (wallets d)" "wallet_id w = wt_wallet t1"
    using n f(13) i by (simp_all add: new_command_def)
  show "wallet_ok (sv_iso sv) w" by (rule stored_wallet(2) [OF db_invD(1) [OF inv] w(1)])
  show "wt_kind t1 = cmd_kind cmd" "wt_money t1 = cmd_money cmd"
    "money_currency (wallet_balance w) = money_currency (wt_money t1)"
    "new_txn_ok (sv_iso sv) t1" "wt_status t1 = StatusPending"
    using i f G a by (simp_all add: accepted_def)
  show "is_positive (wt_money t1)" if "cmd_kind cmd \<noteq> KindLoss"
    using f(1,7) that i by (auto simp: new_txn_ok_def wager_inv_def wager_ok_def amount_ok_def is_positive_int)
  show "supplied (c_ids c) (Suc (drawn_before cmd)) d"
    by (rule supplied_mono [OF undisturbed_supply [OF u]]) simp
  show "insertable d t'" if "wager_identity t' = wager_identity t1" "wt_ref_id t' = wt_ref_id t1" for t'
    using new_insertable [OF n u, of t'] that G(2,4,5) a by (simp add: accepted_def)
  show "expected_direction d (txn_row_of (settled t1 b n')) = Some dr"
    if "direction_of (cmd_kind cmd) (map_option wt_kind reference) = Some dr"
    by (rule G(6)) (use that f(7) i in \<open>simp_all add: settled_def\<close>)
qed

lemma recording_moves:
  assumes inv: "db_inv (sv_iso sv) d" and u: "undisturbed c d" and n: "new_command sv c cmd d w t"
    and acc: "accepted c cmd d w t reference" and v: "wallet_version w \<noteq> max_int64"
    and dr: "direction_of (cmd_kind cmd) (map_option wt_kind reference) = Some dr"
    and k: "k = balance_int w + signed_amount dr (money_int (cmd_money cmd))" "0 \<le> k" "k \<le> 9223372036854775807"
    and a: "after = money_of k (money_currency (wallet_balance w))"
    and t': "t' = settled (with_reference t reference (c_now c)) after (c_now c)"
  shows "\<exists>d'. process sv c cmd d = (Inr (result_from t' after False), d') \<and> moves d t' w dr after (c_now c) d'"
proof -
  let ?now = "c_now c" and ?co = "correlation_of c cmd"
  let ?t1 = "with_reference t reference ?now"
  define s where "s = start_session c d (Suc (drawn_before cmd))"
  note F = accepted_facts [OF inv u n acc refl]
  have kl: "cmd_kind cmd \<noteq> KindLoss" using dr by auto
  note d1 = F(10) [OF kl] F(1) F(7) [symmetric]
  have dr1: "direction_of (wt_kind ?t1) (map_option wt_kind reference) = Some dr" using dr F(5) by simp
  have k1: "k = balance_int w + signed_amount dr (money_int (wt_money ?t1))" using k(1) F(6) by simp
  have mv: "movement_of (sv_iso sv) ?t1 w reference ?now =
      Inr (Some dr, wallet_balance w, after, wallet_apply w after ?now)"
    using movement_value [OF F(4) d1 dr1 k1] k(2,3) by (simp add: a)
  have mb: "moves_by (sv_iso sv) w (wt_money ?t1) ?now dr after"
    unfolding a by (rule movement_moves_by [OF F(4) d1 direction_debit_credit [OF dr] k1 k(2,3)])
  have ids: "supplied (s_ids s) (s_drawn s) d" "s_drawn s + 3 \<le> 6"
    using F(11) by (simp_all add: s_def drawn_before_def)
  have ins: "insertable d t'" by (rule F(12)) (simp_all add: t')
  obtain s' e where s': "settle_tx sv ?t1 (Some dr) (wallet_balance w) after (wallet_apply w after ?now)
        ?co [] ?now True s = Inr ((t', wallet_apply w after ?now), s')" "steady s'"
      and e: "txns (s_db s') = txns d @ [txn_row_of t'] \<and>
      wallets (s_db s') = put_wallet (wallet_apply w after ?now) (wallets d) \<and>
      ledger (s_db s') = ledger d @ [e] \<and> inbox (s_db s') = inbox d \<and>
      lr_wallet e = wallet_id w \<and> lr_transaction e = wt_id t' \<and> lr_direction e = dr \<and>
      lr_money e = money_minor (wt_money t') \<and> lr_before e = money_minor (wallet_balance w) \<and>
      lr_after e = money_minor after"
    using settle_done [OF inv _ _ F(2,4) v F(3,8,9) _ mb t' [unfolded settled_def] ins _ ids, of ?co "[]"]
      F(5) kl F(13) [OF dr, of after ?now] by (auto simp: s_def t')
  have "record_new sv cmd t w ?co [] ?now s = Inr ((t', wallet_apply w after ?now), s')"
    using accepted_finalizes [OF inv u n acc s_def] mv s'(1) by (simp add: finalize_def)
  from process_new [OF inv u n this [unfolded s_def] s'(2)] e show ?thesis unfolding moves_def by auto
qed

lemma recording_overdraws:
  assumes inv: "db_inv (sv_iso sv) d" and u: "undisturbed c d" and n: "new_command sv c cmd d w t"
    and acc: "accepted c cmd d w t reference"
    and dr: "direction_of (cmd_kind cmd) (map_option wt_kind reference) = Some dr"
    and k: "balance_int w + signed_amount dr (money_int (cmd_money cmd)) < 0"
    and t': "t' = rejected (with_reference t reference (c_now c))
        (if cmd_kind cmd = KindRollback then FailureInsufficientFundsReversal else FailureInsufficientFunds)
        (wallet_balance w) (c_now c)"
  shows "\<exists>d'. process sv c cmd d = (Inr (result_from t' (wallet_balance w) False), d') \<and> records d t' d'"
proof -
  let ?now = "c_now c" and ?co = "correlation_of c cmd"
  let ?t1 = "with_reference t reference ?now"
  define s where "s = start_session c d (Suc (drawn_before cmd))"
  note F = accepted_facts [OF inv u n acc refl]
  have kl: "cmd_kind cmd \<noteq> KindLoss" using dr by auto
  have db: "s_db s = d" "steady s" by (simp_all add: s_def)
  have mv: "movement_of (sv_iso sv) ?t1 w reference ?now = Inl ErrInsufficientFunds"
    using movement_value [OF F(4) F(10) [OF kl] F(1) F(7) [symmetric] _ refl, of reference dr] dr F(5,6) k by simp
  have ids: "supplied (s_ids s) (s_drawn s) (s_db s)" "s_drawn s < 6"
    using F(11) by (simp_all add: s_def drawn_before_def)
  have ins: "insertable (s_db s) t'" unfolding s_def start_session_sel by (rule F(12)) (simp_all add: t')
  let ?code = "if cmd_kind cmd = KindRollback then FailureInsufficientFundsReversal else FailureInsufficientFunds"
  have nt: "\<not> terminal ?t1" and code: "?code \<noteq> []"
    using F(9) by (simp_all add: terminal_def terminal_status_def failure_code_defs)
  obtain s' where s': "reject_tx sv ?t1 w ?code ?co [] ?now True s = Inr (t', s')" "steady s'" "records d t' (s_db s')"
    using reject_done [OF db(2) F(8) nt F(4) code F(1) t' [unfolded rejected_def] ins ids, of ?co "[]"]
    unfolding db records_def by blast
  have "record_new sv cmd t w ?co [] ?now s = Inr ((t', w), s')"
    using accepted_finalizes [OF inv u n acc s_def] mv s'(1) F(5) by (simp add: finalize_def tx_bind_def tx_return_def)
  from process_new [OF inv u n this [unfolded s_def] s'(2)] s'(3) show ?thesis by auto
qed

lemma recording_overflows:
  assumes inv: "db_inv (sv_iso sv) d" and u: "undisturbed c d" and n: "new_command sv c cmd d w t"
    and acc: "accepted c cmd d w t reference"
    and dr: "direction_of (cmd_kind cmd) (map_option wt_kind reference) = Some dr"
    and k: "9223372036854775807 < balance_int w + signed_amount dr (money_int (cmd_money cmd))"
  shows "process sv c cmd d = (Inl ErrMoneyOverflow, d)"
proof -
  let ?now = "c_now c" and ?t1 = "with_reference t reference (c_now c)"
  define s where "s = start_session c d (Suc (drawn_before cmd))"
  note F = accepted_facts [OF inv u n acc refl]
  have kl: "cmd_kind cmd \<noteq> KindLoss" using dr by auto
  have mv: "movement_of (sv_iso sv) ?t1 w reference ?now = Inl ErrMoneyOverflow"
    using movement_value [OF F(4) F(10) [OF kl] F(1) F(7) [symmetric] _ refl, of reference dr] dr F(5,6) k by simp
  have "record_new sv cmd t w (correlation_of c cmd) [] ?now s = Inl ErrMoneyOverflow"
    using accepted_finalizes [OF inv u n acc s_def] mv by (simp add: finalize_def tx_fail_def)
  from process_new_fails [OF inv u n this [unfolded s_def]] show ?thesis .
qed

lemma recording_loses:
  assumes inv: "db_inv (sv_iso sv) d" and u: "undisturbed c d" and n: "new_command sv c cmd d w t"
    and acc: "accepted c cmd d w t reference" and kind: "cmd_kind cmd = KindLoss"
    and t': "t' = settled (with_reference t reference (c_now c)) (wallet_balance w) (c_now c)"
  shows "\<exists>d'. process sv c cmd d = (Inr (result_from t' (wallet_balance w) False), d') \<and> records d t' d'"
proof -
  let ?now = "c_now c" and ?co = "correlation_of c cmd"
  let ?t1 = "with_reference t reference ?now"
  define s where "s = start_session c d (Suc (drawn_before cmd))"
  note F = accepted_facts [OF inv u n acc refl]
  have mv: "movement_of (sv_iso sv) ?t1 w reference ?now = Inr (None, wallet_balance w, wallet_balance w, w)"
    using F(5) kind by (simp add: movement_of_def)
  have ids: "supplied (s_ids s) (s_drawn s) (s_db s)" "s_drawn s < 6"
    using F(11) by (simp_all add: s_def drawn_before_def)
  have ins: "insertable (s_db s) t'" unfolding s_def start_session_sel by (rule F(12)) (simp_all add: t')
  obtain s' where s': "settle_tx sv ?t1 None (wallet_balance w) (wallet_balance w) w ?co [] ?now True s =
      Inr ((t', w), s')" "steady s'" "records d t' (s_db s')"
    using loss_done [OF _ F(8,9,4,1,7) t' [unfolded settled_def] ins ids, of "wallet_balance w" ?co "[]"]
    by (auto simp: s_def records_def)
  have "record_new sv cmd t w ?co [] ?now s = Inr ((t', w), s')"
    using accepted_finalizes [OF inv u n acc s_def] mv s'(1) by (simp add: finalize_def)
  from process_new [OF inv u n this [unfolded s_def] s'(2)] s'(3) show ?thesis by auto
qed

text \<open>The wallet is not the player's, or holds another currency.\<close>

lemma recording_refuses_stranger:
  assumes inv: "db_inv (sv_iso sv) d" and u: "undisturbed c d" and n: "new_command sv c cmd d w t"
    and own: "wallet_player w \<noteq> cmd_player cmd \<or>
      money_currency (wallet_balance w) \<noteq> money_currency (cmd_money cmd)"
    and t': "t' = rejected t FailureWalletOwnershipOrCurrencyMismatch (wallet_balance w) (c_now c)"
  shows "\<exists>d'. process sv c cmd d = (Inr (result_from t' (wallet_balance w) False), d') \<and> records d t' d'"
proof -
  let ?now = "c_now c" and ?co = "correlation_of c cmd"
  define s where "s = start_session c d (Suc (drawn_before cmd))"
  note f = new_command_facts [OF n]
  have w: "wallet_row_of w \<in> set (wallets d)" using n by (simp add: new_command_def)
  note wok = stored_wallet(2) [OF db_invD(1) [OF inv] w]
  have now: "?now \<noteq> 0" using u by (simp add: undisturbed_def)
  have ids: "supplied (s_ids s) (s_drawn s) (s_db s)" "s_drawn s < 6"
    using supplied_mono [OF undisturbed_supply [OF u], of "Suc (drawn_before cmd)"] by (simp_all add: s_def drawn_before_def)
  have ins: "insertable (s_db s) t'" unfolding s_def start_session_sel
    by (rule new_insertable [OF n u]) (simp_all add: t' f(6))
  have db: "s_db s = d" "steady s" by (simp_all add: s_def)
  have nt: "\<not> terminal t" and code: "FailureWalletOwnershipOrCurrencyMismatch \<noteq> []"
    using f(2) by (simp_all add: terminal_def terminal_status_def failure_code_defs)
  obtain s' where s': "reject_tx sv t w FailureWalletOwnershipOrCurrencyMismatch ?co [] ?now True s = Inr (t', s')"
      "steady s'" "records d t' (s_db s')"
    using reject_done [OF db(2) f(1) nt wok code now t' [unfolded rejected_def] ins ids, of ?co "[]"]
    unfolding db records_def by blast
  have "record_new sv cmd t w ?co [] ?now s = Inr ((t', w), s')"
    using own s'(1) by (simp add: record_new_def tx_bind_def tx_return_def)
  from process_new [OF inv u n this [unfolded s_def] s'(2)] s'(3) show ?thesis by auto
qed

text \<open>The named reference is decided, but does not fit.\<close>

lemma reference_failure_steady:
  "steady s \<Longrightarrow> \<exists>code. reference_failure t (Some r) s = Inr (code, s)"
  by (auto simp: reference_failure_def tx_return_def tx_bind_def successful_reversal_exists_def select_steady)

lemma recording_refuses_reference:
  assumes inv: "db_inv (sv_iso sv) d" and u: "undisturbed c d" and n: "new_command sv c cmd d w t"
    and own: "wallet_player w = cmd_player cmd" "money_currency (wallet_balance w) = money_currency (cmd_money cmd)"
    and r: "cmd_ref_external cmd \<noteq> []" "txn_row_of r \<in> set (txns d)" "wt_provider r = cmd_provider cmd"
      "wt_external r = cmd_ref_external cmd" "terminal r"
    and g: "\<not> good_reference cmd t d (Some r)"
  shows "\<exists>code d' t'. code \<noteq> [] \<and> t' = rejected (with_reference t (Some r) (c_now c)) code (wallet_balance w) (c_now c) \<and>
      process sv c cmd d = (Inr (result_from t' (wallet_balance w) False), d') \<and> records d t' d'"
proof -
  let ?now = "c_now c" and ?co = "correlation_of c cmd" and ?t1 = "with_reference t (Some r) (c_now c)"
  define s where "s = start_session c d (Suc (drawn_before cmd))"
  note f = new_command_facts [OF n]
  have w: "wallet_row_of w \<in> set (wallets d)" using n by (simp add: new_command_def)
  note wok = stored_wallet(2) [OF db_invD(1) [OF inv] w]
  have now: "?now \<noteq> 0" using u by (simp add: undisturbed_def)
  have rok: "wager_ok (sv_iso sv) r"
    using txns_invD(1) [OF inv r(2)] txn_row_inj by (auto simp: external_row_def opening_ok_def wager_inv_def)
  have rid: "wt_id r \<noteq> []" using rok by (simp add: wager_ok_def)
  have res: "resolve_reference t (wt_id r) ?now = Inr ?t1"
    using f(2,3,5) r(1) rid now by (simp add: with_reference_def resolve_reference_ok)
  have ok1: "new_txn_ok (sv_iso sv) ?t1" by (rule new_txn_ok_same [OF f(1) wager_step.resolve [OF res]])
    (simp add: with_reference_def)
  have nt: "\<not> terminal ?t1" using f(2) by (simp add: with_reference_def terminal_def terminal_status_def)
  have ids: "supplied (s_ids s) (s_drawn s) (s_db s)" "s_drawn s < 6"
    using supplied_mono [OF undisturbed_supply [OF u], of "Suc (drawn_before cmd)"] by (simp_all add: s_def drawn_before_def)
  have db: "s_db s = d" "steady s" by (simp_all add: s_def)
  obtain code where c: "reference_failure ?t1 (Some r) s = Inr (code, s)" using reference_failure_steady [OF db(2)] by blast
  have bad: "wt_status r = StatusProcessed \<Longrightarrow> code \<noteq> []"
    using reference_failure_some [of ?t1 r s s] c g r f(4,7) db(1)
    by (auto simp: good_reference_def with_reference_def)
  define code' where "code' = (if wt_status r \<noteq> StatusProcessed then FailureReferenceNotProcessed else code)"
  have c': "code' \<noteq> []" using bad by (simp add: code'_def failure_code_defs)
  define t' where "t' = rejected ?t1 code' (wallet_balance w) ?now"
  have ex: "\<exists>q \<in> set (txns d). tr_id q = wt_id r" using r(2) by (intro bexI [of _ "txn_row_of r"]) simp_all
  have ins: "insertable (s_db s) t'" unfolding db(1)
    by (rule new_insertable [OF n u]) (use ex in \<open>simp_all add: t'_def with_reference_def wager_identity_def rejected_def\<close>)
  obtain s' where s': "reject_tx sv ?t1 w code' ?co [] ?now True s = Inr (t', s')" "steady s'" "records d t' (s_db s')"
    using reject_done [OF db(2) ok1 nt wok c' now t'_def [unfolded rejected_def] ins ids, of ?co "[]"]
    unfolding db records_def by blast
  have fr: "find_by_external_id (sv_iso sv) (cmd_provider cmd) (cmd_ref_external cmd) s = Inr (Some r, s)"
    using find_reference_done [OF _ _ rok db(2)] r db(1) inv by simp
  have np: "\<not> reference_is_pending (Some r)"
    using r(5) by (auto simp: reference_is_pending_def terminal_def terminal_status_def)
  have "record_new sv cmd t w ?co [] ?now s = Inr ((t', w), s')"
    using own r(1) fr np res c s'(1) bad
    by (simp add: record_new_def resolved_tx_def decide_tx_def tx_bind_def tx_lift_def tx_return_def code'_def
        split: if_splits)
  from process_new [OF inv u n this [unfolded s_def] s'(2)] s'(3) c' show ?thesis unfolding t'_def by blast
qed

text \<open>The named reference is not known yet, or not decided.\<close>

lemma recording_waits:
  assumes inv: "db_inv (sv_iso sv) d" and u: "undisturbed c d" and n: "new_command sv c cmd d w t"
    and own: "wallet_player w = cmd_player cmd" "money_currency (wallet_balance w) = money_currency (cmd_money cmd)"
    and r: "cmd_ref_external cmd \<noteq> []"
      "\<And>q. q \<in> set (txns d) \<Longrightarrow> tr_provider q = Some (cmd_provider cmd) \<Longrightarrow>
         tr_external q = Some (cmd_ref_external cmd) \<Longrightarrow> \<not> terminal_status (tr_status q)"
    and b: "0 < sint (sv_base_backoff sv)" "sint (sv_base_backoff sv) \<le> sint (sv_max_backoff sv)"
    and t': "t' = awaiting t (time_add (c_now c) (service_backoff sv 1)) (c_now c)"
  shows "\<exists>d'. process sv c cmd d = (Inr (result_from t' (wallet_balance w) False), d') \<and> records d t' d'"
proof -
  let ?now = "c_now c" and ?co = "correlation_of c cmd" and ?next = "time_add (c_now c) (service_backoff sv 1)"
  define s where "s = start_session c d (Suc (drawn_before cmd))"
  note f = new_command_facts [OF n]
  have now: "?now \<noteq> 0" using u by (simp add: undisturbed_def)
  have later: "?now < ?next"
    using b by (simp add: service_backoff_def time_add_def reference_backoff_value capped_doubling_def)
  have ids: "supplied (s_ids s) (s_drawn s) (s_db s)" "s_drawn s < 6"
    using supplied_mono [OF undisturbed_supply [OF u], of "Suc (drawn_before cmd)"] by (simp_all add: s_def drawn_before_def)
  have db: "s_db s = d" "steady s" by (simp_all add: s_def)
  have ins: "insertable (s_db s) t'" unfolding db(1)
    by (rule new_insertable [OF n u]) (use own in \<open>simp_all add: t' f(6)\<close>)
  obtain s' where s': "tx_bind (tx_lift (mark_pending_reference t ?next ?now)) (\<lambda>t'.
            tx_bind (insert_transaction t') (\<lambda>_.
            tx_bind (pending_event t' ?co [] ?now) (\<lambda>_.
            tx_return (t', w)))) s = Inr ((t', w), s')" "steady s'" "records d t' (s_db s')"
    using wait_done [OF db(2) f(1,2) _ f(16) now later t' [unfolded awaiting_def] ins ids, where w = w and co = ?co and ca = "[]"] f(5) r(1)
    unfolding db records_def by auto
  have "\<exists>x. find_by_external_id (sv_iso sv) (cmd_provider cmd) (cmd_ref_external cmd) s = Inr (x, s) \<and>
      reference_is_pending x"
  proof (cases "find_by_external (cmd_provider cmd) (cmd_ref_external cmd) d")
    case None
    then show ?thesis
      using db by (simp add: find_by_external_id_def select_steady scan_optional_def reference_is_pending_def)
  next
    case (Some q)
    then have q: "q \<in> set (txns d)" "tr_provider q = Some (cmd_provider cmd)" "tr_external q = Some (cmd_ref_external cmd)"
      unfolding find_by_external_def by (auto simp: find_Some_iff)
    then obtain v where v: "q = txn_row_of v" "wager_inv (sv_iso sv) v"
      using txns_invD(1) [OF inv q(1)] by (auto simp: external_row_def opening_ok_def)
    then have vok: "wager_ok (sv_iso sv) v" by (simp add: wager_inv_def)
    have "\<not> terminal_status (wt_status v)" using r(2) [OF q] v(1) by simp
    then have "reference_is_pending (Some v)"
      using vok by (cases "wt_status v") (auto simp: reference_is_pending_def terminal_status_def wager_ok_def status_ok_def)
    then show ?thesis
      using Some db v(1) scan_txn_row [OF vok] by (simp add: find_by_external_id_def select_steady scan_optional_def)
  qed
  then have "record_new sv cmd t w ?co [] ?now s = Inr ((t', w), s')"
    using own r(1) s'(1) f(16) by (auto simp: record_new_def tx_bind_def)
  from process_new [OF inv u n this [unfolded s_def] s'(2)] s'(3) show ?thesis by auto
qed

end
