(* ===== verification/Verdicts.thy ===== *)
theory Verdicts
  imports Processing Outcomes
begin

text \<open>
  What a new command does, outcome by outcome, in every reachable state of the service.
\<close>

section \<open>Sample commands\<close>

definition sample_ids :: "string list" where
  "sample_ids = [''n0'', ''n1'', ''n2'', ''n3'', ''n4'', ''n5'']"

lemma sample_undisturbed: "undisturbed (sample_call 8 sample_ids) db_bet"
  by (simp add: undisturbed_def sample_call_def sample_ids_def used_ids_def db_bet_def db_opened_def
      sample_entry_def outbox_row_of_def events_def new_event_def upt_rec opening_row_def sample_row_def wallet_row_of_def)

lemma sample_new:
  assumes k: "external_kind k" "ext \<noteq> [] \<and> ext \<noteq> ''x1''" "key \<noteq> [] \<and> key \<noteq> ''k1''"
    and m: "if k = KindLoss then sint m = 0 else 0 < sint m"
    and r: "if reversal_kind k then ref \<noteq> [] else k = KindWin \<or> ref = []"
  shows "new_command sample_service (sample_call 8 sample_ids) (sample_cmd k ext key m ref) db_bet (at 7500 2 6)
     (sample_txn ''n0'' (sample_cmd k ext key m ref) [] StatusPending None 8)"
proof -
  have am: "amount_ok k (brl m)"
    using m by (auto simp: amount_ok_def money_int_def)
  show ?thesis
    using k r am by (cases rule: external_kind_cases [OF k(1)])
     (auto simp: new_command_def sample_call_def sample_ids_def drawn_before_def new_wager_ok_iff reversal_kind_def
      external_of_command_def sample_txn_def find_by_key_def find_by_external_def db_bet_def sample_row_def)
qed

lemma sample_accepted:
  "accepted (sample_call 8 sample_ids) (sample_cmd k ext key m []) db_bet (at 7500 2 6) t None"
  by (simp add: accepted_def good_reference_def)

lemma money_of_brl [simp]: "money_of k ''BRL'' = brl (word_of_int k)"
  by (simp add: money_of_def brl_def)

lemma apply_at [simp]: "wallet_apply (at b v n) (brl m) n' = at m (v + 1) n'"
  by (simp add: wallet_apply_def at_def)

lemma two_not_max [simp]: "max_int64 \<noteq> 2"
  by (simp add: max_int64_def)

lemma sample_call_now [simp]: "c_now (sample_call now ids) = now"
  by (simp add: sample_call_def)

lemma balance_int_at [simp]: "balance_int (at b v n) = sint b" by (simp add: balance_int_def)
lemma money_int_brl [simp]: "money_int (brl m) = sint m" by (simp add: money_int_def)

section \<open>The verdicts\<close>

text \<open>
  C6: In every reachable state, a new valid command of the wallet's owner, in its currency
  and with a good reference, whose movement keeps the balance within an int64 and not
  negative, is PROCESSED: the answer and the stored wallet hold exactly the balance plus or
  minus the amount (debit for a bet or the rollback of a credit, credit for a win, a refund or
  the rollback of a bet), one transaction and one ledger entry with the balances before and
  after are appended, and no other wallet, transaction or entry changes.
\<close>

theorem process_moves_money:
  assumes "reachable sv (d, ms)" and "undisturbed c d" and "new_command sv c cmd d w t"
    and "accepted c cmd d w t reference" and "wallet_version w \<noteq> max_int64"
    and "direction_of (cmd_kind cmd) (map_option wt_kind reference) = Some dr"
    and "k = balance_int w + signed_amount dr (money_int (cmd_money cmd))" and "0 \<le> k" and "k \<le> 9223372036854775807"
    and "after = money_of k (money_currency (wallet_balance w))"
    and "t' = settled (with_reference t reference (c_now c)) after (c_now c)"
  shows "\<exists>d'. process sv c cmd d = (Inr (result_from t' after False), d') \<and> moves d t' w dr after (c_now c) d'"
  by (rule recording_moves [OF reachable_db_inv [OF assms(1), unfolded fst_conv] assms(2-11)])

lemma process_moves_money_witness:
  "\<exists>d'. process sample_service (sample_call 8 sample_ids) (sample_cmd KindBet ''x3'' ''k3'' 7500 []) db_bet =
     (Inr \<lparr>pr_transaction = ''n0'', pr_status = StatusProcessed, pr_balance = view_money (brl 0), pr_failure = [], pr_replay = False\<rparr>, d') \<and>
     wallets d' = put_wallet (at 0 3 8) (wallets db_bet)"
proof -
  have n: "new_command sample_service (sample_call 8 sample_ids) (sample_cmd KindBet ''x3'' ''k3'' 7500 []) db_bet
      (at 7500 2 6) (sample_txn ''n0'' (sample_cmd KindBet ''x3'' ''k3'' 7500 []) [] StatusPending None 8)"
    by (rule sample_new) (simp_all add: reversal_kind_def)
  show ?thesis
    using process_moves_money [OF reachable_bet sample_undisturbed n sample_accepted _ _ _ _ _ refl refl, where dr = DirectionDebit and k = 0]
    by (auto simp: result_from_def sample_txn_def outcome_defs records_def moves_def with_reference_def brl_eq
      good_reference_def reversal_kind_def)
qed

text \<open>
  C8: A command that would make the balance negative is REJECTED with the code of its
  kind; the answer and the stored transaction carry the unchanged balance, and neither a
  wallet nor the ledger changes.
\<close>

theorem process_refuses_overdraft:
  assumes "reachable sv (d, ms)" and "undisturbed c d" and "new_command sv c cmd d w t"
    and "accepted c cmd d w t reference"
    and "direction_of (cmd_kind cmd) (map_option wt_kind reference) = Some dr"
    and "balance_int w + signed_amount dr (money_int (cmd_money cmd)) < 0"
    and "t' = rejected (with_reference t reference (c_now c))
        (if cmd_kind cmd = KindRollback then FailureInsufficientFundsReversal else FailureInsufficientFunds)
        (wallet_balance w) (c_now c)"
  shows "\<exists>d'. process sv c cmd d = (Inr (result_from t' (wallet_balance w) False), d') \<and> records d t' d'"
  by (rule recording_overdraws [OF reachable_db_inv [OF assms(1), unfolded fst_conv] assms(2-7)])

lemma process_refuses_overdraft_witness:
  "\<exists>d'. process sample_service (sample_call 8 sample_ids) (sample_cmd KindBet ''x3'' ''k3'' 7501 []) db_bet =
     (Inr \<lparr>pr_transaction = ''n0'', pr_status = StatusRejected, pr_balance = view_money (brl 7500), pr_failure = FailureInsufficientFunds, pr_replay = False\<rparr>, d') \<and>
     wallets d' = wallets db_bet \<and> ledger d' = ledger db_bet"
proof -
  have n: "new_command sample_service (sample_call 8 sample_ids) (sample_cmd KindBet ''x3'' ''k3'' 7501 []) db_bet
      (at 7500 2 6) (sample_txn ''n0'' (sample_cmd KindBet ''x3'' ''k3'' 7501 []) [] StatusPending None 8)"
    by (rule sample_new) (simp_all add: reversal_kind_def)
  show ?thesis
    using process_refuses_overdraft [OF reachable_bet sample_undisturbed n sample_accepted _ _ refl, where dr = DirectionDebit]
    by (auto simp: result_from_def sample_txn_def outcome_defs records_def moves_def with_reference_def brl_eq
      good_reference_def reversal_kind_def)
qed

text \<open>
  C13: A command that would push the balance past the largest int64 is refused with
  ErrMoneyOverflow and leaves the database as it was.
\<close>

theorem process_refuses_overflow:
  assumes "reachable sv (d, ms)" and "undisturbed c d" and "new_command sv c cmd d w t"
    and "accepted c cmd d w t reference"
    and "direction_of (cmd_kind cmd) (map_option wt_kind reference) = Some dr"
    and "9223372036854775807 < balance_int w + signed_amount dr (money_int (cmd_money cmd))"
  shows "process sv c cmd d = (Inl ErrMoneyOverflow, d)"
  by (rule recording_overflows [OF reachable_db_inv [OF assms(1), unfolded fst_conv] assms(2-6)])

lemma process_refuses_overflow_witness:
  "process sample_service (sample_call 8 sample_ids) (sample_cmd KindWin ''x3'' ''k3'' 9223372036854775807 []) db_bet =
     (Inl ErrMoneyOverflow, db_bet)"
  using process_refuses_overflow [OF reachable_bet sample_undisturbed
    sample_new [of KindWin "''x3''" "''k3''" 9223372036854775807 "[]"] sample_accepted, where dr = DirectionCredit]
  by (simp add: reversal_kind_def)

text \<open>
  A loss is PROCESSED without a movement: one transaction is recorded with the current
  balance, and neither a wallet nor the ledger changes.
\<close>

lemma process_records_loss:
  assumes "reachable sv (d, ms)" and "undisturbed c d" and "new_command sv c cmd d w t"
    and "accepted c cmd d w t reference" and "cmd_kind cmd = KindLoss"
    and "t' = settled (with_reference t reference (c_now c)) (wallet_balance w) (c_now c)"
  shows "\<exists>d'. process sv c cmd d = (Inr (result_from t' (wallet_balance w) False), d') \<and> records d t' d'"
  by (rule recording_loses [OF reachable_db_inv [OF assms(1), unfolded fst_conv] assms(2-6)])

lemma process_records_loss_witness:
  "\<exists>d'. process sample_service (sample_call 8 sample_ids) (sample_cmd KindLoss ''x3'' ''k3'' 0 []) db_bet =
     (Inr \<lparr>pr_transaction = ''n0'', pr_status = StatusProcessed, pr_balance = view_money (brl 7500), pr_failure = [], pr_replay = False\<rparr>, d') \<and>
     wallets d' = wallets db_bet \<and> ledger d' = ledger db_bet"
proof -
  have n: "new_command sample_service (sample_call 8 sample_ids) (sample_cmd KindLoss ''x3'' ''k3'' 0 []) db_bet
      (at 7500 2 6) (sample_txn ''n0'' (sample_cmd KindLoss ''x3'' ''k3'' 0 []) [] StatusPending None 8)"
    by (rule sample_new) (simp_all add: reversal_kind_def)
  show ?thesis
    using process_records_loss [OF reachable_bet sample_undisturbed n sample_accepted _ refl]
    by (auto simp: result_from_def sample_txn_def outcome_defs records_def moves_def with_reference_def brl_eq
      good_reference_def reversal_kind_def)
qed

text \<open>
  A command of another player, or in another currency than the wallet's, is REJECTED
  with WALLET_OWNERSHIP_OR_CURRENCY_MISMATCH before any other rule is looked at; no wallet and
  no entry changes.
\<close>

lemma process_rejects_stranger:
  assumes "reachable sv (d, ms)" and "undisturbed c d" and "new_command sv c cmd d w t"
    and "wallet_player w \<noteq> cmd_player cmd \<or> money_currency (wallet_balance w) \<noteq> money_currency (cmd_money cmd)"
    and "t' = rejected t FailureWalletOwnershipOrCurrencyMismatch (wallet_balance w) (c_now c)"
  shows "\<exists>d'. process sv c cmd d = (Inr (result_from t' (wallet_balance w) False), d') \<and> records d t' d'"
  by (rule recording_refuses_stranger [OF reachable_db_inv [OF assms(1), unfolded fst_conv] assms(2-5)])

definition stranger_cmd :: wager_command where
  "stranger_cmd = (sample_cmd KindBet ''x3'' ''k3'' 2500 [])\<lparr>cmd_player := ''q''\<rparr>"

lemma stranger_new:
  "new_command sample_service (sample_call 8 sample_ids) stranger_cmd db_bet (at 7500 2 6)
     ((sample_txn ''n0'' stranger_cmd [] StatusPending None 8)\<lparr>wt_player := ''q''\<rparr>)"
  by (simp add: new_command_def sample_call_def sample_ids_def drawn_before_def new_wager_ok_iff stranger_cmd_def
      external_of_command_def sample_txn_def find_by_key_def find_by_external_def db_bet_def sample_row_def amount_ok_def
      sample_hash)

lemma process_rejects_stranger_witness:
  "\<exists>d'. process sample_service (sample_call 8 sample_ids) stranger_cmd db_bet =
     (Inr \<lparr>pr_transaction = ''n0'', pr_status = StatusRejected, pr_balance = view_money (brl 7500), pr_failure = FailureWalletOwnershipOrCurrencyMismatch, pr_replay = False\<rparr>, d') \<and>
     wallets d' = wallets db_bet \<and> ledger d' = ledger db_bet"
  using process_rejects_stranger [OF reachable_bet sample_undisturbed stranger_new _ refl]
  by (auto simp: stranger_cmd_def result_from_def sample_txn_def outcome_defs records_def)

text \<open>
  C9: A command whose reference is stored and decided, but not PROCESSED, or of another
  provider, player, wallet, round or currency, of another amount or a kind that cannot be
  reversed or won, or already reversed, is REJECTED with a code; no wallet and no entry changes.
\<close>

theorem process_rejects_bad_reference:
  assumes "reachable sv (d, ms)" and "undisturbed c d" and "new_command sv c cmd d w t"
    and "wallet_player w = cmd_player cmd" and "money_currency (wallet_balance w) = money_currency (cmd_money cmd)"
    and "cmd_ref_external cmd \<noteq> []" and "txn_row_of r \<in> set (txns d)" and "wt_provider r = cmd_provider cmd"
    and "wt_external r = cmd_ref_external cmd" and "terminal r" and "\<not> good_reference cmd t d (Some r)"
  shows "\<exists>code d' t'. code \<noteq> [] \<and> t' = rejected (with_reference t (Some r) (c_now c)) code (wallet_balance w) (c_now c) \<and>
      process sv c cmd d = (Inr (result_from t' (wallet_balance w) False), d') \<and> records d t' d'"
  by (rule recording_refuses_reference [OF reachable_db_inv [OF assms(1), unfolded fst_conv] assms(2-11)])

lemma process_rejects_bad_reference_witness:
  "\<exists>code d'. process sample_service (sample_call 8 sample_ids) (sample_cmd KindRefund ''x3'' ''k3'' 2400 ''x1'') db_bet =
     (Inr \<lparr>pr_transaction = ''n0'', pr_status = StatusRejected, pr_balance = view_money (brl 7500), pr_failure = code, pr_replay = False\<rparr>, d') \<and>
     code \<noteq> [] \<and> wallets d' = wallets db_bet \<and> ledger d' = ledger db_bet"
proof -
  have n: "new_command sample_service (sample_call 8 sample_ids) (sample_cmd KindRefund ''x3'' ''k3'' 2400 ''x1'') db_bet
      (at 7500 2 6) (sample_txn ''n0'' (sample_cmd KindRefund ''x3'' ''k3'' 2400 ''x1'') [] StatusPending None 8)"
    by (rule sample_new) (simp_all add: reversal_kind_def)
  have r: "txn_row_of bet_txn \<in> set (txns db_bet)" "terminal bet_txn"
    by (simp_all add: db_bet_def terminal_def terminal_status_def)
  have g: "\<not> good_reference (sample_cmd KindRefund ''x3'' ''k3'' 2400 ''x1'')
      (sample_txn ''n0'' (sample_cmd KindRefund ''x3'' ''k3'' 2400 ''x1'') [] StatusPending None 8) db_bet (Some bet_txn)"
    by (simp add: good_reference_def sample_txn_def [of "''n0''"] brl_eq reversal_kind_def)
  show ?thesis
    using process_rejects_bad_reference [OF reachable_bet sample_undisturbed n _ _ _ r(1) _ _ r(2) g]
    by (auto simp: result_from_def sample_txn_def [of "''n0''"] outcome_defs records_def with_reference_def)
qed

text \<open>
  C10: A command whose reference is unknown or not decided is stored as PENDING_REFERENCE,
  with its first attempt counted and the next one due strictly later, after the first delay
  of the schedule; no wallet and no entry changes.
\<close>

theorem process_waits_for_reference:
  assumes "reachable sv (d, ms)" and "undisturbed c d" and "new_command sv c cmd d w t"
    and "wallet_player w = cmd_player cmd" and "money_currency (wallet_balance w) = money_currency (cmd_money cmd)"
    and "cmd_ref_external cmd \<noteq> []"
    and "\<And>q. q \<in> set (txns d) \<Longrightarrow> tr_provider q = Some (cmd_provider cmd) \<Longrightarrow>
         tr_external q = Some (cmd_ref_external cmd) \<Longrightarrow> \<not> terminal_status (tr_status q)"
    and "0 < sint (sv_base_backoff sv)" and "sint (sv_base_backoff sv) \<le> sint (sv_max_backoff sv)"
    and "t' = awaiting t (c_now c + sint (sv_base_backoff sv)) (c_now c)"
  shows "\<exists>d'. process sv c cmd d = (Inr (result_from t' (wallet_balance w) False), d') \<and> records d t' d'"
proof (rule recording_waits [OF reachable_db_inv [OF assms(1), unfolded fst_conv] assms(2-9)])
  show "t' = awaiting t (time_add (c_now c) (service_backoff sv 1)) (c_now c)"
    using assms(8-10) by (simp add: service_backoff_def time_add_def reference_backoff_value capped_doubling_def)
qed

lemma process_waits_for_reference_witness:
  "\<exists>d'. process sample_service (sample_call 8 sample_ids) (sample_cmd KindRefund ''x3'' ''k3'' 2500 ''x9'') db_bet =
     (Inr \<lparr>pr_transaction = ''n0'', pr_status = StatusPendingReference, pr_balance = view_money (brl 7500), pr_failure = [], pr_replay = False\<rparr>, d') \<and>
     wallets d' = wallets db_bet \<and> ledger d' = ledger db_bet"
proof -
  have n: "new_command sample_service (sample_call 8 sample_ids) (sample_cmd KindRefund ''x3'' ''k3'' 2500 ''x9'') db_bet
      (at 7500 2 6) (sample_txn ''n0'' (sample_cmd KindRefund ''x3'' ''k3'' 2500 ''x9'') [] StatusPending None 8)"
    by (rule sample_new) (simp_all add: reversal_kind_def)
  have "\<not> terminal_status (tr_status q)" if "q \<in> set (txns db_bet)" "tr_external q = Some ''x9''" for q
    using that by (auto simp: db_bet_def opening_row_def)
  then show ?thesis
    using process_waits_for_reference [OF reachable_bet sample_undisturbed n _ _ _ _ _ _ refl]
    by (auto simp: result_from_def sample_txn_def outcome_defs records_def moves_def with_reference_def brl_eq
      good_reference_def reversal_kind_def)
qed

end
