(* ===== verification/Frames.thy ===== *)
theory Frames
  imports WalletService
begin

text \<open>
  Which tables an operation leaves alone: a framing relation closed under the monad's
  constructors, so that the frame of a use case follows from its text. It gives the
  invariant of the inbox: a committed message is completed, and recorded once.
\<close>

section \<open>Statements that leave a table alone\<close>

text \<open>The projection \<open>f\<close> of the tables is the same after \<open>m\<close>.\<close>

definition preserves :: "(db \<Rightarrow> 'b) \<Rightarrow> 'a tx \<Rightarrow> bool" where
  "preserves f m \<longleftrightarrow> (\<forall>s x s'. m s = Inr (x, s') \<longrightarrow> f (s_db s') = f (s_db s))"

named_theorems keeps

lemma preserves_return [keeps]: "preserves f (tx_return x)"
  and preserves_fail [keeps]: "preserves f (tx_fail e)"
  and preserves_lift [keeps]: "preserves f (tx_lift r)"
  and preserves_uuid [keeps]: "preserves f new_uuid"
  by (auto simp: preserves_def dest!: new_uuidD)

lemma preserves_bind [keeps]:
  "preserves f m \<Longrightarrow> (\<And>x. preserves f (g x)) \<Longrightarrow> preserves f (tx_bind m g)"
  by (auto simp: preserves_def tx_bind_ok)

lemma preserves_reads [keeps]:
  "preserves f (lock_wallet iso4217 wid)" "preserves f (find_by_idempotency iso4217 p k)"
  "preserves f (find_by_external_id iso4217 p x)" "preserves f (lock_transaction iso4217 tid)"
  "preserves f (successful_reversal_exists x)" "preserves f (acquire_idempotency_lock p k)"
  by (auto simp: preserves_def dest!: statement_dests)

lemma inbox_writes [keeps]:
  "preserves inbox (insert_transaction t)" "preserves inbox (update_transaction t)"
  "preserves inbox (update_wallet w)" "preserves inbox (insert_wallet w)" "preserves inbox (insert_ledger e)"
  "preserves inbox (insert_opening tid w m now)" "preserves inbox (emit ty ag co ca now dat)"
  "preserves inbox (insert_outbox ev)"
  by (auto simp: preserves_def insert_transaction_def insert_opening_def dest!: statement_dests)

lemma inbox_save [keeps]: "preserves inbox (save_transaction fresh t)"
  by (auto simp: save_transaction_def intro!: keeps)

lemma inbox_reject [keeps]: "preserves inbox (reject_tx sv t w code co ca now fresh)"
  by (auto simp: reject_tx_def intro!: keeps)

lemma inbox_pending [keeps]: "preserves inbox (pending_event t co ca now)"
  by (auto simp: pending_event_def intro!: keeps)

lemma inbox_movement [keeps]: "preserves inbox (record_movement iso4217 t dir before after w now)"
  by (auto simp: record_movement_def intro!: keeps)

lemma inbox_settle [keeps]: "preserves inbox (settle_tx sv t dir before after w co ca now fresh)"
  by (auto simp: settle_tx_def intro!: keeps split: option.splits)

lemma inbox_finalize [keeps]: "preserves inbox (finalize sv t w reference co ca now fresh)"
  by (auto simp: finalize_def intro!: keeps split: sum.splits)

lemma inbox_reference [keeps]: "preserves f (reference_failure t reference)"
  by (auto simp: reference_failure_def intro!: keeps split: option.splits)

lemma inbox_decide [keeps]: "preserves inbox (decide_tx sv t w reference co ca now fresh)"
  by (auto simp: decide_tx_def intro!: keeps)

lemma inbox_resolved [keeps]: "preserves inbox (resolved_tx sv t w r co ca now fresh)"
  by (auto simp: resolved_tx_def intro!: keeps)

lemma inbox_record_new [keeps]: "preserves inbox (record_new sv cmd t w co ca now)"
  by (auto simp: record_new_def intro!: keeps)

lemma inbox_replay [keeps]: "preserves f (replay_result sv t)"
  by (auto simp: replay_result_def intro!: keeps split: option.splits)

lemma inbox_resolve [keeps]: "preserves inbox (resolve_pending_tx sv tid now)"
  by (auto simp: resolve_pending_tx_def intro!: keeps)

lemma inbox_failure [keeps]: "preserves inbox (record_failure_tx sv tid now)"
  by (auto simp: record_failure_tx_def intro!: keeps)

lemma inbox_create [keeps]: "preserves inbox (create_tx sv w m co now)"
  by (auto simp: create_tx_def intro!: keeps split: option.splits)

end
