(* ===== verification/Replay.thy ===== *)
theory Replay
  imports Verdicts Frames
begin

text \<open>
  Idempotency: what a stored command answers when it is sent again, with the same or with
  another payload, over HTTP or redelivered by the queue, and after a lost acknowledgement.
\<close>

section \<open>What a call leaves behind\<close>

text \<open>The transaction that a command is stored as, and the answer built from it.\<close>

definition stored_as :: "service \<Rightarrow> wager_command \<Rightarrow> db \<Rightarrow> wager \<Rightarrow> bool" where
  "stored_as sv cmd d t \<longleftrightarrow>
     txn_row_of t \<in> set (txns d) \<and> wt_provider t = cmd_provider cmd \<and> wt_key t = cmd_key cmd \<and>
     wt_hash t = wager_payload_hash sv cmd"

definition answers :: "process_result \<Rightarrow> wager \<Rightarrow> bool" where
  "answers r t \<longleftrightarrow>
     pr_transaction r = wt_id t \<and> pr_status r = wt_status t \<and> pr_failure r = wt_failure t \<and>
     (\<forall>b. wt_result t = Some b \<longrightarrow> pr_balance r = view_money b)"

definition recorded :: "wager \<Rightarrow> wager \<times> wallet \<Rightarrow> db \<Rightarrow> bool" where
  "recorded t p d \<longleftrightarrow>
     txn_row_of (fst p) \<in> set (txns d) \<and> wager_identity (fst p) = wager_identity t \<and>
     (\<forall>b. wt_result (fst p) = Some b \<longrightarrow> wallet_balance (snd p) = b)"

lemma recorded_step:
  "recorded t p d \<Longrightarrow> wager_identity t = wager_identity u \<Longrightarrow> recorded u p d"
  by (simp add: recorded_def)

lemma save_recorded:
  assumes "at_hand sv s fresh t0 w" and "ready (sv_iso sv) (s_db s) fresh t"
    and "save_transaction fresh t s = Inr (u, s')"
  shows "txn_row_of t \<in> set (txns (s_db s'))"
  using save_transactionD [OF _ assms(2,3)] written_in db_invD(6) assms(1) by (fastforce simp: at_hand_def)

lemma emit_txns: "emit ty ag co ca now dat s = Inr (u, s') \<Longrightarrow> txns (s_db s') = txns (s_db s)"
  by (auto dest!: emitD)

lemma record_movement_txns:
  "record_movement iso4217 t dir before after w now s = Inr (u, s') \<Longrightarrow> txns (s_db s') = txns (s_db s)"
  by (auto simp: record_movement_def tx_bind_ok dest!: update_walletD insert_ledgerD new_uuidD)

lemma reject_recorded:
  assumes h: "at_hand sv s fresh t w" and r: "reject_tx sv t w code co ca now fresh s = Inr (t', s')"
  shows "recorded t (t', w) (s_db s')" and "terminal t'"
proof -
  from r obtain s1 where r: "reject_wager (sv_iso sv) t code (wallet_balance w) now = Inr t'"
    and s: "save_transaction fresh t' s = Inr ((), s1)" and e: "txns (s_db s') = txns (s_db s1)"
    by (auto simp: reject_tx_def tx_bind_ok dest: emit_txns)
  from r have t': "wager_identity t' = wager_identity t" "wt_result t' = Some (wallet_balance w)" "wt_status t' = StatusRejected"
    by (auto simp: reject_wager_ok wager_identity_def)
  then show "terminal t'" by (simp add: terminal_def terminal_status_def)
  have "ready (sv_iso sv) (s_db s) fresh t'"
    using ready_step [OF _ wager_step.rejected [OF r]] h by (simp add: at_hand_def)
  from save_recorded [OF h this s] e t' show "recorded t (t', w) (s_db s')" by (simp add: recorded_def)
qed

lemma settle_recorded:
  assumes h: "at_hand sv s fresh t w0" and st: "settle_tx sv t dir before after w' co ca now fresh s = Inr (p, s')"
    and a: "wallet_balance w' = after"
  shows "recorded t p (s_db s')" and "terminal (fst p)"
proof -
  from st obtain t' s1 s2 s3 where r: "mark_processed (sv_iso sv) t after now = Inr t'" and p: "p = (t', w')"
    and s: "save_transaction fresh t' s = Inr ((), s1)"
    and m: "(case dir of None \<Rightarrow> tx_return () | Some dr \<Rightarrow> record_movement (sv_iso sv) t' dr before after w' now) s1 = Inr ((), s2)"
    and e: "emit EventWagerTransactionProcessed (wt_id t') co ca now (processed_event t' w' after) s2 = Inr ((), s3)"
    and c: "(case dir of None \<Rightarrow> tx_return () | Some dr \<Rightarrow> emit EventWalletBalanceChanged (wallet_id w') co (wt_id t') now
                  (changed_event t' w' dr before after)) s3 = Inr ((), s')"
    by (auto simp: settle_tx_def tx_bind_ok)
  have "txns (s_db s2) = txns (s_db s1)" using m by (cases dir) (auto dest: record_movement_txns)
  moreover have "txns (s_db s3) = txns (s_db s2)" by (rule emit_txns [OF e])
  moreover have "txns (s_db s') = txns (s_db s3)" using c by (cases dir) (auto dest: emit_txns)
  moreover have t': "wager_identity t' = wager_identity t" "wt_result t' = Some after" "wt_status t' = StatusProcessed"
    using r by (auto simp: mark_processed_ok wager_identity_def)
  moreover have "ready (sv_iso sv) (s_db s) fresh t'"
    using ready_step [OF _ wager_step.processed [OF r]] h by (simp add: at_hand_def)
  ultimately show "recorded t p (s_db s')" using save_recorded [OF h _ s] a p by (simp add: recorded_def)
  show "terminal (fst p)" using t'(3) p by (simp add: terminal_def terminal_status_def)
qed

lemma finalize_recorded:
  assumes h: "at_hand sv s fresh t w" and f: "finalize sv t w reference co ca now fresh s = Inr (p, s')"
  shows "recorded t p (s_db s') \<and> terminal (fst p)"
proof (cases "movement_of (sv_iso sv) t w reference now")
  case (Inl e)
  with f show ?thesis
    by (auto simp: finalize_def tx_bind_ok intro: reject_recorded [OF h] split: if_splits)
next
  case (Inr q)
  then obtain dir before after w' where q: "movement_of (sv_iso sv) t w reference now = Inr (dir, before, after, w')"
    by (cases q) auto
  have "wallet_balance w' = after" using movement_ofD(2) [OF q] h by (auto simp: at_hand_def)
  then show ?thesis using f q by (auto simp: finalize_def intro: settle_recorded [OF h])
qed

lemma decide_recorded:
  assumes h: "at_hand sv s fresh t w" and d: "decide_tx sv t w reference co ca now fresh s = Inr (p, s')"
  shows "recorded t p (s_db s') \<and> terminal (fst p)"
proof -
  from d obtain code s1 where c: "reference_failure t reference s = Inr (code, s1)"
    and k: "(if code \<noteq> [] then tx_bind (reject_tx sv t w code co ca now fresh) (\<lambda>t'. tx_return (t', w))
      else finalize sv t w reference co ca now fresh) s1 = Inr (p, s')"
    by (auto simp: decide_tx_def tx_bind_ok)
  note h1 = at_hand_db [OF h reference_failure_db [OF c]]
  show ?thesis
    using k finalize_recorded [OF h1] by (auto simp: tx_bind_ok intro: reject_recorded [OF h1] split: if_splits)
qed

lemma resolved_recorded:
  assumes h: "at_hand sv s fresh t w" and d: "resolved_tx sv t w r co ca now fresh s = Inr (p, s')"
  shows "recorded t p (s_db s') \<and> terminal (fst p)"
proof -
  from d obtain t1 where j: "resolve_reference t (wt_id r) now = Inr t1"
    and k: "(if wt_status r \<noteq> StatusProcessed then
       tx_bind (reject_tx sv t1 w FailureReferenceNotProcessed co ca now fresh) (\<lambda>t''. tx_return (t'', w))
     else decide_tx sv t1 w (Some r) co ca now fresh) s = Inr (p, s')"
    by (auto simp: resolved_tx_def tx_bind_ok)
  note h1 = at_hand_step [OF h wager_step.resolve [OF j]]
  have i: "wager_identity t1 = wager_identity t" using j by (auto simp: resolve_reference_ok wager_identity_def)
  have "recorded t1 p (s_db s') \<and> terminal (fst p)"
    using k decide_recorded [OF h1] by (auto simp: tx_bind_ok intro: reject_recorded [OF h1] split: if_splits)
  then show ?thesis using recorded_step [OF _ i] by blast
qed

lemma record_new_recorded:
  assumes h: "at_hand sv s True t w" and n: "wt_result t = None"
    and r: "record_new sv cmd t w co ca now s = Inr (p, s')"
  shows "recorded t p (s_db s')"
proof (cases "wallet_player w \<noteq> cmd_player cmd \<or> money_currency (wallet_balance w) \<noteq> money_currency (cmd_money cmd)")
  case True
  with r show ?thesis by (auto simp: record_new_def tx_bind_ok intro: reject_recorded [OF h])
next
  case owned: False
  show ?thesis
  proof (cases "cmd_ref_external cmd = []")
    case True
    with r owned have "decide_tx sv t w None co ca now True s = Inr (p, s')" by (simp add: record_new_def)
    then show ?thesis using decide_recorded [OF h] by blast
  next
    case False
    with r owned obtain v s1 where
      f: "find_by_external_id (sv_iso sv) (cmd_provider cmd) (cmd_ref_external cmd) s = Inr (v, s1)"
      and k: "(if reference_is_pending v then
            tx_bind (tx_lift (mark_pending_reference t
              (time_add now (service_backoff sv (wt_attempts t + 1))) now)) (\<lambda>t'.
            tx_bind (insert_transaction t') (\<lambda>_.
            tx_bind (pending_event t' co ca now) (\<lambda>_.
            tx_return (t', w))))
          else resolved_tx sv t w (the v) co ca now True) s1 = Inr (p, s')"
      by (auto simp: record_new_def tx_bind_ok)
    have db: "s_db s1 = s_db s" using find_by_external_idD [OF f] by simp
    note h1 = at_hand_db [OF h db]
    show ?thesis
    proof (cases "reference_is_pending v")
      case True
      with k obtain t1 s2 where
        j: "mark_pending_reference t (time_add now (service_backoff sv (wt_attempts t + 1))) now = Inr t1"
        and i: "save_transaction True t1 s1 = Inr ((), s2)" and e: "pending_event t1 co ca now s2 = Inr ((), s')"
        and p: "p = (t1, w)"
        by (auto simp: tx_bind_ok save_transaction_def)
      have "ready (sv_iso sv) (s_db s1) True t1"
        using at_hand_step [OF h1 wager_step.pend [OF j]] by (simp add: at_hand_def)
      moreover have "txns (s_db s') = txns (s_db s2)" using e by (auto simp: pending_event_def dest: emit_txns)
      moreover have "wager_identity t1 = wager_identity t" "wt_result t1 = None"
        using j n by (auto simp: mark_pending_reference_ok wager_identity_def)
      ultimately show ?thesis using save_recorded [OF h1 _ i] p by (simp add: recorded_def)
    next
      case False
      with k resolved_recorded [OF h1] show ?thesis by auto
    qed
  qed
qed

section \<open>The answer of a successful call\<close>

lemma answers_result: "(\<And>b. wt_result t = Some b \<Longrightarrow> b = balance) \<Longrightarrow> answers (result_from t balance rp) t"
  by (auto simp: answers_def result_from_def)

lemma replay_answers:
  assumes "replay_result sv t s = Inr (r, s')" shows "answers r t" and "pr_replay r"
  using assms by (auto simp: replay_result_def tx_bind_ok answers_def result_from_def split: option.splits)

lemma found_stored:
  assumes inv: "db_inv (sv_iso sv) d"
    and f: "scan_optional (sv_iso sv) (find_by_key (cmd_provider cmd) (cmd_key cmd) d) = Inr (Some t)"
    and h: "wt_hash t = wager_payload_hash sv cmd"
  shows "stored_as sv cmd d t"
  using find_by_key_wager [OF inv f] h by (simp add: stored_as_def)

lemma stored_as_txns: "txns d' = txns d \<Longrightarrow> stored_as sv cmd d' t = stored_as sv cmd d t"
  by (simp add: stored_as_def)

lemma inbox_only_txns: "inbox_only d d' \<Longrightarrow> txns d' = txns d"
  by (auto simp: inbox_only_def) (metis db.select_convs(2) db.surjective db.update_convs(4))

lemma process_unclaimed_stored:
  assumes inv: "db_inv (sv_iso sv) (s_db s)" and p: "process_unclaimed sv cmd co ca now s = Inr (r, s')"
  shows "\<exists>t. stored_as sv cmd (s_db s') t \<and> answers r t"
proof -
  from p obtain s1 s2 v where
    s1: "s_db s1 = s_db s" and f: "find_by_idempotency (sv_iso sv) (cmd_provider cmd) (cmd_key cmd) s1 = Inr (v, s2)"
    and k: "(case v of
       Some t \<Rightarrow>
         if wt_hash t \<noteq> wager_payload_hash sv cmd then tx_fail ErrIdempotencyPayloadConflict
         else tx_bind (replay_result sv t) (\<lambda>result.
              tx_bind (complete_inbox_if (cmd_inbox cmd) now) (\<lambda>_. tx_return result))
     | None \<Rightarrow>
         tx_bind (find_by_external_id (sv_iso sv) (cmd_provider cmd) (cmd_external cmd))
           (\<lambda>byExternal.
         if byExternal \<noteq> None then tx_fail ErrExternalTransactionConflict
         else tx_bind (lock_wallet (sv_iso sv) (cmd_wallet cmd)) (\<lambda>w.
           tx_bind new_uuid (\<lambda>tid.
           tx_bind (tx_lift (new_wager_transaction (sv_iso sv)
             (external_of_command sv cmd tid now))) (\<lambda>t.
           tx_bind (record_new sv cmd t w co ca now) (\<lambda>(t', w').
           tx_bind (complete_inbox_if (cmd_inbox cmd) now) (\<lambda>_.
           tx_return (result_from t' (wallet_balance w') False)))))))) s2 = Inr (r, s')"
    unfolding process_unclaimed_def tx_bind_ok by (blast dest: acquire_lockD)
  note fd = find_by_idempotencyD [OF f]
  show ?thesis
  proof (cases v)
    case (Some t)
    with k obtain s3 where h: "wt_hash t = wager_payload_hash sv cmd" and a: "replay_result sv t s2 = Inr (r, s3)"
      and c: "complete_inbox_if (cmd_inbox cmd) now s3 = Inr ((), s')"
      by (auto simp: tx_bind_ok split: if_splits)
    have "stored_as sv cmd (s_db s) t" using found_stored [OF inv _ h] fd Some s1 by simp
    moreover have "txns (s_db s') = txns (s_db s)"
      using inbox_only_txns [OF complete_inbox_ifD [OF c]] replay_resultD [OF a] fd s1 by simp
    ultimately show ?thesis using replay_answers(1) [OF a] stored_as_txns by blast
  next
    case None
    with k obtain s3 s4 s5 s6 w tid t t' w' where
      w: "lock_wallet (sv_iso sv) (cmd_wallet cmd) s3 = Inr (w, s4)"
      and t: "new_wager_transaction (sv_iso sv) (external_of_command sv cmd tid now) = Inr t"
      and n: "record_new sv cmd t w co ca now s5 = Inr ((t', w'), s6)"
      and c: "complete_inbox_if (cmd_inbox cmd) now s6 = Inr ((), s')"
      and r: "r = result_from t' (wallet_balance w') False" and s35: "s_db s3 = s_db s2" "s_db s5 = s_db s4"
      by (auto simp: tx_bind_ok dest!: find_by_external_idD split: if_splits) (metis new_uuidD)
    have tf: "wt_result t = None" "wt_provider t = cmd_provider cmd" "wt_key t = cmd_key cmd"
      "wt_hash t = wager_payload_hash sv cmd" "wt_wallet t = cmd_wallet cmd"
      using t by (auto simp: new_wager_ok_iff external_of_command_def)
    note lw = lock_walletD [OF w]
    have "at_hand sv s5 True t w"
      using inv new_wager_inv [OF t] lw tf(5) fd s1 s35 by (simp add: at_hand_def ready_def)
    then have rec: "recorded t (t', w') (s_db s6)" by (rule record_new_recorded [OF _ tf(1) n])
    have "answers r t'" unfolding r by (rule answers_result) (use rec in \<open>auto simp: recorded_def\<close>)
    moreover have "stored_as sv cmd (s_db s6) t'"
      using rec tf by (simp add: recorded_def stored_as_def wager_identity_def)
    ultimately show ?thesis using stored_as_txns [OF inbox_only_txns [OF complete_inbox_ifD [OF c]]] by blast
  qed
qed

lemma process_tx_stored:
  assumes inv: "db_inv (sv_iso sv) (s_db s)" and p: "process_tx sv cmd co ca now s = Inr (r, s')"
  shows "\<exists>t. stored_as sv cmd (s_db s') t \<and> answers r t"
proof (cases "cmd_inbox cmd")
  case None
  with p show ?thesis using process_unclaimed_stored [OF inv] by (simp add: process_tx_def)
next
  case (Some i)
  with p obtain disposition s1 where c: "claim_inbox i now s = Inr (disposition, s1)"
    and k: "(if disposition = InboxAlreadyCompleted then
            tx_bind (find_by_idempotency (sv_iso sv) (cmd_provider cmd) (cmd_key cmd)) (\<lambda>existing.
            case existing of
              None \<Rightarrow> tx_fail ErrInboxPayloadConflict
            | Some t \<Rightarrow>
                if wt_hash t \<noteq> wager_payload_hash sv cmd then tx_fail ErrInboxPayloadConflict
                else replay_result sv t)
          else process_unclaimed sv cmd co ca now) s1 = Inr (r, s')"
    unfolding process_tx_def by (auto simp: tx_bind_ok)
  have inv1: "db_inv (sv_iso sv) (s_db s1)"
    using db_step_sound [OF db_step.inbox [OF claim_inboxD [OF c]]] inv by blast
  show ?thesis
  proof (cases "disposition = InboxAlreadyCompleted")
    case True
    with k obtain t s2 where f: "find_by_idempotency (sv_iso sv) (cmd_provider cmd) (cmd_key cmd) s1 = Inr (Some t, s2)"
      and h: "wt_hash t = wager_payload_hash sv cmd" and a: "replay_result sv t s2 = Inr (r, s')"
      by (auto simp: tx_bind_ok split: option.splits if_splits)
    note fd = find_by_idempotencyD [OF f]
    have "stored_as sv cmd (s_db s1) t" using found_stored [OF inv1 _ h] fd by simp
    then show ?thesis using replay_answers(1) [OF a] replay_resultD [OF a] fd by auto
  next
    case False
    with k show ?thesis using process_unclaimed_stored [OF inv1] by simp
  qed
qed

lemma process_stored:
  assumes inv: "db_inv (sv_iso sv) d" and p: "process sv c cmd d = (Inr r, d')"
  shows "\<exists>t. stored_as sv cmd d' t \<and> answers r t"
proof -
  let ?co = "if cmd_correlation cmd = [] then c_ids c 0 else cmd_correlation cmd"
  let ?ca = "case cmd_inbox cmd of None \<Rightarrow> [] | Some i \<Rightarrow> in_message i"
  from p obtain s s' where "s_db s = d" "process_tx sv cmd ?co ?ca (c_now c) s = Inr (r, s')" "d' = s_db s'"
    by (auto simp: process_def Let_def within_transaction_def exec_def split: sum.splits prod.splits if_splits)
      (metis session.select_convs(1))+
  with process_tx_stored inv show ?thesis by blast
qed

section \<open>Replaying a stored command\<close>

lemma stored_key:
  assumes inv: "db_inv iso4217 d" and r: "txn_row_of r \<in> set (txns d)"
  shows "find_by_key (wt_provider r) (wt_key r) d = Some (txn_row_of r)"
  unfolding find_by_key_def
proof (rule find_unique)
  fix q assume q: "q \<in> set (txns d)"
  show "tr_provider q = Some (wt_provider r) \<and> tr_key q = Some (wt_key r) \<longleftrightarrow> q = txn_row_of r"
  proof
    assume m: "tr_provider q = Some (wt_provider r) \<and> tr_key q = Some (wt_key r)"
    then have "external_row iso4217 q" using txns_invD(1) [OF inv q] by (auto simp: opening_ok_def)
    then have "tr_origin q = External" by (auto simp: external_row_def)
    with m have "txn_clash q (txn_row_of r)" by (simp add: txn_clash_def)
    then show "q = txn_row_of r" by (rule keys_ok_clash [OF db_invD(6) [OF inv] q r])
  qed simp
qed (rule r)

lemma stored_wager:
  assumes inv: "db_inv iso4217 d" and r: "txn_row_of t \<in> set (txns d)"
  shows "wager_inv iso4217 t" and "\<exists>w. wallet_row_of w \<in> set (wallets d) \<and> wallet_id w = wt_wallet t"
proof -
  show "wager_inv iso4217 t"
    using txns_invD(1) [OF inv r] txn_row_inj by (auto simp: external_row_def opening_ok_def)
  have "txn_foreign_keys d (txn_row_of t)" using inv r by (auto simp: db_inv_def txns_inv_def)
  then obtain q where q: "q \<in> set (wallets d)" "wr_id q = wt_wallet t"
    by (auto simp: txn_foreign_keys_def list_ex_iff)
  moreover obtain v where "q = wallet_row_of v" using q(1) db_invD(1) [OF inv] by (auto simp: wallets_inv_def)
  ultimately show "\<exists>w. wallet_row_of w \<in> set (wallets d) \<and> wallet_id w = wt_wallet t" by auto
qed

lemma find_by_idempotency_done:
  assumes inv: "db_inv iso4217 (s_db s)" and st: "steady s" and r: "txn_row_of t \<in> set (txns (s_db s))"
  shows "find_by_idempotency iso4217 (wt_provider t) (wt_key t) s = Inr (Some t, s)"
  using stored_key [OF inv r] stored_wager(1) [OF inv r] st
  by (simp add: find_by_idempotency_def select_steady scan_optional_def scan_txn_row wager_inv_def)

text \<open>
  The answer of a replay: the stored transaction, with the balance stored in it or, while it
  waits, the present balance of its wallet.
\<close>

definition replays :: "db \<Rightarrow> process_result \<Rightarrow> wager \<Rightarrow> bool" where
  "replays d r t \<longleftrightarrow> (\<exists>w. wallet_row_of w \<in> set (wallets d) \<and> wallet_id w = wt_wallet t \<and>
     r = result_from t (case wt_result t of Some b \<Rightarrow> b | None \<Rightarrow> wallet_balance w) True)"

lemma replays_answers: "replays d r t \<Longrightarrow> answers r t" "replays d r t \<Longrightarrow> pr_replay r"
  by (auto simp: replays_def answers_def result_from_def)

lemma replay_done:
  assumes inv: "db_inv (sv_iso sv) (s_db s)" and st: "steady s" and r: "txn_row_of t \<in> set (txns (s_db s))"
  shows "\<exists>x. replay_result sv t s = Inr (x, s) \<and> replays (s_db s) x t"
proof -
  from stored_wager(2) [OF inv r] obtain w where
    w: "wallet_row_of w \<in> set (wallets (s_db s))" "wallet_id w = wt_wallet t" by blast
  have "lock_wallet (sv_iso sv) (wt_wallet t) s = Inr (w, s)"
    using lock_wallet_done [OF db_invD(1) [OF inv] w(1) st] w(2) by simp
  with w show ?thesis
    by (cases "wt_result t") (auto simp: replay_result_def tx_bind_def tx_return_def replays_def)
qed

text \<open>A call that no failure of the infrastructure disturbs, whatever its identifiers.\<close>

definition calm :: "call \<Rightarrow> bool" where
  "calm c \<longleftrightarrow> c_fault c = None \<and> \<not> c_ack_lost c"

lemma start_session_db [simp]: "start_session c d n\<lparr>s_db := d\<rparr> = start_session c d n"
  by (simp add: start_session_def)

lemma process_calm:
  assumes inv: "db_inv (sv_iso sv) d" and c: "calm c" and v: "sv_valid sv cmd"
    and s: "s = start_session c d (drawn_before cmd)" and co: "co = correlation_of c cmd"
    and ca: "ca = (case cmd_inbox cmd of None \<Rightarrow> [] | Some i \<Rightarrow> in_message i)"
  shows "process_tx sv cmd co ca (c_now c) s = Inr (r, s') \<Longrightarrow> steady s' \<Longrightarrow> process sv c cmd d = (Inr r, s_db s')"
    and "process_tx sv cmd co ca (c_now c) s = Inl e \<Longrightarrow> process sv c cmd d = (Inl e, d)"
proof -
  have e: "process sv c cmd d = within_transaction c (drawn_before cmd) (process_tx sv cmd co ca (c_now c)) d"
    using v co ca by (simp add: process_def Let_def drawn_before_def correlation_of_def)
  have x: "exec (\<lambda>d. Inr ((), d)) \<lparr>s_db = d, s_ids = c_ids c, s_drawn = drawn_before cmd, s_fault = c_fault c\<rparr> =
      Inr ((), s)" using c s by (simp add: exec_def calm_def start_session_def)
  show "process_tx sv cmd co ca (c_now c) s = Inl e \<Longrightarrow> process sv c cmd d = (Inl e, d)"
    unfolding e within_transaction_def x by simp
  assume p: "process_tx sv cmd co ca (c_now c) s = Inr (r, s')" and st: "steady s'"
  have "db_inv (sv_iso sv) (s_db s')" using process_txD [OF _ p] run_sound inv s by simp
  then have "deferred_ok d (s_db s')" by (rule deferred_accepts)
  with p st c show "process sv c cmd d = (Inr r, s_db s')"
    unfolding e within_transaction_def x by (simp add: calm_def steady_def)
qed

lemma process_unclaimed_replay:
  assumes inv: "db_inv (sv_iso sv) (s_db s)" and st: "steady s" and t: "stored_as sv cmd (s_db s) t"
  shows "\<exists>r. replays (s_db s) r t \<and> process_unclaimed sv cmd co ca now s =
    tx_bind (complete_inbox_if (cmd_inbox cmd) now) (\<lambda>_. tx_return r) s"
proof -
  have f: "find_by_idempotency (sv_iso sv) (cmd_provider cmd) (cmd_key cmd) s = Inr (Some t, s)"
    using find_by_idempotency_done [OF inv st, of t] t by (simp add: stored_as_def)
  obtain r where r: "replay_result sv t s = Inr (r, s)" "replays (s_db s) r t"
    using replay_done [OF inv st] t by (auto simp: stored_as_def)
  have "acquire_idempotency_lock p k s = Inr ((), s)" for p k
    using st by (simp add: acquire_idempotency_lock_def exec_steady)
  with f r t show ?thesis
    by (intro exI [of _ r]) (simp add: process_unclaimed_def tx_bind_def stored_as_def)
qed

lemma replay_plain:
  assumes inv: "db_inv (sv_iso sv) d" and c: "calm c" and v: "sv_valid sv cmd"
    and t: "stored_as sv cmd d t" and i: "cmd_inbox cmd = None"
  shows "\<exists>r. process sv c cmd d = (Inr r, d) \<and> replays d r t"
proof -
  let ?s = "start_session c d (drawn_before cmd)"
  obtain r where r: "replays d r t"
    "process_unclaimed sv cmd (correlation_of c cmd) [] (c_now c) ?s = Inr (r, ?s)"
    using process_unclaimed_replay [of sv ?s cmd t "correlation_of c cmd" "[]" "c_now c"] inv t i
    by (auto simp: complete_inbox_if_def)
  then have "process_tx sv cmd (correlation_of c cmd) [] (c_now c) ?s = Inr (r, ?s)"
    using i by (simp add: process_tx_def)
  from process_calm(1) [OF inv c v refl refl _ this] i r(1) show ?thesis by simp
qed

lemma stored_later:
  assumes inv: "db_inv iso4217 d'" and b: "db_below d d'" and t: "stored_as sv cmd d t"
  shows "\<exists>t'. stored_as sv cmd d' t' \<and> wt_id t' = wt_id t \<and> (terminal t \<longrightarrow> t' = t)"
proof -
  have "txn_row_of t \<in> set (txns d)" using t by (simp add: stored_as_def)
  with b obtain q where q: "q \<in> set (txns d')" "row_below (txn_row_of t) q"
    by (auto simp: db_below_def all_below_def)
  then have "tr_provider q \<noteq> None" by (simp add: row_below_def)
  with txns_invD(1) [OF inv q(1)] obtain t' where t': "q = txn_row_of t'"
    by (auto simp: external_row_def opening_ok_def)
  have "terminal t \<Longrightarrow> t' = t" using q(2) t' txn_row_inj by (simp add: row_below_def terminal_def)
  with q t' t show ?thesis by (auto simp: row_below_def stored_as_def)
qed

text \<open>The same key with another payload; the same external identifier under another key.\<close>

lemma key_conflict:
  assumes inv: "db_inv (sv_iso sv) (s_db s)" and st: "steady s" and t: "txn_row_of t \<in> set (txns (s_db s))"
    "wt_provider t = cmd_provider cmd" "wt_key t = cmd_key cmd" "wt_hash t \<noteq> wager_payload_hash sv cmd"
  shows "find_by_idempotency (sv_iso sv) (cmd_provider cmd) (cmd_key cmd) s = Inr (Some t, s)"
    and "process_unclaimed sv cmd co ca now s = Inl ErrIdempotencyPayloadConflict"
proof -
  show f: "find_by_idempotency (sv_iso sv) (cmd_provider cmd) (cmd_key cmd) s = Inr (Some t, s)"
    using find_by_idempotency_done [OF inv st t(1)] t(2,3) by simp
  then show "process_unclaimed sv cmd co ca now s = Inl ErrIdempotencyPayloadConflict"
    using st t(4) by (simp add: process_unclaimed_def tx_bind_def tx_fail_def acquire_idempotency_lock_def exec_steady)
qed

lemma external_conflict:
  assumes inv: "db_inv (sv_iso sv) (s_db s)" and st: "steady s" and t: "txn_row_of t \<in> set (txns (s_db s))"
    "wt_provider t = cmd_provider cmd" "wt_external t = cmd_external cmd"
    and k: "find_by_key (cmd_provider cmd) (cmd_key cmd) (s_db s) = None"
  shows "find_by_idempotency (sv_iso sv) (cmd_provider cmd) (cmd_key cmd) s = Inr (None, s)"
    and "process_unclaimed sv cmd co ca now s = Inl ErrExternalTransactionConflict"
proof -
  show f: "find_by_idempotency (sv_iso sv) (cmd_provider cmd) (cmd_key cmd) s = Inr (None, s)"
    using k st by (simp add: find_by_idempotency_def select_steady scan_optional_def)
  have "wager_ok (sv_iso sv) t" using stored_wager(1) [OF inv t(1)] by (simp add: wager_inv_def)
  then have "find_by_external_id (sv_iso sv) (cmd_provider cmd) (cmd_external cmd) s = Inr (Some t, s)"
    using find_reference_done [of "sv_iso sv" s t] inv t st by simp
  with f show "process_unclaimed sv cmd co ca now s = Inl ErrExternalTransactionConflict"
    using st by (simp add: process_unclaimed_def tx_bind_def tx_fail_def acquire_idempotency_lock_def exec_steady)
qed

end
