(* ===== verification/Redelivery.thy ===== *)
theory Redelivery
  imports Replay
begin

text \<open>
  The inbox of the consumer: a message is recorded by the transaction that completes it, so
  every committed message is completed, recorded once and never forgotten. A redelivery
  therefore answers what the first delivery answered.
\<close>

section \<open>The invariant of the inbox\<close>

definition inbox_inv :: "db \<Rightarrow> bool" where
  "inbox_inv d \<longleftrightarrow>
     (\<forall>r \<in> set (inbox d). ir_completed r \<noteq> None) \<and>
     distinct (map (\<lambda>r. (ir_consumer r, ir_message r)) (inbox d))"

text \<open>The message is recorded as completed.\<close>

definition delivered :: "inbox_input \<Rightarrow> db \<Rightarrow> bool" where
  "delivered i d \<longleftrightarrow> (\<exists>r \<in> set (inbox d). inbox_match i r \<and> ir_hash r = in_hash i \<and> ir_completed r \<noteq> None)"

definition fresh_row :: "inbox_input \<Rightarrow> time \<Rightarrow> inbox_row" where
  "fresh_row i now = \<lparr>ir_consumer = in_consumer i, ir_message = in_message i, ir_hash = in_hash i,
     ir_received = now, ir_completed = None\<rparr>"

lemma preservesD: "preserves f m \<Longrightarrow> m s = Inr (x, s') \<Longrightarrow> f (s_db s') = f (s_db s)"
  by (auto simp: preserves_def)

lemma within_preserves:
  "preserves f m \<Longrightarrow> within_transaction c n m d = (res, d') \<Longrightarrow> f d' = f d"
  by (auto simp: within_transaction_def exec_def preserves_def split: sum.splits prod.splits if_splits)

lemma inbox_match_unique:
  assumes "inbox_inv d" and "r \<in> set (inbox d)" and "inbox_match i r" and "q \<in> set (inbox d)" and "inbox_match i q"
  shows "q = r"
  using assms unfolding inbox_inv_def by (auto simp: inbox_match_def distinct_map inj_on_def)

lemma claim_cases:
  assumes inv: "inbox_inv (s_db s)" and c: "claim_inbox i now s = Inr (disp, s1)"
  shows "disp = InboxAlreadyCompleted \<and> s_db s1 = s_db s \<and> delivered i (s_db s) \<or>
    disp = InboxInserted \<and> \<not> list_ex (inbox_match i) (inbox (s_db s)) \<and>
      s_db s1 = s_db s\<lparr>inbox := inbox (s_db s) @ [fresh_row i now]\<rparr>"
proof (cases "list_ex (inbox_match i) (inbox (s_db s))")
  case False
  with c show ?thesis by (auto simp: claim_inbox_def tx_bind_ok fresh_row_def dest!: execD)
next
  case True
  then obtain r where r: "find (inbox_match i) (inbox (s_db s)) = Some r"
    by (cases "find (inbox_match i) (inbox (s_db s))") (auto simp: find_None_iff list_ex_iff)
  then have "r \<in> set (inbox (s_db s))" "inbox_match i r" by (auto dest: find_someD)
  with True r c inv show ?thesis
    by (auto simp: claim_inbox_def tx_bind_ok delivered_def inbox_inv_def dest!: execD selectD split: if_splits)
qed

lemma completed_rows:
  "complete_inbox i now s = Inr ((), s') \<Longrightarrow>
   s_db s' = s_db s\<lparr>inbox := update_where (\<lambda>r. inbox_match i r \<and> ir_hash r = in_hash i)
      (\<lambda>r. r\<lparr>ir_completed := Some now\<rparr>) (inbox (s_db s))\<rparr>"
  by (auto simp: complete_inbox_def Let_def dest!: execD split: if_splits)

lemma process_unclaimed_inbox:
  assumes p: "process_unclaimed sv cmd co ca now s = Inr (r, s')"
  shows "\<exists>s1. inbox (s_db s1) = inbox (s_db s) \<and> complete_inbox_if (cmd_inbox cmd) now s1 = Inr ((), s')"
proof -
  from p obtain s1 s2 v where
    s1: "s_db s1 = s_db s" and f: "find_by_idempotency (sv_iso sv) (cmd_provider cmd) (cmd_key cmd) s1 = Inr (v, s2)"
    and k: "(case v of
       Some t \<Rightarrow>
         if wt_hash t \<noteq> wager_payload_hash sv cmd then tx_fail ErrIdempotencyPayloadConflict
         else tx_bind (replay_result sv t) (\<lambda>result.
              tx_bind (complete_inbox_if (cmd_inbox cmd) now) (\<lambda>_. tx_return result))
     | None \<Rightarrow>
         tx_bind (find_by_external_id (sv_iso sv) (cmd_provider cmd) (cmd_external cmd))
           (\<lambda>byExternal.
         if byExternal \<noteq> None then tx_fail ErrExternalTransactionConflict
         else tx_bind (lock_wallet (sv_iso sv) (cmd_wallet cmd)) (\<lambda>w.
           tx_bind new_uuid (\<lambda>tid.
           tx_bind (tx_lift (new_wager_transaction (sv_iso sv)
             (external_of_command sv cmd tid now))) (\<lambda>t.
           tx_bind (record_new sv cmd t w co ca now) (\<lambda>(t', w').
           tx_bind (complete_inbox_if (cmd_inbox cmd) now) (\<lambda>_.
           tx_return (result_from t' (wallet_balance w') False)))))))) s2 = Inr (r, s')"
    unfolding process_unclaimed_def tx_bind_ok by (blast dest: acquire_lockD)
  have db2: "s_db s2 = s_db s" using find_by_idempotencyD [OF f] s1 by simp
  show ?thesis
  proof (cases v)
    case (Some t)
    with k obtain s3 where "replay_result sv t s2 = Inr (r, s3)" "complete_inbox_if (cmd_inbox cmd) now s3 = Inr ((), s')"
      by (auto simp: tx_bind_ok split: if_splits)
    then show ?thesis using replay_resultD db2 by metis
  next
    case None
    with k obtain s3 s4 s5 s6 w tid t p where s3: "s_db s3 = s_db s2"
      and w: "lock_wallet (sv_iso sv) (cmd_wallet cmd) s3 = Inr (w, s4)" and u: "new_uuid s4 = Inr (tid, s5)"
      and n: "record_new sv cmd t w co ca now s5 = Inr (p, s6)"
      and c: "complete_inbox_if (cmd_inbox cmd) now s6 = Inr ((), s')"
      by (auto simp: tx_bind_ok dest!: find_by_external_idD split: if_splits)
    have "inbox (s_db s6) = inbox (s_db s)"
      using preservesD [OF inbox_record_new n] new_uuidD [OF u] lock_walletD [OF w] s3 db2 by simp
    with c show ?thesis by blast
  qed
qed

lemma update_where_snoc:
  "(\<And>q. q \<in> set rs \<Longrightarrow> \<not> p q) \<Longrightarrow> p r \<Longrightarrow> update_where p f (rs @ [r]) = rs @ [f r]"
  by (auto simp: update_where_def intro: map_idI)

text \<open>The answer of one call: nothing is removed, and the message of a success is recorded.\<close>

definition inbox_step :: "wager_command \<Rightarrow> db \<Rightarrow> db \<Rightarrow> bool" where
  "inbox_step cmd d d' \<longleftrightarrow> inbox_inv d' \<and> prefix (inbox d) (inbox d') \<and>
     (\<forall>i. cmd_inbox cmd = Some i \<longrightarrow> delivered i d')"

lemma process_tx_inbox:
  assumes inv: "inbox_inv (s_db s)" and p: "process_tx sv cmd co ca now s = Inr (r, s')"
  shows "inbox_step cmd (s_db s) (s_db s')"
proof (cases "cmd_inbox cmd")
  case None
  then have "process_unclaimed sv cmd co ca now s = Inr (r, s')" using p by (simp add: process_tx_def)
  from process_unclaimed_inbox [OF this] None have "inbox (s_db s') = inbox (s_db s)" by (auto simp: complete_inbox_if_def)
  with inv None show ?thesis by (simp add: inbox_step_def inbox_inv_def)
next
  case (Some i)
  with p obtain disp s1 where c: "claim_inbox i now s = Inr (disp, s1)"
    and k: "(if disp = InboxAlreadyCompleted then
            tx_bind (find_by_idempotency (sv_iso sv) (cmd_provider cmd) (cmd_key cmd)) (\<lambda>existing.
            case existing of
              None \<Rightarrow> tx_fail ErrInboxPayloadConflict
            | Some t \<Rightarrow>
                if wt_hash t \<noteq> wager_payload_hash sv cmd then tx_fail ErrInboxPayloadConflict
                else replay_result sv t)
          else process_unclaimed sv cmd co ca now) s1 = Inr (r, s')"
    unfolding process_tx_def by (auto simp: tx_bind_ok)
  from claim_cases [OF inv c] show ?thesis
  proof
    assume a: "disp = InboxAlreadyCompleted \<and> s_db s1 = s_db s \<and> delivered i (s_db s)"
    with k have "s_db s' = s_db s"
      by (auto simp: tx_bind_ok dest!: find_by_idempotencyD replay_resultD split: option.splits if_splits)
    with a inv Some show ?thesis by (simp add: inbox_step_def)
  next
    assume a: "disp = InboxInserted \<and> \<not> list_ex (inbox_match i) (inbox (s_db s)) \<and>
      s_db s1 = s_db s\<lparr>inbox := inbox (s_db s) @ [fresh_row i now]\<rparr>"
    with k have "process_unclaimed sv cmd co ca now s1 = Inr (r, s')" by simp
    from process_unclaimed_inbox [OF this] Some obtain s2 where
      s2: "inbox (s_db s2) = inbox (s_db s1)" and ci: "complete_inbox i now s2 = Inr ((), s')"
      by (auto simp: complete_inbox_if_def)
    let ?t = "\<lambda>r. inbox_match i r \<and> ir_hash r = in_hash i"
    have new: "?t (fresh_row i now)" by (simp add: inbox_match_def fresh_row_def)
    have none: "\<not> ?t q" if "q \<in> set (inbox (s_db s))" for q using a that by (auto simp: list_ex_iff)
    have "inbox (s_db s') = update_where ?t (\<lambda>r. r\<lparr>ir_completed := Some now\<rparr>) (inbox (s_db s2))"
      using completed_rows [OF ci] by simp
    also have "\<dots> = inbox (s_db s) @ [fresh_row i now\<lparr>ir_completed := Some now\<rparr>]"
      using a s2 update_where_snoc [of "inbox (s_db s)" ?t, OF none new] by simp
    finally have ib: "inbox (s_db s') = inbox (s_db s) @ [fresh_row i now\<lparr>ir_completed := Some now\<rparr>]" .
    have "inbox_inv (s_db s')"
      using inv a ib by (auto simp: inbox_inv_def fresh_row_def list_ex_iff inbox_match_def)
    moreover have "delivered i (s_db s')"
      by (auto simp: delivered_def ib inbox_match_def fresh_row_def)
    ultimately show ?thesis using Some ib by (simp add: inbox_step_def)
  qed
qed

lemma process_inbox:
  assumes inv: "inbox_inv d" and p: "process sv c cmd d = (res, d')"
  shows "inbox_inv d' \<and> prefix (inbox d) (inbox d') \<and>
    (\<forall>r i. res = Inr r \<longrightarrow> cmd_inbox cmd = Some i \<longrightarrow> delivered i d')"
proof -
  let ?co = "if cmd_correlation cmd = [] then c_ids c 0 else cmd_correlation cmd"
  let ?ca = "case cmd_inbox cmd of None \<Rightarrow> [] | Some i \<Rightarrow> in_message i"
  have "d' = d \<and> (\<forall>r. res \<noteq> Inr r) \<or>
      (\<exists>s s' r. s_db s = d \<and> process_tx sv cmd ?co ?ca (c_now c) s = Inr (r, s') \<and> d' = s_db s')"
    using p by (auto simp: process_def Let_def within_transaction_def exec_def split: sum.splits prod.splits if_splits)
      (metis session.select_convs(1))+
  then show ?thesis using inv process_tx_inbox by (fastforce simp: inbox_step_def)
qed

section \<open>In every reachable state\<close>

lemma relay_event_inbox [simp]: "inbox (fst (relay_event worker a ce st)) = inbox (fst st)"
  by (simp add: relay_event_def Let_def mark_outbox_published_def release_outbox_def)

lemma relay_events_inbox [simp]: "inbox (fst (relay_events worker as ces st)) = inbox (fst st)"
  by (induction worker as ces st rule: relay_events.induct) simp_all

lemma relay_pass_inbox [simp]: "inbox (fst (relay_pass arrange worker limit lease now as st)) = inbox (fst st)"
  by (simp add: relay_pass_def claim_outbox_def Let_def)

lemma create_inbox: "create sv c cmd d = (res, d') \<Longrightarrow> inbox d' = inbox d"
  by (auto simp: create_def Let_def dest: within_preserves [OF inbox_create] split: sum.splits prod.splits if_splits)

lemma served_inbox:
  assumes "served sv st st'" and "inbox_inv (fst st)"
  shows "inbox_inv (fst st') \<and> prefix (inbox (fst st)) (inbox (fst st'))"
proof -
  from assms(1) obtain q where q: "st' = serve sv q st" by (auto elim: servedE)
  have same: "inbox (fst st') = inbox (fst st) \<Longrightarrow> ?thesis" using assms(2) by (simp add: inbox_inv_def)
  show ?thesis
  proof (cases q)
    case (CreateWallet c cmd)
    then show ?thesis using same q create_inbox by (metis fst_conv serve.simps(1) surjective_pairing)
  next
    case (ProcessWager c cmd)
    then show ?thesis using q process_inbox [OF assms(2)] by (metis fst_conv serve.simps(2) surjective_pairing)
  next
    case (ResolvePending c tid)
    then show ?thesis
      using same q within_preserves [OF inbox_resolve] unfolding resolve_pending_reference_def
      by (metis fst_conv resolve_pending_reference_def serve.simps(3) surjective_pairing)
  next
    case (RecordFailure c tid)
    then show ?thesis
      using same q within_preserves [OF inbox_failure]
      by (metis fst_conv record_pending_reference_failure_def serve.simps(4) surjective_pairing)
  next
    case (RelayOutbox arrange worker limit lease now as)
    then show ?thesis using same q by simp
  qed
qed

interpretation inbox_machine: machine "served sv" "\<lambda>st. inbox_inv (fst st)" for sv
  by unfold_locales (use served_inbox in blast)

lemma reachable_inbox: "reachable sv st \<Longrightarrow> inbox_inv (fst st)"
  unfolding reachable_def by (rule inbox_machine.run_inv) (auto simp: inbox_inv_def empty_db_def)

section \<open>Redeliveries\<close>

lemma claim_delivered:
  assumes inv: "inbox_inv (s_db s)" and st: "steady s" and dl: "delivered i (s_db s)"
  shows "claim_inbox i now s = Inr (InboxAlreadyCompleted, s)"
proof -
  from dl obtain q where q: "q \<in> set (inbox (s_db s))" "inbox_match i q" "ir_hash q = in_hash i"
    by (auto simp: delivered_def)
  then obtain r where r: "find (inbox_match i) (inbox (s_db s)) = Some r"
    by (cases "find (inbox_match i) (inbox (s_db s))") (auto simp: find_None_iff)
  then have m: "r \<in> set (inbox (s_db s))" "inbox_match i r" by (auto dest: find_someD)
  have "r = q" by (rule inbox_match_unique [OF inv q(1,2) m])
  moreover have "ir_completed r \<noteq> None" using inv m(1) by (simp add: inbox_inv_def)
  moreover have "list_ex (inbox_match i) (inbox (s_db s))" using m by (auto simp: list_ex_iff)
  ultimately show ?thesis
    using r q(3) st by (simp add: claim_inbox_def tx_bind_def exec_steady select_steady tx_return_def)
qed

lemma replay_delivered:
  assumes inv: "db_inv (sv_iso sv) d" "inbox_inv d" and c: "calm c" and v: "sv_valid sv cmd"
    and t: "stored_as sv cmd d t" and i: "cmd_inbox cmd = Some i" "delivered i d"
  shows "\<exists>r. process sv c cmd d = (Inr r, d) \<and> replays d r t"
proof -
  let ?s = "start_session c d (drawn_before cmd)"
  have cl: "claim_inbox i (c_now c) ?s = Inr (InboxAlreadyCompleted, ?s)"
    using claim_delivered [of ?s i] inv(2) i(2) by simp
  have f: "find_by_idempotency (sv_iso sv) (cmd_provider cmd) (cmd_key cmd) ?s = Inr (Some t, ?s)"
    using find_by_idempotency_done [of "sv_iso sv" ?s t] inv(1) t by (simp add: stored_as_def)
  obtain r where r: "replay_result sv t ?s = Inr (r, ?s)" "replays d r t"
    using replay_done [of sv ?s t] inv(1) t by (auto simp: stored_as_def)
  have "process_tx sv cmd (correlation_of c cmd) (in_message i) (c_now c) ?s = Inr (r, ?s)"
    using cl f r(1) t i(1) by (simp add: process_tx_def tx_bind_def stored_as_def)
  from process_calm(1) [OF inv(1) c v refl refl _ this] i(1) r(2) show ?thesis by simp
qed

lemma replay_any:
  assumes inv: "db_inv (sv_iso sv) d" "inbox_inv d" and c: "calm c" and v: "sv_valid sv cmd"
    and t: "stored_as sv cmd d t" and i: "\<And>i. cmd_inbox cmd = Some i \<Longrightarrow> delivered i d"
  shows "\<exists>r. process sv c cmd d = (Inr r, d) \<and> replays d r t"
  using replay_plain [OF inv(1) c v t] replay_delivered [OF inv c v t] i by (cases "cmd_inbox cmd") auto

lemma delivered_later: "delivered i d \<Longrightarrow> prefix (inbox d) (inbox d') \<Longrightarrow> delivered i d'"
  by (auto simp: delivered_def prefix_def)

lemma served_run_inbox:
  assumes "(served sv)\<^sup>*\<^sup>* st st'" and "inbox_inv (fst st)"
  shows "inbox_inv (fst st') \<and> prefix (inbox (fst st)) (inbox (fst st'))"
  using assms
proof (induction rule: rtranclp_induct)
  case (step st1 st2)
  then show ?case using served_inbox [OF step.hyps(2)] by (blast intro: prefix_order.trans)
qed simp

text \<open>Two commands that differ in what the transport adds.\<close>

definition same_request :: "wager_command \<Rightarrow> wager_command \<Rightarrow> bool" where
  "same_request cmd cmd' \<longleftrightarrow>
     payload_fields cmd' = payload_fields cmd \<and> cmd_key cmd' = cmd_key cmd \<and>
     (cmd_inbox cmd' = None \<or> cmd_inbox cmd' = cmd_inbox cmd)"

lemma same_request_stored:
  "same_request cmd cmd' \<Longrightarrow> stored_as sv cmd' d t = stored_as sv cmd d t"
  by (auto simp: same_request_def stored_as_def wager_payload_hash_def payload_fields_def)

lemma committed_replay:
  assumes inv: "db_inv (sv_iso sv) d1" "inbox_inv d1" and t: "stored_as sv cmd d1 t"
    and dl: "\<And>i. cmd_inbox cmd = Some i \<Longrightarrow> delivered i d1" and sys: "system_inv sv (d1, ms)"
    and run: "(served sv)\<^sup>*\<^sup>* (d1, ms) (d2, ms2)"
    and cmd: "same_request cmd cmd'" "sv_valid sv cmd'" and c: "calm c"
  shows "\<exists>r t'. process sv c cmd' d2 = (Inr r, d2) \<and> stored_as sv cmd d2 t' \<and> replays d2 r t' \<and>
    wt_id t' = wt_id t \<and> (terminal t \<longrightarrow> t' = t)"
proof -
  have sys2: "system_inv sv (d2, ms2)" by (rule system.run_inv [OF run sys])
  have ib: "inbox_inv d2" "prefix (inbox d1) (inbox d2)" using served_run_inbox [OF run] inv(2) by simp_all
  have b: "db_below d1 d2" using served_run_below [OF run sys] by simp
  have inv2: "db_inv (sv_iso sv) d2" using sys2 by (simp add: system_inv_def)
  obtain t' where t': "stored_as sv cmd d2 t'" "wt_id t' = wt_id t" "terminal t \<longrightarrow> t' = t"
    using stored_later [OF inv2 b t] by blast
  have "delivered i d2" if "cmd_inbox cmd' = Some i" for i
    using that cmd(1) dl delivered_later [OF _ ib(2)] by (auto simp: same_request_def)
  with replay_any [OF inv2 ib(1) c cmd(2)] t' show ?thesis by (metis same_request_stored [OF cmd(1)])
qed

section \<open>The guarantees\<close>

lemma sample_same [simp]: "same_request cmd (cmd\<lparr>cmd_correlation := co\<rparr>)"
  by (simp add: same_request_def payload_fields_def)

text \<open>
  C7: A command that was answered once is answered from what was stored for ever: after any
  further requests, sending it again (over HTTP, or redelivered by the queue, with any
  correlation), undisturbed, changes nothing and gives exactly the replay of the stored
  transaction of its first answer: its status and failure code as they are stored now, and its
  stored balance, or the present one of its wallet while it waits for its reference. Once the
  first answer was a terminal one this is that answer, status, balance and failure code alike.
\<close>

theorem replay_answers_the_same:
  assumes "reachable sv (d, ms)" and "process sv c cmd d = (Inr r, d1)"
    and "(served sv)\<^sup>*\<^sup>* (d1, ms) (d2, ms2)"
    and "same_request cmd cmd'" and "sv_valid sv cmd'" and "calm c'"
  shows "\<exists>r' t'. process sv c' cmd' d2 = (Inr r', d2) \<and> stored_as sv cmd d2 t' \<and> replays d2 r' t' \<and>
    pr_transaction r' = pr_transaction r \<and> (terminal_status (pr_status r) \<longrightarrow> r'\<lparr>pr_replay := pr_replay r\<rparr> = r)"
proof -
  have r1: "served sv (d, ms) (d1, ms)"
    using served.intros [of "ProcessWager c cmd" sv "(d, ms)"] assms(2) by simp
  have sys: "system_inv sv (d1, ms)" by (rule served_runs(2) [OF r1 reachable_inv [OF assms(1)]])
  have inv: "db_inv (sv_iso sv) d" "inbox_inv d" using reachable_db_inv reachable_inbox assms(1) by fastforce+
  have inv1: "db_inv (sv_iso sv) d1" using sys by (simp add: system_inv_def)
  obtain t where t: "stored_as sv cmd d1 t" "answers r t" using process_stored [OF inv(1) assms(2)] by blast
  have ib: "inbox_inv d1" "\<And>i. cmd_inbox cmd = Some i \<Longrightarrow> delivered i d1"
    using process_inbox [OF inv(2) assms(2)] by simp_all
  obtain r' t' where p: "process sv c' cmd' d2 = (Inr r', d2)" "stored_as sv cmd d2 t'" "replays d2 r' t'"
    and t': "wt_id t' = wt_id t" "terminal t \<longrightarrow> t' = t"
    using committed_replay [OF inv1 ib(1) t(1) ib(2) sys assms(3-6)] by blast
  note a = replays_answers(1) [OF p(3)]
  have "r'\<lparr>pr_replay := pr_replay r\<rparr> = r" if "terminal_status (pr_status r)"
  proof -
    have "terminal t" using that t(2) by (simp add: answers_def terminal_def)
    moreover have "wager_inv (sv_iso sv) t" using stored_wager(1) [OF inv1] t(1) by (simp add: stored_as_def)
    ultimately obtain b where "wt_result t = Some b" "t' = t"
      using t'(2) by (auto simp: wager_inv_def wager_ok_def status_ok_def terminal_def terminal_status_def terminal_result_ok_def)
    with a t(2) show ?thesis by (intro process_result.equality) (simp_all add: answers_def)
  qed
  moreover have "pr_transaction r' = pr_transaction r" using a t(2) t'(1) by (simp add: answers_def)
  ultimately show ?thesis using p by blast
qed

lemma replay_answers_the_same_witness:
  "\<exists>r. process sample_service (sample_call 9 []) (bet_cmd\<lparr>cmd_correlation := ''other''\<rparr>) db_refund = (Inr r, db_refund) \<and>
     pr_transaction r = ''t1'' \<and> pr_status r = StatusProcessed \<and> pr_balance r = view_money (brl 7500)"
proof -
  have "served sample_service (db_bet, []) (db_refund, [])"
    using served.intros [of "ProcessWager (sample_call 7 [''t2'', ''l2'', ''e4'', ''e5'']) refund_cmd"
      sample_service "(db_bet, [])"] by (simp add: sample_process_refund)
  then have run: "(served sample_service)\<^sup>*\<^sup>* (db_bet, []) (db_refund, [])" by (rule r_into_rtranclp)
  have calm: "calm (sample_call 9 [])" by (simp add: calm_def sample_call_def)
  let ?r = "result_from bet_txn (brl 7500) False"
  from replay_answers_the_same [OF reachable_opened sample_process_bet run sample_same _ calm, of "''other''"]
  obtain r where r: "process sample_service (sample_call 9 []) (bet_cmd\<lparr>cmd_correlation := ''other''\<rparr>) db_refund = (Inr r, db_refund)"
    and same: "r\<lparr>pr_replay := pr_replay ?r\<rparr> = ?r"
    by (auto simp: result_from_def terminal_status_def)
  from arg_cong [OF same, of pr_transaction] arg_cong [OF same, of pr_status] arg_cong [OF same, of pr_balance] r
  show ?thesis by (simp add: result_from_def)
qed

text \<open>
  C11: A commit whose acknowledgement was lost is safe to retry: when a call reports an
  error although the database changed, sending the command again changes nothing and answers
  with the transaction that was stored.
\<close>

theorem retry_after_lost_ack:
  assumes "reachable sv (d, ms)" and "process sv c cmd d = (Inl e, d1)" and "d1 \<noteq> d" and "calm c'"
  shows "\<exists>t r. stored_as sv cmd d1 t \<and> process sv c' cmd d1 = (Inr r, d1) \<and> answers r t \<and> pr_replay r"
proof -
  let ?c = "c\<lparr>c_ack_lost := False\<rparr>"
  obtain r where p: "process sv ?c cmd d = (Inr r, d1)"
    using assms(2,3)
    by (auto simp: process_def Let_def within_transaction_def exec_def split: sum.splits prod.splits if_splits)
  have v: "sv_valid sv cmd" using assms(2,3) by (auto simp: process_def split: if_splits)
  have inv: "db_inv (sv_iso sv) d" "inbox_inv d" using reachable_db_inv reachable_inbox assms(1) by fastforce+
  have r1: "served sv (d, ms) (d1, ms)"
    using served.intros [of "ProcessWager ?c cmd" sv "(d, ms)"] p by simp
  have inv1: "db_inv (sv_iso sv) d1"
    using served_runs(2) [OF r1 reachable_inv [OF assms(1)]] by (simp add: system_inv_def)
  obtain t where t: "stored_as sv cmd d1 t" using process_stored [OF inv(1) p] by blast
  have "inbox_inv d1" "\<And>i. cmd_inbox cmd = Some i \<Longrightarrow> delivered i d1"
    using process_inbox [OF inv(2) p] by simp_all
  from replay_any [OF inv1 this(1) assms(4) v t this(2)] t show ?thesis using replays_answers by blast
qed

lemma retry_after_lost_ack_witness:
  "\<exists>r. process sample_service (sample_call 9 []) bet_cmd db_bet = (Inr r, db_bet) \<and> pr_replay r"
proof -
  let ?c = "sample_call 6 [''t1'', ''l1'', ''e2'', ''e3'']"
  have "process sample_service (?c\<lparr>c_ack_lost := True\<rparr>) bet_cmd db_opened = (Inl ErrDatabase, db_bet)"
    using sample_process_bet
    by (auto simp: process_def Let_def within_transaction_def exec_def sample_call_def
        split: sum.splits prod.splits if_splits)
  moreover have "db_bet \<noteq> db_opened" by (simp add: db_bet_def db_opened_def)
  moreover have "calm (sample_call 9 [])" by (simp add: calm_def sample_call_def)
  ultimately show ?thesis using retry_after_lost_ack [OF reachable_opened] by blast
qed

text \<open>
  A command from the queue claims its message first: a message that was recorded before is
  refused as a conflict of the inbox, whatever is wrong with the rest of the command.
\<close>

definition conflict_error :: "wager_command \<Rightarrow> db \<Rightarrow> err \<Rightarrow> err" where
  "conflict_error cmd d e =
     (case cmd_inbox cmd of
        None \<Rightarrow> e
      | Some i \<Rightarrow> if list_ex (inbox_match i) (inbox d) then ErrInboxPayloadConflict else e)"

lemma claim_other_hash:
  assumes inv: "inbox_inv (s_db s)" and st: "steady s" and r: "r \<in> set (inbox (s_db s))" "inbox_match i r" "ir_hash r \<noteq> in_hash i"
  shows "claim_inbox i now s = Inl ErrInboxPayloadConflict"
proof -
  from r obtain q where q: "find (inbox_match i) (inbox (s_db s)) = Some q"
    by (cases "find (inbox_match i) (inbox (s_db s))") (auto simp: find_None_iff)
  then have "q \<in> set (inbox (s_db s))" "inbox_match i q" by (auto dest: find_someD)
  then have "q = r" by (rule inbox_match_unique [OF inv r(1,2)])
  moreover have "list_ex (inbox_match i) (inbox (s_db s))" using r by (auto simp: list_ex_iff)
  ultimately show ?thesis
    using q r(3) st by (simp add: claim_inbox_def tx_bind_def tx_fail_def exec_steady select_steady)
qed

lemma claim_new:
  "steady s \<Longrightarrow> \<not> list_ex (inbox_match i) (inbox (s_db s)) \<Longrightarrow>
   claim_inbox i now s = Inr (InboxInserted, s\<lparr>s_db := s_db s\<lparr>inbox := inbox (s_db s) @ [fresh_row i now]\<rparr>\<rparr>)"
  by (simp add: claim_inbox_def tx_bind_def exec_steady tx_return_def fresh_row_def)

text \<open>
  What a command answers that fails wherever the message is new (\<open>unclaimed\<close>) and that is not
  stored with its payload (\<open>known\<close>), on both transports.
\<close>

lemma conflict_answer:
  assumes inv: "db_inv (sv_iso sv) d" "inbox_inv d" and c: "calm c" and v: "sv_valid sv cmd"
    and unclaimed: "\<And>co ca s. db_inv (sv_iso sv) (s_db s) \<Longrightarrow> steady s \<Longrightarrow> txns (s_db s) = txns d \<Longrightarrow>
      process_unclaimed sv cmd co ca (c_now c) s = Inl e"
    and known: "\<And>s. s_db s = d \<Longrightarrow> steady s \<Longrightarrow>
      \<exists>x. find_by_idempotency (sv_iso sv) (cmd_provider cmd) (cmd_key cmd) s = Inr (x, s) \<and>
        (\<forall>t. x = Some t \<longrightarrow> wt_hash t \<noteq> wager_payload_hash sv cmd)"
  shows "process sv c cmd d = (Inl (conflict_error cmd d e), d)"
proof (cases "cmd_inbox cmd")
  case None
  then have "process_tx sv cmd (correlation_of c cmd) [] (c_now c) (start_session c d (drawn_before cmd)) = Inl e"
    using unclaimed inv(1) by (simp add: process_tx_def)
  from process_calm(2) [OF inv(1) c v refl refl _ this] None show ?thesis by (simp add: conflict_error_def)
next
  case (Some i)
  let ?s = "start_session c d (drawn_before cmd)"
  have "process_tx sv cmd (correlation_of c cmd) (in_message i) (c_now c) ?s = Inl (conflict_error cmd d e)"
  proof (cases "list_ex (inbox_match i) (inbox d)")
    case False
    let ?s1 = "?s\<lparr>s_db := d\<lparr>inbox := inbox d @ [fresh_row i (c_now c)]\<rparr>\<rparr>"
    have cl: "claim_inbox i (c_now c) ?s = Inr (InboxInserted, ?s1)" using claim_new [of ?s i] False by simp
    have "db_inv (sv_iso sv) (s_db ?s1)"
      using db_step_sound [OF db_step.inbox [OF claim_inboxD [OF cl]]] inv(1) by simp
    then have "process_unclaimed sv cmd (correlation_of c cmd) (in_message i) (c_now c) ?s1 = Inl e"
      by (rule unclaimed) simp_all
    with cl Some False show ?thesis by (simp add: process_tx_def tx_bind_def conflict_error_def)
  next
    case True
    then obtain r where r: "r \<in> set (inbox d)" "inbox_match i r" by (auto simp: list_ex_iff)
    show ?thesis
    proof (cases "ir_hash r = in_hash i")
      case False
      with claim_other_hash [of ?s r i] r inv(2) True Some show ?thesis
        by (simp add: process_tx_def tx_bind_def conflict_error_def)
    next
      case same: True
      have "delivered i d" using r same inv(2) by (auto simp: delivered_def inbox_inv_def)
      then have cl: "claim_inbox i (c_now c) ?s = Inr (InboxAlreadyCompleted, ?s)"
        using claim_delivered [of ?s i] inv(2) by simp
      obtain x where x: "find_by_idempotency (sv_iso sv) (cmd_provider cmd) (cmd_key cmd) ?s = Inr (x, ?s)"
        "\<forall>t. x = Some t \<longrightarrow> wt_hash t \<noteq> wager_payload_hash sv cmd"
        using known [of ?s] by auto
      with cl Some True show ?thesis
        by (cases x) (simp_all add: process_tx_def tx_bind_def tx_fail_def conflict_error_def)
    qed
  qed
  from process_calm(2) [OF inv(1) c v refl refl _ this] Some show ?thesis by simp
qed

lemma other_message:
  assumes inv: "db_inv (sv_iso sv) d" "inbox_inv d" and c: "calm c" and v: "sv_valid sv cmd"
    and i: "cmd_inbox cmd = Some i" and r: "r \<in> set (inbox d)" "inbox_match i r" "ir_hash r \<noteq> in_hash i"
  shows "process sv c cmd d = (Inl ErrInboxPayloadConflict, d)"
proof -
  have "process_tx sv cmd (correlation_of c cmd) (in_message i) (c_now c) (start_session c d (drawn_before cmd)) =
      Inl ErrInboxPayloadConflict"
    using claim_other_hash [of "start_session c d (drawn_before cmd)" r i] inv(2) r i
    by (simp add: process_tx_def tx_bind_def)
  from process_calm(2) [OF inv(1) c v refl refl _ this] i show ?thesis by simp
qed

text \<open>
  C12: Reused identifiers are refused without a change, on both transports. A key that is
  stored with another payload, and an external identifier that is stored under another key, is
  a conflict: for a command over HTTP and for a new message with ErrIdempotencyPayloadConflict
  and ErrExternalTransactionConflict, for a message that was recorded before with
  ErrInboxPayloadConflict. A recorded message that comes with another body always is one.
\<close>

theorem reused_keys_conflict:
  assumes "reachable sv (d, ms)" and "calm c" and "sv_valid sv cmd"
  shows "(\<forall>t. txn_row_of t \<in> set (txns d) \<and> wt_provider t = cmd_provider cmd \<and>
       wt_key t = cmd_key cmd \<and> wt_hash t \<noteq> wager_payload_hash sv cmd \<longrightarrow>
      process sv c cmd d = (Inl (conflict_error cmd d ErrIdempotencyPayloadConflict), d)) \<and>
    (\<forall>t. txn_row_of t \<in> set (txns d) \<and> wt_provider t = cmd_provider cmd \<and>
       wt_external t = cmd_external cmd \<and> find_by_key (cmd_provider cmd) (cmd_key cmd) d = None \<longrightarrow>
      process sv c cmd d = (Inl (conflict_error cmd d ErrExternalTransactionConflict), d)) \<and>
    (\<forall>i r. cmd_inbox cmd = Some i \<and> r \<in> set (inbox d) \<and> inbox_match i r \<and> ir_hash r \<noteq> in_hash i \<longrightarrow>
      process sv c cmd d = (Inl ErrInboxPayloadConflict, d))"
proof -
  have inv: "db_inv (sv_iso sv) d" "inbox_inv d" using reachable_db_inv reachable_inbox assms(1) by fastforce+
  note answer = conflict_answer [OF inv assms(2,3)]
  have "process sv c cmd d = (Inl (conflict_error cmd d ErrIdempotencyPayloadConflict), d)"
    if t: "txn_row_of t \<in> set (txns d)" "wt_provider t = cmd_provider cmd" "wt_key t = cmd_key cmd"
      "wt_hash t \<noteq> wager_payload_hash sv cmd" for t
    by (rule answer) (use key_conflict [where t = t] inv(1) t in auto)
  moreover have "process sv c cmd d = (Inl (conflict_error cmd d ErrExternalTransactionConflict), d)"
    if t: "txn_row_of t \<in> set (txns d)" "wt_provider t = cmd_provider cmd" "wt_external t = cmd_external cmd"
      and k: "find_by_key (cmd_provider cmd) (cmd_key cmd) d = None" for t
  proof (rule answer)
    have k': "find_by_key (cmd_provider cmd) (cmd_key cmd) d' = None" if "txns d' = txns d" for d'
      using k that by (simp add: find_by_key_def)
    show "process_unclaimed sv cmd co ca (c_now c) s = Inl ErrExternalTransactionConflict"
      if "db_inv (sv_iso sv) (s_db s)" "steady s" "txns (s_db s) = txns d" for co ca s
      using external_conflict(2) [OF that(1,2) _ t(2,3) k'] that(3) t(1) by simp
    show "\<exists>x. find_by_idempotency (sv_iso sv) (cmd_provider cmd) (cmd_key cmd) s = Inr (x, s) \<and>
        (\<forall>t. x = Some t \<longrightarrow> wt_hash t \<noteq> wager_payload_hash sv cmd)" if "s_db s = d" "steady s" for s
      using external_conflict(1) [OF _ that(2) _ t(2,3)] that(1) inv(1) t(1) k by simp
  qed
  ultimately show ?thesis using other_message [OF inv assms(2,3)] by blast
qed

lemma reused_keys_conflict_witness:
  "process sample_service (sample_call 9 []) (sample_cmd KindBet ''x7'' ''k1'' 2500 []) db_bet =
     (Inl ErrIdempotencyPayloadConflict, db_bet) \<and>
   process sample_service (sample_call 9 []) (sample_cmd KindBet ''x1'' ''k7'' 2500 []) db_bet =
     (Inl ErrExternalTransactionConflict, db_bet)"
proof -
  have c: "calm (sample_call 9 [])" by (simp add: calm_def sample_call_def)
  have t: "txn_row_of bet_txn \<in> set (txns db_bet)" by (simp add: db_bet_def)
  have k: "find_by_key ''v'' ''k7'' db_bet = None" by (simp add: find_by_key_def db_bet_def opening_row_def)
  have h: "wager_payload_hash sample_service bet_cmd \<noteq> wager_payload_hash sample_service (sample_cmd KindBet ''x7'' ''k1'' 2500 [])"
    by (simp add: sample_hash)
  have e: "conflict_error (sample_cmd KindBet x key n ref) db_bet e = e" for x key n ref e
    by (simp add: conflict_error_def sample_cmd_def)
  have v: "sv_valid sample_service cmd" for cmd by simp
  note r = reused_keys_conflict [OF reachable_bet c v]
  have "process sample_service (sample_call 9 []) (sample_cmd KindBet ''x7'' ''k1'' 2500 []) db_bet =
      (Inl (conflict_error (sample_cmd KindBet ''x7'' ''k1'' 2500 []) db_bet ErrIdempotencyPayloadConflict), db_bet)"
    by (rule conjunct1 [OF r, rule_format, of bet_txn]) (use t h in simp)
  moreover have "process sample_service (sample_call 9 []) (sample_cmd KindBet ''x1'' ''k7'' 2500 []) db_bet =
      (Inl (conflict_error (sample_cmd KindBet ''x1'' ''k7'' 2500 []) db_bet ErrExternalTransactionConflict), db_bet)"
    by (rule conjunct1 [OF conjunct2 [OF r], rule_format, of bet_txn]) (use t k in simp)
  ultimately show ?thesis by (simp only: e)
qed

end
