(* ===== verification/Pending.thy ===== *)
theory Pending
  imports Redelivery
begin

text \<open>
  Transactions that wait for their reference: the lookup of the due ones
  (\<open>FindDuePendingReferences\<close>), the loop of the worker
  (\<open>messaging/reference_worker.go\<close>), and the proof that every such transaction is
  decided after a bounded number of attempts.
\<close>

section \<open>The worker\<close>

text \<open>\<open>ORDER BY next_attempt_at, id LIMIT\<close>\<close>

definition due_key :: "txn_row \<Rightarrow> time \<times> string" where
  "due_key r = (case tr_next r of None \<Rightarrow> 0 | Some n \<Rightarrow> n, tr_id r)"

definition due :: "time \<Rightarrow> txn_row \<Rightarrow> bool" where
  "due now r \<longleftrightarrow>
     tr_status r = StatusPendingReference \<and> (case tr_next r of None \<Rightarrow> False | Some n \<Rightarrow> n \<le> now)"

definition find_due_pending_references :: "nat \<Rightarrow> time \<Rightarrow> db \<Rightarrow> string list" where
  "find_due_pending_references limit now d =
     map tr_id (take limit (sort_key due_key (filter (due now) (txns d))))"

text \<open>
  One identifier: \<open>ResolvePendingReference\<close> and, when it fails,
  \<open>RecordPendingReferenceFailure\<close>. Each is a call of its own.
\<close>

definition resolve_one :: "service \<Rightarrow> call \<times> call \<Rightarrow> string \<Rightarrow> db \<Rightarrow> db" where
  "resolve_one sv cs tid d =
     (case resolve_pending_reference sv (fst cs) tid d of
        (Inr _, d') \<Rightarrow> d'
      | (Inl _, d') \<Rightarrow> snd (record_pending_reference_failure sv (snd cs) tid d'))"

text \<open>The list of calls is shorter than the batch when the worker stops in the middle.\<close>

fun resolve_batch :: "service \<Rightarrow> (call \<times> call) list \<Rightarrow> string list \<Rightarrow> db \<Rightarrow> db" where
  "resolve_batch sv (cs # css) (tid # ids) d = resolve_batch sv css ids (resolve_one sv cs tid d)"
| "resolve_batch sv _ _ d = d"

definition reference_pass :: "service \<Rightarrow> nat \<Rightarrow> time \<Rightarrow> (call \<times> call) list \<Rightarrow> db \<Rightarrow> db" where
  "reference_pass sv limit now css d = resolve_batch sv css (find_due_pending_references limit now d) d"

text \<open>The rows that a batch selects, in their order.\<close>

definition selected :: "nat \<Rightarrow> time \<Rightarrow> db \<Rightarrow> txn_row list" where
  "selected limit now d = take limit (sort_key due_key (filter (due now) (txns d)))"

lemma find_due_selected: "find_due_pending_references limit now d = map tr_id (selected limit now d)"
  by (simp add: find_due_pending_references_def selected_def)

lemma due_key_inj:
  "distinct (map tr_id (txns d)) \<Longrightarrow> inj_on due_key (set (filter (due now) (txns d)))"
  by (auto simp: due_key_def due_def distinct_map inj_on_def split: option.splits)

lemma selected_due:
  "set (selected limit now d) \<subseteq> {r \<in> set (txns d). due now r}"
  "sorted (map due_key (selected limit now d))"
  "length (selected limit now d) = min limit (length (filter (due now) (txns d)))"
  "distinct (map tr_id (txns d)) \<Longrightarrow> distinct (selected limit now d)"
  by (auto simp: selected_def distinct_map sorted_wrt_take simp flip: take_map dest: in_set_takeD)

lemma selected_first:
  assumes d: "distinct (map tr_id (txns d))" and r: "r \<in> set (selected limit now d)"
    and q: "q \<in> set (txns d)" "due now q" "q \<notin> set (selected limit now d)"
  shows "due_key r < due_key q"
proof -
  let ?xs = "sort_key due_key (filter (due now) (txns d))"
  have s: "sorted (map due_key (take limit ?xs @ drop limit ?xs))" by simp
  have "q \<in> set (take limit ?xs @ drop limit ?xs)" using q by simp
  then have "q \<in> set (drop limit ?xs)" using q(3) unfolding selected_def set_append by blast
  with s r have "due_key r \<le> due_key q" unfolding map_append sorted_append selected_def by force
  moreover have "due_key r \<noteq> due_key q"
    using inj_onD [OF due_key_inj [OF d, of now], of r q] r q selected_due(1) [of limit now d] by auto
  ultimately show ?thesis by simp
qed

text \<open>A due transaction is selected when fewer than \<open>limit\<close> due ones come before it.\<close>

lemma selected_rank:
  assumes d: "distinct (map tr_id (txns d))" and r: "r \<in> set (txns d)" "due now r"
    and k: "length (filter (\<lambda>q. due now q \<and> due_key q < due_key r) (txns d)) < limit"
  shows "r \<in> set (selected limit now d)"
proof (rule ccontr)
  assume n: "r \<notin> set (selected limit now d)"
  let ?P = "\<lambda>q. due now q \<and> due_key q < due_key r"
  have "r \<notin> set (take limit (sort_key due_key (filter (due now) (txns d))))" using n by (simp add: selected_def)
  then have "limit < length (filter (due now) (txns d))"
    using r by (intro not_le_imp_less notI) simp
  then have l: "length (selected limit now d) = limit" by (simp add: selected_due(3))
  have "set (selected limit now d) \<subseteq> set (filter ?P (txns d))"
    using selected_first [OF d _ r n] selected_due(1) by fastforce
  then have "card (set (selected limit now d)) \<le> card (set (filter ?P (txns d)))" by (intro card_mono) simp_all
  also have "\<dots> \<le> length (filter ?P (txns d))" by (rule card_length)
  finally show False using k l distinct_card [OF selected_due(4) [OF d, of limit now]] by simp
qed

section \<open>The number of attempts\<close>

text \<open>The predicate \<open>P\<close> on the tables survives a successful \<open>m\<close>.\<close>

definition maintains :: "(db \<Rightarrow> bool) \<Rightarrow> 'a tx \<Rightarrow> bool" where
  "maintains P m \<longleftrightarrow> (\<forall>s x s'. m s = Inr (x, s') \<longrightarrow> P (s_db s) \<longrightarrow> P (s_db s'))"

definition attempts_within :: "int \<Rightarrow> db \<Rightarrow> bool" where
  "attempts_within b d \<longleftrightarrow> (\<forall>r \<in> set (txns d). tr_attempts r \<le> b)"

named_theorems kept

lemma maintains_preserved: "preserves txns m \<Longrightarrow> maintains (attempts_within b) m"
  unfolding maintains_def preserves_def attempts_within_def by metis

lemma maintains_basic [kept]:
  "maintains P (tx_return x)" "maintains P (tx_fail e)" "maintains P (tx_lift r)"
  by (auto simp: maintains_def)

lemma maintainsD: "maintains P m \<Longrightarrow> m s = Inr (x, s') \<Longrightarrow> P (s_db s) \<Longrightarrow> P (s_db s')"
  by (auto simp: maintains_def)

lemma maintains_bind:
  "maintains P m \<Longrightarrow> (\<And>x s s'. m s = Inr (x, s') \<Longrightarrow> maintains P (f x)) \<Longrightarrow> maintains P (tx_bind m f)"
  unfolding maintains_def tx_bind_ok by blast

lemma maintains_then [kept]:
  "maintains P m \<Longrightarrow> (\<And>x. maintains P (f x)) \<Longrightarrow> maintains P (tx_bind m f)"
  by (rule maintains_bind)

lemma kept_if:
  "(b \<Longrightarrow> maintains P m) \<Longrightarrow> (\<not> b \<Longrightarrow> maintains P n) \<Longrightarrow> maintains P (if b then m else n)"
  by simp

lemma maintains_lift:
  "(\<And>x. r = Inr x \<Longrightarrow> maintains P (f x)) \<Longrightarrow> maintains P (tx_bind (tx_lift r) f)"
  by (rule maintains_bind) (auto simp: maintains_def)

lemma txns_writes [keeps]:
  "preserves txns (update_wallet w)" "preserves txns (insert_wallet w)" "preserves txns (insert_ledger e)"
  "preserves txns (emit ty ag co ca now dat)" "preserves txns (insert_outbox ev)"
  by (auto simp: preserves_def dest!: statement_dests)

lemma txns_inbox [keeps]:
  "preserves txns (claim_inbox i now)" "preserves txns (complete_inbox_if x now)"
  using inbox_only_txns claim_inboxD complete_inbox_ifD unfolding preserves_def by blast+

lemma txns_movement [keeps]: "preserves txns (record_movement iso4217 t dir before after w now)"
  by (auto simp: record_movement_def intro!: keeps)

lemmas kept_reads [kept] = maintains_preserved [OF preserves_uuid] maintains_preserved [OF inbox_reference]
  maintains_preserved [OF inbox_replay] maintains_preserved [OF txns_movement]
  preserves_reads [THEN maintains_preserved] txns_writes [THEN maintains_preserved]
  txns_inbox [THEN maintains_preserved]

lemma insert_attempts [kept]:
  "tr_attempts r \<le> b \<Longrightarrow> maintains (attempts_within b) (insert_txn_row r)"
  by (auto simp: maintains_def attempts_within_def dest!: insert_txn_rowD)

lemma update_attempts [kept]:
  "wt_attempts t \<le> b \<Longrightarrow> maintains (attempts_within b) (update_transaction t)"
  by (auto simp: maintains_def attempts_within_def set_update_where change_txn_row_def dest!: update_transactionD)

lemma save_attempts [kept]:
  "wt_attempts t \<le> b \<Longrightarrow> maintains (attempts_within b) (save_transaction fresh t)"
  by (auto simp: save_transaction_def insert_transaction_def intro!: kept)

lemma reject_attempts [kept]:
  "wt_attempts t \<le> b \<Longrightarrow> maintains (attempts_within b) (reject_tx sv t w code co ca now fresh)"
  unfolding reject_tx_def
  by (rule maintains_lift) (auto simp: reject_wager_ok intro!: kept)

lemma settle_attempts [kept]:
  "wt_attempts t \<le> b \<Longrightarrow> maintains (attempts_within b) (settle_tx sv t dir before after w co ca now fresh)"
  unfolding settle_tx_def
  by (rule maintains_lift) (auto simp: mark_processed_ok intro!: kept split: option.splits)

lemma finalize_attempts [kept]:
  "wt_attempts t \<le> b \<Longrightarrow> maintains (attempts_within b) (finalize sv t w reference co ca now fresh)"
  by (auto simp: finalize_def intro!: kept split: sum.splits)

lemma decide_attempts [kept]:
  "wt_attempts t \<le> b \<Longrightarrow> maintains (attempts_within b) (decide_tx sv t w reference co ca now fresh)"
  by (auto simp: decide_tx_def intro!: kept)

lemma resolved_attempts [kept]:
  "wt_attempts t \<le> b \<Longrightarrow> maintains (attempts_within b) (resolved_tx sv t w r co ca now fresh)"
  unfolding resolved_tx_def
  by (rule maintains_lift) (auto simp: resolve_reference_ok intro!: kept)

lemma defer_attempts [kept]:
  "wt_attempts t + 1 \<le> b \<Longrightarrow> maintains (attempts_within b)
    (tx_bind (tx_lift (mark_pending_reference t nx now)) update_transaction)"
  by (rule maintains_lift) (auto simp: mark_pending_reference_ok intro!: kept)

lemma record_new_attempts:
  assumes "wt_attempts t = 0" and "1 \<le> b"
  shows "maintains (attempts_within b) (record_new sv cmd t w co ca now)"
proof -
  have "maintains (attempts_within b) (tx_bind (tx_lift (mark_pending_reference t nx now)) (\<lambda>t'.
            tx_bind (insert_transaction t') (\<lambda>_. tx_bind (pending_event t' co ca now) (\<lambda>_. tx_return (t', w)))))" for nx
    by (rule maintains_lift)
      (use assms in \<open>auto simp: mark_pending_reference_ok insert_transaction_def pending_event_def
        intro!: kept\<close>)
  with assms show ?thesis
    by (auto simp: record_new_def intro!: kept)
qed

lemma process_unclaimed_attempts [kept]:
  assumes "1 \<le> b" shows "maintains (attempts_within b) (process_unclaimed sv cmd co ca now)"
proof -
  have "maintains (attempts_within b) (tx_bind (tx_lift (new_wager_transaction (sv_iso sv)
             (external_of_command sv cmd tid now))) (\<lambda>t.
           tx_bind (record_new sv cmd t w co ca now) (\<lambda>(t', w').
           tx_bind (complete_inbox_if (cmd_inbox cmd) now) (\<lambda>_.
           tx_return (result_from t' (wallet_balance w') False)))))" for tid w
    by (rule maintains_lift)
      (use assms in \<open>auto simp: new_wager_ok_iff intro!: kept record_new_attempts split: prod.splits\<close>)
  note new = this
  show ?thesis
    by (auto simp: process_unclaimed_def intro!: new kept split: option.splits)
qed

lemma process_attempts [kept]:
  "1 \<le> b \<Longrightarrow> maintains (attempts_within b) (process_tx sv cmd co ca now)"
  by (auto simp: process_tx_def intro!: kept split: option.splits)

lemma create_attempts [kept]:
  "0 \<le> b \<Longrightarrow> maintains (attempts_within b) (create_tx sv w m co now)"
  by (auto simp: create_tx_def insert_opening_def opening_row_def intro!: kept)

text \<open>The transaction that a call locks is a row of the table.\<close>

lemma scan_attempts: "scan_transaction iso4217 r = Inr t \<Longrightarrow> wt_attempts t = tr_attempts r"
  by (auto simp: scan_transaction_def rehydrate_wager_ok split: option.splits)

lemma lock_attempts:
  "lock_transaction iso4217 tid s = Inr (t, s') \<Longrightarrow> attempts_within b (s_db s) \<Longrightarrow>
   s_db s' = s_db s \<and> wt_attempts t \<le> b"
  using scan_attempts by (auto simp: find_txn_def attempts_within_def dest!: lock_transactionD find_someD)

lemma resolve_attempts:
  assumes b: "sv_max_attempts sv \<le> b"
  shows "maintains (attempts_within b) (resolve_pending_tx sv tid now)"
proof -
  have "attempts_within b (s_db s')"
    if p: "resolve_pending_tx sv tid now s = Inr (u, s')" and a: "attempts_within b (s_db s)" for s u s'
  proof -
    let ?k = "\<lambda>t. if wt_status t \<noteq> StatusPendingReference then tx_return ()
     else
       tx_bind (lock_wallet (sv_iso sv) (wt_wallet t)) (\<lambda>w.
       tx_bind (find_by_external_id (sv_iso sv) (wt_provider t) (wt_ref_external t)) (\<lambda>reference.
       if reference_is_pending reference then
         if sv_max_attempts sv \<le> wt_attempts t then
           tx_bind (reject_tx sv t w FailureReferenceNotFound (wt_id t) [] now False)
             (\<lambda>_. tx_return ())
         else
           tx_bind (tx_lift (mark_pending_reference t
             (time_add now (service_backoff sv (wt_attempts t + 1))) now)) (\<lambda>t'.
           update_transaction t')
       else
         tx_bind (resolved_tx sv t w (the reference) (wt_id t) [] now False)
           (\<lambda>_. tx_return ())))"
    from p obtain t s1 where l: "lock_transaction (sv_iso sv) tid s = Inr (t, s1)" and k: "?k t s1 = Inr (u, s')"
      unfolding resolve_pending_tx_def tx_bind_ok by blast
    note t = lock_attempts [OF l a]
    have "maintains (attempts_within b) (?k t)"
      by (rule kept_if defer_attempts kept | (use t b in simp; fail))+
    from maintainsD [OF this k] t a show ?thesis by simp
  qed
  then show ?thesis by (auto simp: maintains_def)
qed

lemma failure_attempts:
  assumes b: "sv_max_attempts sv \<le> b"
  shows "maintains (attempts_within b) (record_failure_tx sv tid now)"
proof -
  have "attempts_within b (s_db s')"
    if p: "record_failure_tx sv tid now s = Inr (u, s')" and a: "attempts_within b (s_db s)" for s u s'
  proof -
    let ?k = "\<lambda>t. if wt_status t \<noteq> StatusPendingReference then tx_return ()
     else
       tx_bind (lock_wallet (sv_iso sv) (wt_wallet t)) (\<lambda>w.
       if wt_attempts t < sv_max_attempts sv then
         tx_bind (tx_lift (mark_pending_reference t
           (time_add now (service_backoff sv (wt_attempts t + 1))) now)) (\<lambda>t'.
         update_transaction t')
       else
         tx_bind (tx_lift (fail_wager (sv_iso sv) t FailureProcessingAttemptsExhausted
           (wallet_balance w) now)) (\<lambda>t'.
         tx_bind (update_transaction t') (\<lambda>_.
         emit EventWagerTransactionFailed (wt_id t') (wt_id t') [] now
           (FailedData \<lparr>od_transaction = wt_id t', od_external = wt_external t',
              od_provider = wt_provider t', od_wallet = wt_wallet t', od_kind = wt_kind t',
              od_status = wt_status t', od_failure = wt_failure t',
              od_balance = view_money (wallet_balance w)\<rparr>))))"
    from p obtain t s1 where l: "lock_transaction (sv_iso sv) tid s = Inr (t, s1)" and k: "?k t s1 = Inr (u, s')"
      unfolding record_failure_tx_def tx_bind_ok by blast
    note t = lock_attempts [OF l a]
    have "maintains (attempts_within b) (tx_bind (tx_lift (fail_wager (sv_iso sv) t code m now)) (\<lambda>t'.
         tx_bind (update_transaction t') (\<lambda>_. emit ty (f t') (f t') [] now (g t'))))" for code m ty f g
      by (rule maintains_lift) (use t in \<open>auto simp: fail_wager_ok intro!: kept\<close>)
    note failed = this
    have "maintains (attempts_within b) (?k t)"
      by (rule kept_if defer_attempts failed kept | (use t b in simp; fail))+
    from maintainsD [OF this k] t a show ?thesis by simp
  qed
  then show ?thesis by (auto simp: maintains_def)
qed

lemma within_maintains:
  "maintains P m \<Longrightarrow> P d \<Longrightarrow> within_transaction c n m d = (res, d') \<Longrightarrow> P d'"
  by (auto simp: within_transaction_def exec_def maintains_def split: sum.splits prod.splits if_splits)

lemma relay_event_txns [simp]: "txns (fst (relay_event worker a ce st)) = txns (fst st)"
  by (simp add: relay_event_def Let_def mark_outbox_published_def release_outbox_def)

lemma relay_events_txns [simp]: "txns (fst (relay_events worker as ces st)) = txns (fst st)"
  by (induction worker as ces st rule: relay_events.induct) simp_all

lemma relay_pass_txns [simp]: "txns (fst (relay_pass arrange worker limit lease now as st)) = txns (fst st)"
  by (simp add: relay_pass_def claim_outbox_def Let_def)

definition attempt_bound :: "service \<Rightarrow> int" where
  "attempt_bound sv = max 1 (sv_max_attempts sv)"

lemma served_attempts:
  assumes "served sv st st'" and a: "attempts_within (attempt_bound sv) (fst st)"
  shows "attempts_within (attempt_bound sv) (fst st')"
proof -
  from assms(1) obtain q where q: "st' = serve sv q st" by (auto elim: servedE)
  have b: "1 \<le> attempt_bound sv" "0 \<le> attempt_bound sv" "sv_max_attempts sv \<le> attempt_bound sv"
    by (simp_all add: attempt_bound_def)
  show ?thesis
  proof (cases q)
    case (CreateWallet c cmd)
    obtain res d' where d': "create sv c cmd (fst st) = (res, d')" by fastforce
    then have "attempts_within (attempt_bound sv) d'"
      using a by (auto simp: create_def Let_def dest: within_maintains [OF create_attempts [OF b(2)]]
          split: sum.splits prod.splits if_splits)
    with q CreateWallet d' show ?thesis by simp
  next
    case (ProcessWager c cmd)
    obtain res d' where d': "process sv c cmd (fst st) = (res, d')" by fastforce
    then have "attempts_within (attempt_bound sv) d'"
      using a by (auto simp: process_def Let_def dest: within_maintains [OF process_attempts [OF b(1)]] split: if_splits)
    with q ProcessWager d' show ?thesis by simp
  next
    case (ResolvePending c tid)
    obtain res d' where d': "resolve_pending_reference sv c tid (fst st) = (res, d')" by fastforce
    then have "attempts_within (attempt_bound sv) d'"
      unfolding resolve_pending_reference_def by (rule within_maintains [OF resolve_attempts [OF b(3)] a])
    with q ResolvePending d' show ?thesis by simp
  next
    case (RecordFailure c tid)
    obtain res d' where d': "record_pending_reference_failure sv c tid (fst st) = (res, d')" by fastforce
    then have "attempts_within (attempt_bound sv) d'"
      unfolding record_pending_reference_failure_def by (rule within_maintains [OF failure_attempts [OF b(3)] a])
    with q RecordFailure d' show ?thesis by simp
  next
    case (RelayOutbox arrange worker limit lease now as)
    with q a show ?thesis by (simp add: attempts_within_def)
  qed
qed

interpretation attempts_machine: machine "served sv" "\<lambda>st. attempts_within (attempt_bound sv) (fst st)" for sv
  by unfold_locales (rule served_attempts)

lemma reachable_attempts: "reachable sv st \<Longrightarrow> attempts_within (attempt_bound sv) (fst st)"
  unfolding reachable_def by (rule attempts_machine.run_inv) (auto simp: attempts_within_def empty_db_def)

section \<open>Stored transactions\<close>

text \<open>No transaction is stored undecided, and external rows satisfy the checks of the schema.\<close>

definition stored_ok :: "db \<Rightarrow> bool" where
  "stored_ok d \<longleftrightarrow> (\<forall>r \<in> set (txns d).
     (tr_status r = StatusPendingReference \<or> terminal_status (tr_status r)) \<and>
     (tr_origin r = External \<longrightarrow> txn_checks r))"

lemma written_stored:
  assumes w: "written iso4217 d t rs" and s: "wt_status t = StatusPendingReference \<or> terminal_status (wt_status t)"
    and d: "stored_ok d" "txns d' = rs"
  shows "stored_ok d'"
proof -
  have "txn_checks (txn_row_of t)" using w by (simp add: written_def)
  then have "(tr_status q = StatusPendingReference \<or> terminal_status (tr_status q)) \<and>
      (tr_origin q = External \<longrightarrow> txn_checks q)" if "q \<in> set rs" for q
    using written_set [OF w that] s d(1) by (auto simp: stored_ok_def)
  with d(2) show ?thesis by (simp add: stored_ok_def)
qed

lemma status_event_some: "status_event s = Some ty \<Longrightarrow> s = StatusPendingReference \<or> terminal_status s"
  by (cases s) (auto simp: status_event_def terminal_status_def)

lemma db_step_stored:
  assumes "db_step iso4217 d d'" and "stored_ok d" shows "stored_ok d'"
  using assms
proof cases
  case inbox
  with assms(2) show ?thesis using inbox_only_txns by (simp add: stored_ok_def)
next
  case (defer_txn t rs)
  with assms(2) show ?thesis by (auto intro: written_stored)
next
  case (record_txn t rs ev)
  then have "wt_status t = StatusPendingReference \<or> terminal_status (wt_status t)"
    using status_event_some by (auto simp: announces_def)
  with record_txn assms(2) show ?thesis by (auto intro: written_stored)
next
  case (settle t rs after w now lid dir e ev ev')
  then have "terminal_status (wt_status t)" by (simp add: terminal_status_def)
  with settle assms(2) show ?thesis by (auto intro!: written_stored [OF settle(2)])
next
  case (open_empty w)
  with assms(2) show ?thesis by (simp add: stored_ok_def)
next
  case (open_funded w zero r tid now lid e ev ev')
  with assms(2) show ?thesis by (auto simp: stored_ok_def opening_row_def terminal_status_def)
qed

interpretation stored: machine "any_step iso4217" stored_ok for iso4217
proof
  fix d d' assume "any_step iso4217 d d'" "stored_ok d"
  then show "stored_ok d'"
  proof cases
    case use_case
    with \<open>stored_ok d\<close> show ?thesis by (blast intro: db_step_stored)
  next
    case relay
    with \<open>stored_ok d\<close> show ?thesis by (simp add: stored_ok_def)
  qed
qed

lemma served_run_stored:
  assumes "(served sv)\<^sup>*\<^sup>* st st'" and "system_inv sv st" and "stored_ok (fst st)"
  shows "stored_ok (fst st') \<and> system_inv sv st'"
  using assms
proof (induction rule: rtranclp_induct)
  case (step st1 st2)
  then show ?case using served_runs [OF step.hyps(2)] stored.run_inv by blast
qed simp

lemma reachable_stored: "reachable sv st \<Longrightarrow> stored_ok (fst st)"
  using served_run_stored [OF _ initial_inv] unfolding reachable_def
  by (auto simp: stored_ok_def empty_db_def)

text \<open>A transaction that waits: what its row says.\<close>

lemma pending_row:
  assumes inv: "db_inv iso4217 d" and ok: "stored_ok d"
    and r: "r \<in> set (txns d)" "tr_status r = StatusPendingReference"
  obtains t w where "r = txn_row_of t" and "new_txn_ok iso4217 t" and "wt_status t = StatusPendingReference"
    and "wallet_row_of w \<in> set (wallets d)" and "wallet_ok iso4217 w" and "wallet_id w = wt_wallet t"
    and "money_currency (wallet_balance w) = money_currency (wt_money t)"
proof -
  from txns_invD(1) [OF inv r(1)] r(2) obtain t where t: "r = txn_row_of t" "wager_inv iso4217 t"
    by (auto simp: external_row_def opening_ok_def)
  have "txn_checks r" using ok r(1) t(1) by (auto simp: stored_ok_def)
  then have "new_txn_ok iso4217 t"
    using t by (auto simp: txn_checks_def new_txn_ok_def reversal_kind_def)
  moreover have "wager_identity_guard d r" using inv r(1) by (auto simp: db_inv_def txns_inv_def)
  then obtain q where q: "q \<in> set (wallets d)" "wr_id q = wt_wallet t" "wr_currency q = money_currency (wt_money t)"
    using r(2) t(1) by (auto simp: wager_identity_guard_def list_ex_iff)
  moreover obtain w where "q = wallet_row_of w" "wallet_ok iso4217 w"
    using q(1) db_invD(1) [OF inv] by (auto simp: wallets_inv_def)
  ultimately show ?thesis using that [of t w] t(1) r(2) by simp
qed

section \<open>Recording a failure\<close>

lemma amend_done:
  assumes inv: "db_inv iso4217 (s_db s)" and st: "steady s" and r: "txn_row_of t0 \<in> set (txns (s_db s))"
    and t0: "new_txn_ok iso4217 t0" "wt_status t0 = StatusPendingReference"
    and step: "wager_step iso4217 t0 t" and t: "wt_ref_id t = wt_ref_id t0" "wt_status t \<noteq> StatusProcessed"
      "wt_attempts t \<le> 2147483647"
  shows "update_transaction t s = Inr ((), s\<lparr>s_db := s_db s\<lparr>txns := put_txn t (txns (s_db s))\<rparr>\<rparr>)"
proof -
  let ?d = "s_db s"
  have k: "keys_ok (txns ?d)" using db_invD(6) [OF inv] .
  have i: "wager_identity t = wager_identity t0" by (rule wager_step_identity [OF step])
  then have id: "wt_id t = wt_id t0" by (simp add: wager_identity_def)
  have f: "find_txn (wt_id t) ?d = Some (txn_row_of t0)" using find_txn_iff [OF k] r id by simp
  have same: "change_txn_row t q = txn_row_of t" if "q \<in> set (txns ?d)" "tr_id q = wt_id t" for q
  proof -
    have "find_txn (wt_id t) ?d = Some q" using find_txn_iff [OF k] that by simp
    then show ?thesis using f change_txn_row_of [OF i] by simp
  qed
  have g0: "wager_identity_guard ?d (txn_row_of t0)" "txn_foreign_keys ?d (txn_row_of t0)"
    using inv r by (auto simp: db_inv_def txns_inv_def)
  have u: "\<not> txn_clash q (txn_row_of t)" if q: "q \<in> set (txns ?d)" "tr_id q \<noteq> wt_id t" for q
  proof
    assume "txn_clash q (txn_row_of t)"
    then have "txn_clash q (txn_row_of t0)"
      using i q(2) t(2) by (auto simp: txn_clash_def wager_identity_def successful_reversal_def)
    from keys_ok_clash [OF k q(1) r this] q(2) id show False by simp
  qed
  have "wager_identity_guard ?d (txn_row_of t)"
    using g0(1) t0(2) i by (auto simp: wager_identity_guard_def wager_identity_def)
  moreover have "txn_foreign_keys ?d (txn_row_of t)"
    using g0(2) i t(1) by (auto simp: txn_foreign_keys_def wager_identity_def nullif_def split: option.splits)
  ultimately have "txn_guards ?d (filter (\<lambda>q. tr_id q \<noteq> wt_id t) (txns ?d)) (txn_row_of t) = Inr ()"
    using u txn_checks_ok [OF new_txn_ok_step [OF t0(1) step t(3)]]
    by (auto simp: txn_guards_ok txn_unique_def list_all_iff)
  moreover have "update_where (\<lambda>q. tr_id q = wt_id t) (change_txn_row t) (txns ?d) = put_txn t (txns ?d)"
    unfolding put_txn_def by (rule update_where_cong) (auto simp: same)
  moreover have "change_txn_row t (txn_row_of t0) = txn_row_of t" using same [OF r] id by simp
  ultimately show ?thesis using f st by (simp add: update_transaction_def exec_steady)
qed

text \<open>The transaction \<open>tid\<close> is decided, or was attempted \<open>n\<close> times at least.\<close>

definition progressed :: "string \<Rightarrow> int \<Rightarrow> db \<Rightarrow> bool" where
  "progressed tid n d \<longleftrightarrow>
     (\<exists>r \<in> set (txns d). tr_id r = tid \<and> (terminal_status (tr_status r) \<or> n \<le> tr_attempts r))"

lemma progressed_later:
  assumes "progressed tid n d" and "db_below d d'" shows "progressed tid n d'"
proof -
  from assms obtain r r' where "tr_id r = tid" "terminal_status (tr_status r) \<or> n \<le> tr_attempts r"
    and "r' \<in> set (txns d')" "row_below r r'"
    by (auto simp: progressed_def db_below_def all_below_def)
  then show ?thesis by (auto simp: progressed_def row_below_def intro!: bexI [of _ r'])
qed

lemma progressed_stored: "txn_row_of t \<in> set (txns d) \<Longrightarrow> terminal t \<or> n \<le> wt_attempts t \<Longrightarrow> progressed (wt_id t) n d"
  by (auto simp: progressed_def terminal_def intro!: bexI [of _ "txn_row_of t"])

lemma recorded_progressed:
  "recorded t p d \<Longrightarrow> terminal (fst p) \<Longrightarrow> progressed (wt_id t) n d"
  using progressed_stored [of "fst p" d n] by (simp add: recorded_def wager_identity_def)

lemma reject_progressed:
  "at_hand sv s False t w \<Longrightarrow> reject_tx sv t w code co ca now False s = Inr (t', s') \<Longrightarrow>
   progressed (wt_id t) n (s_db s')"
  using reject_recorded [of sv s False t w code co ca now t' s'] recorded_progressed [of t "(t', w)" "s_db s'" n] by simp

lemma defer_progressed:
  assumes h: "at_hand sv s False t w" and j: "mark_pending_reference t nextAt now = Inr t1"
    and u: "update_transaction t1 s = Inr (v, s')"
  shows "progressed (wt_id t) (wt_attempts t + 1) (s_db s')"
proof -
  have "ready (sv_iso sv) (s_db s) False t1"
    using at_hand_step [OF h wager_step.pend [OF j]] by (simp add: at_hand_def)
  moreover have "save_transaction False t1 s = Inr (v, s')" using u by (simp add: save_transaction_def)
  ultimately have "txn_row_of t1 \<in> set (txns (s_db s'))" using save_recorded [OF h] by blast
  then show ?thesis using progressed_stored [of t1] j by (auto simp: mark_pending_reference_ok)
qed

lemma lock_pending_row:
  assumes inv: "db_inv iso4217 (s_db s)" and l: "lock_transaction iso4217 (wt_id t0) s = Inr (t, s1)"
    and r: "txn_row_of t0 \<in> set (txns (s_db s))" "wager_ok iso4217 t0"
  shows "t = t0"
proof -
  have "find_txn (wt_id t0) (s_db s) = Some (txn_row_of t0)"
    using find_txn_iff [OF db_invD(6) [OF inv]] r(1) by simp
  then show ?thesis using lock_transactionD [OF l] scan_txn_row [OF r(2)] by simp
qed

lemma resolve_tx_progress:
  assumes inv: "db_inv (sv_iso sv) (s_db s)" and r: "txn_row_of t \<in> set (txns (s_db s))"
    and t: "wager_ok (sv_iso sv) t" "wt_status t = StatusPendingReference"
    and p: "resolve_pending_tx sv (wt_id t) now s = Inr (u, s')"
  shows "progressed (wt_id t) (wt_attempts t + 1) (s_db s')"
proof -
  from p obtain t' s1 where l: "lock_transaction (sv_iso sv) (wt_id t) s = Inr (t', s1)"
    and k: "(if wt_status t' \<noteq> StatusPendingReference then tx_return ()
     else
       tx_bind (lock_wallet (sv_iso sv) (wt_wallet t')) (\<lambda>w.
       tx_bind (find_by_external_id (sv_iso sv) (wt_provider t') (wt_ref_external t')) (\<lambda>reference.
       if reference_is_pending reference then
         if sv_max_attempts sv \<le> wt_attempts t' then
           tx_bind (reject_tx sv t' w FailureReferenceNotFound (wt_id t') [] now False)
             (\<lambda>_. tx_return ())
         else
           tx_bind (tx_lift (mark_pending_reference t'
             (time_add now (service_backoff sv (wt_attempts t' + 1))) now)) (\<lambda>t'.
           update_transaction t')
       else
         tx_bind (resolved_tx sv t' w (the reference) (wt_id t') [] now False)
           (\<lambda>_. tx_return ())))) s1 = Inr (u, s')"
    unfolding resolve_pending_tx_def tx_bind_ok by blast
  have t': "t' = t" by (rule lock_pending_row [OF inv l r t(1)])
  from k [unfolded t'] t(2) obtain w s2 v s3 where w: "lock_wallet (sv_iso sv) (wt_wallet t) s1 = Inr (w, s2)"
    and f: "find_by_external_id (sv_iso sv) (wt_provider t) (wt_ref_external t) s2 = Inr (v, s3)"
    and m: "(if reference_is_pending v then
         if sv_max_attempts sv \<le> wt_attempts t then
           tx_bind (reject_tx sv t w FailureReferenceNotFound (wt_id t) [] now False)
             (\<lambda>_. tx_return ())
         else
           tx_bind (tx_lift (mark_pending_reference t
             (time_add now (service_backoff sv (wt_attempts t + 1))) now)) (\<lambda>t'.
           update_transaction t')
       else
         tx_bind (resolved_tx sv t w (the v) (wt_id t) [] now False)
           (\<lambda>_. tx_return ())) s3 = Inr (u, s')"
    by (simp add: tx_bind_ok) blast
  have l': "lock_transaction (sv_iso sv) (wt_id t) s = Inr (t, s1)" using l t' by simp
  note h = at_hand_db [OF locked_pending(3) [OF inv l' t(2) w]]
  have h3: "at_hand sv s3 False t w" by (rule h) (use find_by_external_idD [OF f] in simp)
  show ?thesis
  proof (cases "reference_is_pending v")
    case True
    with m show ?thesis
      by (auto simp: tx_bind_ok intro: defer_progressed [OF h3] reject_progressed [OF h3] split: if_splits)
  next
    case False
    with m show ?thesis by (auto simp: tx_bind_ok dest!: resolved_recorded [OF h3] intro: recorded_progressed)
  qed
qed


text \<open>Recording a failure, when nothing disturbs it.\<close>

lemma start_session_ids [simp]: "s_ids (start_session c d n) = c_ids c" "s_drawn (start_session c d n) = n"
  by (simp_all add: start_session_def)

lemma within_calm:
  "calm c \<Longrightarrow> m (start_session c d n) = Inr (x, s') \<Longrightarrow> steady s' \<Longrightarrow> deferred_ok d (s_db s') \<Longrightarrow>
   within_transaction c n m d = (Inr x, s_db s')"
  by (simp add: within_transaction_def calm_def steady_def exec_def start_session_def)

lemma record_failure_done:
  assumes inv: "db_inv (sv_iso sv) d" and ok: "stored_ok d" and c: "undisturbed c d"
    and b: "0 < sint (sv_base_backoff sv)" "sint (sv_base_backoff sv) \<le> sint (sv_max_backoff sv)"
      "sv_max_attempts sv \<le> 2147483647"
    and r: "r \<in> set (txns d)" "tr_status r = StatusPendingReference"
  shows "progressed (tr_id r) (tr_attempts r + 1) (snd (record_pending_reference_failure sv c (tr_id r) d))"
proof -
  obtain t w where t: "r = txn_row_of t" "new_txn_ok (sv_iso sv) t" "wt_status t = StatusPendingReference"
    and w: "wallet_row_of w \<in> set (wallets d)" "wallet_ok (sv_iso sv) w" "wallet_id w = wt_wallet t"
      "money_currency (wallet_balance w) = money_currency (wt_money t)"
    by (rule pending_row [OF inv ok r])
  let ?s = "start_session c d 0"
  have st: "steady ?s" and db: "s_db ?s = d" using c by (simp_all add: undisturbed_def start_session_def steady_def)
  have wok: "wager_ok (sv_iso sv) t" using t(2) by (simp add: new_txn_ok_def wager_inv_def)
  have rt: "txn_row_of t \<in> set (txns d)" using r(1) t(1) by simp
  have l: "lock_transaction (sv_iso sv) (wt_id t) ?s = Inr (t, ?s)"
    using find_txn_iff [OF db_invD(6) [OF inv], of "wt_id t" "txn_row_of t"] rt scan_txn_row [OF wok] st db
    by (simp add: lock_transaction_def select_steady)
  have lw: "lock_wallet (sv_iso sv) (wt_wallet t) ?s = Inr (w, ?s)"
    using lock_wallet_done [of "sv_iso sv" ?s w] db_invD(1) [OF inv] w(1,3) st db by simp
  have now: "c_now c \<noteq> 0" using c by (simp add: undisturbed_def)
  have upd: "update_transaction t' ?s = Inr ((), ?s\<lparr>s_db := d\<lparr>txns := put_txn t' (txns d)\<rparr>\<rparr>)"
    if "wager_step (sv_iso sv) t t'" "wt_ref_id t' = wt_ref_id t" "wt_status t' \<noteq> StatusProcessed"
      "wt_attempts t' \<le> 2147483647" for t'
    using amend_done [of "sv_iso sv" ?s t t'] inv st rt t that db by simp
  have put: "txn_row_of t' \<in> set (put_txn t' (txns d))" if "wager_identity t' = wager_identity t" for t'
    using rt that by (auto simp: put_txn_def set_update_where wager_identity_def intro!: bexI [of _ "txn_row_of t"])
  have "\<exists>s'. record_failure_tx sv (wt_id t) (c_now c) ?s = Inr ((), s') \<and> steady s' \<and>
      progressed (wt_id t) (wt_attempts t + 1) (s_db s')"
  proof (cases "wt_attempts t < sv_max_attempts sv")
    case True
    let ?next = "time_add (c_now c) (service_backoff sv (wt_attempts t + 1))"
    let ?t = "t\<lparr>wt_status := StatusPendingReference, wt_attempts := wt_attempts t + 1,
       wt_next := Some ?next, wt_updated := c_now c\<rparr>"
    have ref: "wt_ref_external t \<noteq> []" using wok t(3) by (auto simp: wager_ok_def status_ok_def)
    have "c_now c < ?next"
      using b(1,2) capped_doubling_bounds [of "sint (sv_base_backoff sv)" "sint (sv_max_backoff sv)" "wt_attempts t + 1"]
      by (simp add: time_add_def service_backoff_def reference_backoff_value)
    then have j: "mark_pending_reference t ?next (c_now c) = Inr ?t"
      using t(3) ref now by (simp add: mark_pending_reference_ok)
    note u = upd [OF wager_step.pend [OF j]]
    have "progressed (wt_id t) (wt_attempts t + 1) (d\<lparr>txns := put_txn ?t (txns d)\<rparr>)"
      using progressed_stored [of ?t] put [of ?t] by (simp add: wager_identity_def)
    with l lw t(3) True j u b(3) st show ?thesis by (simp add: record_failure_tx_def tx_bind_def tx_lift_def)
  next
    case False
    let ?t = "t\<lparr>wt_status := StatusFailed, wt_failure := FailureProcessingAttemptsExhausted,
       wt_result := Some (wallet_balance w), wt_next := None, wt_updated := c_now c\<rparr>"
    have j: "fail_wager (sv_iso sv) t FailureProcessingAttemptsExhausted (wallet_balance w) (c_now c) = Inr ?t"
      using t(3) w(2,4) now by (simp add: fail_wager_ok terminal_def terminal_status_def wallet_ok_def
          FailureProcessingAttemptsExhausted_def is_negative_int)
    note u = upd [OF wager_step.failed [OF j]]
    let ?s1 = "?s\<lparr>s_db := d\<lparr>txns := put_txn ?t (txns d)\<rparr>\<rparr>"
    have "oe_id ev \<noteq> c_ids c 0" if "ev \<in> set (events d)" for ev
      using supplied_fresh(4) [of "c_ids c" 0 d 0 ev] undisturbed_supply [OF c] that by simp
    then have e: "emit ty ag co ca (c_now c) dat ?s1 = Inr ((), ?s1\<lparr>s_drawn := Suc (s_drawn ?s1), s_db := s_db ?s1\<lparr>outbox := outbox (s_db ?s1) @
      [outbox_row_of (new_event (s_ids ?s1 (s_drawn ?s1)) ty ag co ca (c_now c) dat)]\<rparr>\<rparr>)" for ty ag co ca dat
      by (intro emit_done) (use st in \<open>simp_all add: events_def\<close>)
    have "progressed (wt_id t) (wt_attempts t + 1) (d\<lparr>txns := put_txn ?t (txns d)\<rparr>)"
      using progressed_stored [of ?t] put [of ?t] by (simp add: wager_identity_def terminal_def terminal_status_def)
    moreover have "wt_attempts t \<le> 2147483647" using t(2) by (simp add: new_txn_ok_def)
    ultimately show ?thesis using l lw t(3) False j u st e
      by (simp add: record_failure_tx_def tx_bind_def tx_lift_def progressed_def)
  qed
  then obtain s' where s': "record_failure_tx sv (wt_id t) (c_now c) ?s = Inr ((), s')" "steady s'"
    "progressed (wt_id t) (wt_attempts t + 1) (s_db s')" by blast
  have "db_inv (sv_iso sv) (s_db s')" using record_failure_txD [OF _ s'(1)] run_sound inv db by simp
  then have "record_pending_reference_failure sv c (wt_id t) d = (Inr (), s_db s')"
    using within_calm [of c "record_failure_tx sv (wt_id t) (c_now c)" d 0 "()" s'] s' c deferred_accepts
    by (simp add: record_pending_reference_failure_def undisturbed_def calm_def)
  with s'(3) t(1) show ?thesis by simp
qed

section \<open>Deciding within bounds\<close>

text \<open>
  One cycle of the worker: whatever becomes of the first call, the second is disturbed by
  nothing when it is made.
\<close>

lemma pending_stored:
  assumes "db_inv iso4217 d" and "stored_ok d" and "r \<in> set (txns d)" and "\<not> terminal_status (tr_status r)"
  obtains t where "r = txn_row_of t" "wager_ok iso4217 t" "wt_status t = StatusPendingReference"
  using assms pending_row [OF assms(1,2,3)] by (auto simp: stored_ok_def new_txn_ok_def wager_inv_def)

lemma resolve_one_progress:
  assumes inv: "db_inv (sv_iso sv) d" "stored_ok d"
    and later: "\<And>d1. d1 = snd (resolve_pending_reference sv (fst cs) tid d) \<Longrightarrow>
      db_inv (sv_iso sv) d1 \<and> stored_ok d1 \<and> undisturbed (snd cs) d1"
    and b: "0 < sint (sv_base_backoff sv)" "sint (sv_base_backoff sv) \<le> sint (sv_max_backoff sv)"
      "sv_max_attempts sv \<le> 2147483647"
    and p: "progressed tid n d"
  shows "progressed tid (n + 1) (resolve_one sv cs tid d)"
proof -
  from p obtain r where r: "r \<in> set (txns d)" "tr_id r = tid" "terminal_status (tr_status r) \<or> n \<le> tr_attempts r"
    by (auto simp: progressed_def)
  obtain res d1 where d1: "resolve_pending_reference sv (fst cs) tid d = (res, d1)" by fastforce
  have b1: "db_below d d1" using run_sound [OF resolve_run [OF inv(1) d1] inv(1)] by simp
  have I: "db_inv (sv_iso sv) d1" "stored_ok d1" "undisturbed (snd cs) d1" using later d1 by auto
  have b2: "db_below d1 (resolve_one sv cs tid d)"
    using run_sound [OF record_failure_run [OF I(1) prod.collapse [symmetric]] I(1), of "snd cs" tid] d1
    by (simp add: resolve_one_def split: sum.splits)
  show ?thesis
  proof (cases res)
    case (Inr u)
    show ?thesis
    proof (cases "terminal_status (tr_status r)")
      case True
      then have "progressed tid (n + 1) d" using r by (auto simp: progressed_def)
      from progressed_later [OF progressed_later [OF this b1] b2] show ?thesis .
    next
      case False
      then obtain t where t: "r = txn_row_of t" "wager_ok (sv_iso sv) t" "wt_status t = StatusPendingReference"
        using pending_stored [OF inv r(1)] by blast
      from d1 Inr obtain s s' where "s_db s = d" "resolve_pending_tx sv tid (c_now (fst cs)) s = Inr (u, s')" "d1 = s_db s'"
        by (auto simp: resolve_pending_reference_def within_transaction_def exec_def split: sum.splits prod.splits if_splits)
          (metis session.select_convs(1))+
      then have "progressed tid (tr_attempts r + 1) d1"
        using resolve_tx_progress [OF _ _ t(2,3)] inv(1) r t(1) by force
      then have "progressed tid (n + 1) d1" using r False by (auto simp: progressed_def)
      from progressed_later [OF this b2] show ?thesis .
    qed
  next
    case (Inl e)
    have p1: "progressed tid n d1" by (rule progressed_later [OF p b1])
    then obtain q where q: "q \<in> set (txns d1)" "tr_id q = tid" "terminal_status (tr_status q) \<or> n \<le> tr_attempts q"
      by (auto simp: progressed_def)
    show ?thesis
    proof (cases "terminal_status (tr_status q)")
      case True
      then have "progressed tid (n + 1) d1" using q by (auto simp: progressed_def)
      from progressed_later [OF this b2] show ?thesis .
    next
      case False
      then have "tr_status q = StatusPendingReference" using I(2) q(1) by (auto simp: stored_ok_def)
      from record_failure_done [OF I(1,2,3) b q(1) this] q(2,3) False
      have "progressed tid (n + 1) (snd (record_pending_reference_failure sv (snd cs) tid d1))"
        by (auto simp: progressed_def)
      with Inl d1 show ?thesis by (simp add: resolve_one_def)
    qed
  qed
qed

text \<open>\<open>n\<close> cycles on one transaction, with anything else in between.\<close>

inductive attended :: "service \<Rightarrow> string \<Rightarrow> nat \<Rightarrow> relay \<Rightarrow> relay \<Rightarrow> bool" for sv tid where
  start: "attended sv tid 0 st st"
| other: "attended sv tid n st st1 \<Longrightarrow> served sv st1 st2 \<Longrightarrow> attended sv tid n st st2"
| cycle: "attended sv tid n st (d, ms) \<Longrightarrow>
    undisturbed (snd cs) (snd (resolve_pending_reference sv (fst cs) tid d)) \<Longrightarrow>
    attended sv tid (Suc n) st (resolve_one sv cs tid d, ms)"

lemma reachable_served: "reachable sv st \<Longrightarrow> served sv st st' \<Longrightarrow> reachable sv st'"
  unfolding reachable_def by (rule rtranclp.rtrancl_into_rtrancl)

lemma reachable_resolve: "reachable sv (d, ms) \<Longrightarrow> reachable sv (snd (resolve_pending_reference sv c tid d), ms)"
  using reachable_served served.intros [of "ResolvePending c tid" sv "(d, ms)"] by simp

lemma reachable_resolve_one: "reachable sv (d, ms) \<Longrightarrow> reachable sv (resolve_one sv cs tid d, ms)"
proof -
  assume r: "reachable sv (d, ms)"
  obtain res d1 where d1: "resolve_pending_reference sv (fst cs) tid d = (res, d1)" by fastforce
  have r1: "reachable sv (d1, ms)" using reachable_resolve [OF r, of "fst cs" tid] d1 by simp
  have "reachable sv (snd (record_pending_reference_failure sv (snd cs) tid d1), ms)"
    using reachable_served [OF r1] served.intros [of "RecordFailure (snd cs) tid" sv "(d1, ms)"] by simp
  with r1 d1 show ?thesis by (simp add: resolve_one_def split: sum.splits)
qed

lemma attended_progress:
  assumes "attended sv tid n st st'" and "reachable sv st" and "progressed tid k (fst st)"
    and "0 < sint (sv_base_backoff sv)" and "sint (sv_base_backoff sv) \<le> sint (sv_max_backoff sv)"
    and "sv_max_attempts sv \<le> 2147483647"
  shows "reachable sv st' \<and> progressed tid (k + int n) (fst st')"
  using assms
proof (induction rule: attended.induct)
  case (other n st st1 st2)
  then have r: "reachable sv st1" and p: "progressed tid (k + int n) (fst st1)" by simp_all
  have "db_below (fst st1) (fst st2)"
    using served_run_below [of sv st1 st2] other.hyps(2) reachable_inv [OF r] by blast
  with p reachable_served [OF r other.hyps(2)] show ?case by (blast intro: progressed_later)
next
  case (cycle n st d ms cs)
  then have r: "reachable sv (d, ms)" and p: "progressed tid (k + int n) d" by simp_all
  let ?d1 = "snd (resolve_pending_reference sv (fst cs) tid d)"
  have r1: "reachable sv (?d1, ms)" by (rule reachable_resolve [OF r])
  have "progressed tid (k + int n + 1) (resolve_one sv cs tid d)"
    by (rule resolve_one_progress [OF _ _ _ cycle.prems(3-5) p])
      (use reachable_db_inv [OF r] reachable_stored [OF r] reachable_db_inv [OF r1] reachable_stored [OF r1]
        cycle.hyps(2) in simp_all)
  with reachable_resolve_one [OF r] show ?case by (simp add: add.commute add.left_commute)
qed simp

text \<open>A pass of the worker gives every due transaction of its batch a cycle.\<close>

fun batch_undisturbed :: "service \<Rightarrow> (call \<times> call) list \<Rightarrow> string list \<Rightarrow> db \<Rightarrow> bool" where
  "batch_undisturbed sv (cs # css) (tid # ids) d \<longleftrightarrow>
     undisturbed (snd cs) (snd (resolve_pending_reference sv (fst cs) tid d)) \<and>
     batch_undisturbed sv css ids (resolve_one sv cs tid d)"
| "batch_undisturbed sv _ _ d \<longleftrightarrow> True"

lemma attended_other_one:
  assumes "attended sv tid n st (d, ms)" shows "attended sv tid n st (resolve_one sv cs tid' d, ms)"
proof -
  obtain res d1 where d1: "resolve_pending_reference sv (fst cs) tid' d = (res, d1)" by fastforce
  have a1: "attended sv tid n st (d1, ms)"
    using attended.other [OF assms] served.intros [of "ResolvePending (fst cs) tid'" sv "(d, ms)"] d1 by simp
  have "attended sv tid n st (snd (record_pending_reference_failure sv (snd cs) tid' d1), ms)"
    using attended.other [OF a1] served.intros [of "RecordFailure (snd cs) tid'" sv "(d1, ms)"] by simp
  with a1 d1 show ?thesis by (simp add: resolve_one_def split: sum.splits)
qed

lemma attended_other_batch:
  "attended sv tid n st (d, ms) \<Longrightarrow> attended sv tid n st (resolve_batch sv css ids d, ms)"
  by (induction sv css ids d rule: resolve_batch.induct) (simp_all add: attended_other_one)

lemma batch_attends:
  "batch_undisturbed sv css ids d \<Longrightarrow> tid \<in> set (take (length css) ids) \<Longrightarrow> attended sv tid n st (d, ms) \<Longrightarrow>
   attended sv tid (Suc n) st (resolve_batch sv css ids d, ms)"
proof (induction sv css ids d rule: resolve_batch.induct)
  case (1 sv cs css tid' ids d)
  show ?case
  proof (cases "tid = tid'")
    case True
    with 1 show ?thesis using attended.cycle [of sv tid n st d ms cs] by (simp add: attended_other_batch)
  next
    case False
    with 1 show ?thesis by (simp add: attended_other_one)
  qed
qed simp_all

text \<open>Such calls exist, whatever the tables hold.\<close>

lemma undisturbed_exists: "\<exists>c. undisturbed c d"
proof -
  have "finite (used_ids d)" by (simp add: used_ids_def)
  then have "finite (length ` used_ids d)" by simp
  then obtain k where k: "\<And>i. i \<in> used_ids d \<Longrightarrow> length i < k"
    unfolding finite_nat_set_iff_bounded by blast
  let ?ids = "\<lambda>n. replicate (Suc (k + n)) CHR ''x''"
  have "inj_on ?ids A" for A
  proof (rule inj_onI)
    fix m n assume "?ids m = ?ids n"
    from arg_cong [OF this, of length] show "m = n" by simp
  qed
  moreover have "?ids n \<notin> used_ids d" for n using k [of "?ids n"] by auto
  ultimately have "undisturbed \<lparr>c_now = 1, c_ids = ?ids, c_fault = None, c_ack_lost = False\<rparr> d"
    by (simp add: undisturbed_def distinct_map)
  then show ?thesis by blast
qed

lemma batch_exists: "\<exists>css. length css = n \<and> batch_undisturbed sv css ids d"
proof (induction n arbitrary: ids d)
  case (Suc n)
  show ?case
  proof (cases ids)
    case Nil
    then show ?thesis by (intro exI [of _ "replicate (Suc n) undefined"]) simp
  next
    case (Cons tid ids')
    obtain c where c: "undisturbed c (snd (resolve_pending_reference sv undefined tid d))"
      using undisturbed_exists by blast
    obtain css where "length css = n" "batch_undisturbed sv css ids' (resolve_one sv (undefined, c) tid d)"
      using Suc by blast
    with c Cons show ?thesis by (intro exI [of _ "(undefined, c) # css"]) simp
  qed
qed simp

section \<open>Properties\<close>

text \<open>
  No transaction is attempted more often than the configured maximum allows, in any
  reachable state (one attempt is recorded when the transaction is stored).
\<close>

lemma attempts_bounded:
  assumes "reachable sv (d, ms)" and "r \<in> set (txns d)"
  shows "tr_attempts r \<le> max 1 (sv_max_attempts sv)"
  using reachable_attempts [OF assms(1)] assms(2) by (simp add: attempts_within_def attempt_bound_def)

lemma attempts_bounded_witness: "tr_attempts (txn_row_of bet_txn) \<le> 3"
  using attempts_bounded [OF reachable_bet, of "txn_row_of bet_txn"] by (simp add: db_bet_def)

text \<open>
  Passes of the worker that attend to a transaction, with anything else served in between: the
  transaction is decided, or it is due and among the \<open>limit\<close> oldest of the due ones; the pass
  works through its batch, and RecordPendingReferenceFailure is not disturbed in it.
\<close>

definition attends :: "nat \<Rightarrow> time \<Rightarrow> string \<Rightarrow> db \<Rightarrow> bool" where
  "attends limit now tid d \<longleftrightarrow>
     (\<exists>r \<in> set (txns d). tr_id r = tid \<and>
        (terminal_status (tr_status r) \<or>
         due now r \<and> length (filter (\<lambda>q. due now q \<and> due_key q < due_key r) (txns d)) < limit))"

inductive passes :: "service \<Rightarrow> string \<Rightarrow> nat \<Rightarrow> relay \<Rightarrow> relay \<Rightarrow> bool" for sv tid where
  start: "passes sv tid 0 st st"
| other: "passes sv tid n st st1 \<Longrightarrow> served sv st1 st2 \<Longrightarrow> passes sv tid n st st2"
| pass: "passes sv tid n st (d, ms) \<Longrightarrow> attends limit now tid d \<Longrightarrow> limit \<le> length css \<Longrightarrow>
    batch_undisturbed sv css (find_due_pending_references limit now d) d \<Longrightarrow>
    passes sv tid (Suc n) st (reference_pass sv limit now css d, ms)"

lemma stored_ids: "reachable sv (d, ms) \<Longrightarrow> distinct (map tr_id (txns d))"
  using keys_ok_distinct [OF db_invD(6) [OF reachable_db_inv]] by fastforce

lemma pass_progress:
  assumes r: "reachable sv (d, ms)" and p: "progressed tid k d" and a: "attends limit now tid d"
    and css: "limit \<le> length css" "batch_undisturbed sv css (find_due_pending_references limit now d) d"
    and b: "0 < sint (sv_base_backoff sv)" "sint (sv_base_backoff sv) \<le> sint (sv_max_backoff sv)"
      "sv_max_attempts sv \<le> 2147483647"
  shows "reachable sv (reference_pass sv limit now css d, ms) \<and> progressed tid (k + 1) (reference_pass sv limit now css d)"
proof -
  let ?d' = "reference_pass sv limit now css d"
  have run: "attended sv tid 0 (d, ms) (?d', ms)"
    unfolding reference_pass_def by (rule attended_other_batch [OF attended.start])
  from a obtain q where q: "q \<in> set (txns d)" "tr_id q = tid"
    and c: "terminal_status (tr_status q) \<or>
      due now q \<and> length (filter (\<lambda>x. due now x \<and> due_key x < due_key q) (txns d)) < limit"
    by (auto simp: attends_def)
  from c show ?thesis
  proof
    assume "terminal_status (tr_status q)"
    then have "progressed tid (k + 1) (fst (d, ms))" using q by (auto simp: progressed_def)
    from attended_progress [OF run r this b] show ?thesis by simp
  next
    assume "due now q \<and> length (filter (\<lambda>x. due now x \<and> due_key x < due_key q) (txns d)) < limit"
    then have "q \<in> set (selected limit now d)" using selected_rank [OF stored_ids [OF r] q(1)] by blast
    then have "tid \<in> set (find_due_pending_references limit now d)" using q(2) by (auto simp: find_due_selected)
    moreover have "length (find_due_pending_references limit now d) \<le> length css"
      using css(1) by (simp add: find_due_selected selected_due(3))
    ultimately have "tid \<in> set (take (length css) (find_due_pending_references limit now d))" by simp
    from batch_attends [OF css(2) this attended.start]
    have "attended sv tid 1 (d, ms) (?d', ms)" by (simp add: reference_pass_def)
    from attended_progress [OF this r _ b] p show ?thesis by simp
  qed
qed

lemma passes_progress:
  assumes "passes sv tid n st st'" and "reachable sv st" and "progressed tid k (fst st)"
    and "0 < sint (sv_base_backoff sv)" and "sint (sv_base_backoff sv) \<le> sint (sv_max_backoff sv)"
    and "sv_max_attempts sv \<le> 2147483647"
  shows "reachable sv st' \<and> progressed tid (k + int n) (fst st')"
  using assms
proof (induction rule: passes.induct)
  case (other n st st1 st2)
  then have r: "reachable sv st1" and p: "progressed tid (k + int n) (fst st1)" by simp_all
  have "db_below (fst st1) (fst st2)"
    using served_run_below [of sv st1 st2] other.hyps(2) reachable_inv [OF r] by blast
  with p reachable_served [OF r other.hyps(2)] show ?case by (blast intro: progressed_later)
next
  case (pass n st d ms limit now css)
  then have r: "reachable sv (d, ms)" and p: "progressed tid (k + int n) d" by simp_all
  from pass_progress [OF r p pass.hyps(2-4) pass.prems(3-5)] show ?case by (simp add: add.commute add.left_commute)
qed simp

text \<open>Such passes exist: a time at which the transaction is due, and room for all that are.\<close>

lemma attends_exists:
  assumes r: "reachable sv (d, ms)" and p: "progressed tid k d"
  shows "\<exists>limit now. attends limit now tid d"
proof -
  from p obtain q where q: "q \<in> set (txns d)" "tr_id q = tid" by (auto simp: progressed_def)
  have inv: "db_inv (sv_iso sv) d" "stored_ok d" using reachable_db_inv [OF r] reachable_stored [OF r] by simp_all
  show ?thesis
  proof (cases "terminal_status (tr_status q)")
    case True
    with q show ?thesis by (auto simp: attends_def)
  next
    case False
    obtain t where t: "q = txn_row_of t" "wager_ok (sv_iso sv) t" "wt_status t = StatusPendingReference"
      by (rule pending_stored [OF inv q(1) False])
    then obtain n where "wt_next t = Some n" by (auto simp: wager_ok_def status_ok_def)
    with t have "due n q" by (simp add: due_def)
    moreover have "length (filter (\<lambda>x. due n x \<and> due_key x < due_key q) (txns d)) < Suc (length (txns d))"
      by (simp add: le_imp_less_Suc)
    ultimately show ?thesis using q unfolding attends_def by blast
  qed
qed

lemma passes_exist:
  assumes "reachable sv st" and "progressed tid k (fst st)"
    and b: "0 < sint (sv_base_backoff sv)" "sint (sv_base_backoff sv) \<le> sint (sv_max_backoff sv)"
      "sv_max_attempts sv \<le> 2147483647"
  shows "\<exists>st'. passes sv tid n st st'"
proof (induction n)
  case 0
  then show ?case by (blast intro: passes.start)
next
  case (Suc n)
  then obtain d ms where a: "passes sv tid n st (d, ms)" by (metis prod.collapse)
  from passes_progress [OF a assms(1,2) b] obtain limit now where "attends limit now tid d"
    using attends_exists by (metis fst_conv)
  moreover obtain css where "length css = limit" "batch_undisturbed sv css (find_due_pending_references limit now d) d"
    using batch_exists by blast
  ultimately show ?case using passes.pass [OF a, of limit now css] by auto
qed

text \<open>
  C23: Every transaction that waits for its reference is decided, PROCESSED, REJECTED or FAILED,
  after more passes of the worker than attempts are left. The passes that count are those at
  whose time it is due and among the oldest due ones that the batch has room for (it is then
  selected, as the order and the limit of the query say), and in which every
  RecordPendingReferenceFailure that is called runs undisturbed; every call of
  ResolvePendingReference may fail, and anything may be served in between. The base backoff is
  positive, not above the maximum, and the maximum of attempts fits the column that counts them.
\<close>

theorem pending_is_decided:
  assumes "reachable sv (d, ms)" and "r \<in> set (txns d)"
    and "0 < sint (sv_base_backoff sv)" and "sint (sv_base_backoff sv) \<le> sint (sv_max_backoff sv)"
    and "sv_max_attempts sv \<le> 2147483647"
    and "passes sv (tr_id r) n (d, ms) (d', ms')"
    and "max 1 (sv_max_attempts sv) < tr_attempts r + int n"
  shows "\<exists>r' \<in> set (txns d'). tr_id r' = tr_id r \<and> terminal_status (tr_status r')"
proof -
  have "progressed (tr_id r) (tr_attempts r) (fst (d, ms))" using assms(2) by (auto simp: progressed_def)
  note p = passes_progress [OF assms(6,1) this assms(3-5)]
  then show ?thesis using reachable_attempts [of sv "(d', ms')"] assms(7)
    by (fastforce simp: progressed_def attempts_within_def attempt_bound_def)
qed

abbreviation wait_cmd :: wager_command where
  "wait_cmd \<equiv> sample_cmd KindRefund ''x3'' ''k3'' 2500 ''x9''"

definition wait_txn :: wager where
  "wait_txn = (sample_txn ''n0'' wait_cmd [] StatusPendingReference None 8)\<lparr>wt_attempts := 1, wt_next := Some 2000000008\<rparr>"

definition db_wait :: db where
  "db_wait = snd (process sample_service (sample_call 8 sample_ids) wait_cmd db_bet)"

lemma txns_wait: "txns db_wait = txns db_bet @ [txn_row_of wait_txn]"
proof -
  have d: "sint (service_backoff sample_service 1) = 2000000000"
    by (simp add: service_backoff_def reference_backoff_value capped_doubling_def)
  show ?thesis
    unfolding db_wait_def
    by (simp add: process_simps run_simps db_opened_def db_bet_def sample_entry_def min_int64_def txn_clash_def
     reference_is_pending_def mark_pending_reference_def terminal_def pending_event_def sample_ids_def time_add_def d
     wait_txn_def sample_txn_def txn_row_of_def)
qed

lemma reachable_wait: "reachable sample_service (db_wait, [])"
  by (rule reachable_serve [OF reachable_bet, where q = "ProcessWager (sample_call 8 sample_ids) wait_cmd"])
    (simp_all add: db_wait_def)

lemma pending_is_decided_witness:
  "\<exists>d' ms'. passes sample_service ''n0'' 3 (db_wait, []) (d', ms') \<and>
     (\<exists>r' \<in> set (txns d'). tr_id r' = ''n0'' \<and> terminal_status (tr_status r'))"
proof -
  have t: "tr_id (txn_row_of wait_txn) = ''n0''" "tr_attempts (txn_row_of wait_txn) = 1" by (simp_all add: wait_txn_def sample_txn_def)
  then have "progressed ''n0'' 1 (fst (db_wait, []))" by (auto simp: progressed_def txns_wait)
  then obtain d' ms' where a: "passes sample_service ''n0'' 3 (db_wait, []) (d', ms')"
    using passes_exist [OF reachable_wait, of "''n0''" 1 3] by auto
  with t pending_is_decided [OF reachable_wait, of "txn_row_of wait_txn" 3 d' ms'] show ?thesis
    by (auto simp: txns_wait)
qed

text \<open>
  C34: A pass of the reference worker takes the oldest due transactions: it selects as many of
  the due ones as the batch has room for, ordered by next attempt and identifier, and every one
  that it leaves out comes after all that it takes. Those that it works through before it is
  stopped are afterwards decided or have one attempt more, provided that
  RecordPendingReferenceFailure runs undisturbed where it is called.
\<close>

theorem reference_pass_progress:
  assumes "reachable sv (d, ms)"
    and "0 < sint (sv_base_backoff sv)" and "sint (sv_base_backoff sv) \<le> sint (sv_max_backoff sv)"
    and "sv_max_attempts sv \<le> 2147483647"
    and "batch_undisturbed sv css (find_due_pending_references limit now d) d"
  shows "\<exists>rs. find_due_pending_references limit now d = map tr_id rs \<and>
    set rs \<subseteq> {r \<in> set (txns d). due now r} \<and> distinct rs \<and> sorted (map due_key rs) \<and>
    length rs = min limit (length (filter (due now) (txns d))) \<and>
    (\<forall>q \<in> set (txns d). due now q \<and> q \<notin> set rs \<longrightarrow> (\<forall>r \<in> set rs. due_key r < due_key q)) \<and>
    (\<forall>r \<in> set (take (length css) rs). \<exists>r' \<in> set (txns (reference_pass sv limit now css d)).
      tr_id r' = tr_id r \<and> (terminal_status (tr_status r') \<or> tr_attempts r + 1 \<le> tr_attempts r'))"
proof (intro exI [of _ "selected limit now d"] conjI ballI impI)
  note ids = stored_ids [OF assms(1)]
  show "find_due_pending_references limit now d = map tr_id (selected limit now d)" by (rule find_due_selected)
  show "set (selected limit now d) \<subseteq> {r \<in> set (txns d). due now r}" by (rule selected_due)
  show "distinct (selected limit now d)" by (rule selected_due(4) [OF ids])
  show "sorted (map due_key (selected limit now d))" by (rule selected_due)
  show "length (selected limit now d) = min limit (length (filter (due now) (txns d)))" by (rule selected_due)
  show "due_key r < due_key q"
    if "q \<in> set (txns d)" "due now q \<and> q \<notin> set (selected limit now d)" "r \<in> set (selected limit now d)" for q r
    using selected_first [OF ids] that by blast
  show "\<exists>r' \<in> set (txns (reference_pass sv limit now css d)).
      tr_id r' = tr_id r \<and> (terminal_status (tr_status r') \<or> tr_attempts r + 1 \<le> tr_attempts r')"
    if r: "r \<in> set (take (length css) (selected limit now d))" for r
  proof -
    from r have m: "r \<in> set (txns d)" using selected_due(1) by (blast dest: in_set_takeD)
    have "tr_id r \<in> set (take (length css) (find_due_pending_references limit now d))"
      using r by (simp add: find_due_selected take_map)
    from batch_attends [OF assms(5) this attended.start]
    have a: "attended sv (tr_id r) 1 (d, ms) (reference_pass sv limit now css d, ms)" by (simp add: reference_pass_def)
    have "progressed (tr_id r) (tr_attempts r) (fst (d, ms))" using m by (auto simp: progressed_def)
    from attended_progress [OF a assms(1) this assms(2-4)] show ?thesis by (auto simp: progressed_def)
  qed
qed

lemma reference_pass_progress_witness:
  "\<exists>css. (\<exists>r' \<in> set (txns (reference_pass sample_service 5 2000000008 css db_wait)). tr_id r' = ''n0'' \<and>
      (terminal_status (tr_status r') \<or> 2 \<le> tr_attempts r'))"
proof -
  obtain css where c: "length css = 5"
    "batch_undisturbed sample_service css (find_due_pending_references 5 2000000008 db_wait) db_wait"
    using batch_exists by blast
  have t: "tr_id (txn_row_of wait_txn) = ''n0''" "tr_attempts (txn_row_of wait_txn) = 1" "due 2000000008 (txn_row_of wait_txn)"
    by (simp_all add: wait_txn_def sample_txn_def due_def)
  have l: "length (filter (due 2000000008) (txns db_wait)) \<le> 5"
    using length_filter_le [of "due 2000000008" "txns db_wait"] by (simp add: txns_wait db_bet_def)
  obtain rs where rs: "length rs = min 5 (length (filter (due 2000000008) (txns db_wait)))" "distinct rs"
      "set rs \<subseteq> {r \<in> set (txns db_wait). due 2000000008 r}"
    and p: "\<forall>r \<in> set (take (length css) rs). \<exists>r' \<in> set (txns (reference_pass sample_service 5 2000000008 css db_wait)).
      tr_id r' = tr_id r \<and> (terminal_status (tr_status r') \<or> tr_attempts r + 1 \<le> tr_attempts r')"
    using reference_pass_progress [OF reachable_wait _ _ _ c(2)] by auto
  have "card {r \<in> set (txns db_wait). due 2000000008 r} \<le> length rs"
    using card_length [of "filter (due 2000000008) (txns db_wait)"] l rs(1) by (simp add: set_filter)
  then have "set rs = {r \<in> set (txns db_wait). due 2000000008 r}"
    using rs(2,3) by (intro card_seteq) (simp_all add: distinct_card)
  then have "txn_row_of wait_txn \<in> set (take (length css) rs)" using t(3) c(1) rs(1) by (simp add: txns_wait)
  with p t show ?thesis by fastforce
qed

end
