(* ===== verification/Invariants.thy ===== *)
theory Invariants
  imports Pending
begin

text \<open>
  A predicate on the tables that every single statement keeps is kept by every use case, by
  every pass of the workers, and so holds in every reachable state. The contract is a locale;
  its first use are the primary keys of the ledger.
\<close>

section \<open>From statements to the whole service\<close>

locale statement_invariant =
  fixes P :: "db \<Rightarrow> bool"
  assumes writes_txns: "maintains P (insert_txn_row r)" "maintains P (update_transaction t)"
    and writes_wallets: "maintains P (insert_wallet w)" "maintains P (update_wallet w)"
    and writes_ledger: "maintains P (insert_ledger e)"
    and writes_outbox: "maintains P (insert_outbox ev)"
    and writes_inbox: "maintains P (claim_inbox i now)" "maintains P (complete_inbox_if x now)"
    and relays: "P (fst st) \<Longrightarrow> P (fst (relay_pass arrange worker limit lease now as st))"
    and empty: "P empty_db"
begin

lemma reads: "preserves (\<lambda>d. d) m \<Longrightarrow> maintains P m"
  by (simp add: preserves_def maintains_def)

lemmas statements = writes_txns writes_wallets writes_ledger writes_outbox writes_inbox
  maintains_basic maintains_then preserves_uuid [THEN reads] preserves_reads [THEN reads]
  inbox_reference [THEN reads] inbox_replay [THEN reads]

lemma save: "maintains P (save_transaction fresh t)"
  by (auto simp: save_transaction_def insert_transaction_def intro!: statements)

lemma emits: "maintains P (emit ty ag co ca now dat)"
  by (auto simp: emit_def intro!: statements)

lemma pending: "maintains P (pending_event t co ca now)"
  by (simp add: pending_event_def emits)

lemma reject: "maintains P (reject_tx sv t w code co ca now fresh)"
  by (auto simp: reject_tx_def intro!: statements save emits)

lemma settle: "maintains P (settle_tx sv t dir before after w co ca now fresh)"
  by (auto simp: settle_tx_def record_movement_def intro!: statements save emits split: option.splits)

lemma finalizes: "maintains P (finalize sv t w reference co ca now fresh)"
  by (auto simp: finalize_def intro!: statements reject settle split: sum.splits)

lemma decides: "maintains P (decide_tx sv t w reference co ca now fresh)"
  by (auto simp: decide_tx_def intro!: statements reject finalizes)

lemma resolves: "maintains P (resolved_tx sv t w r co ca now fresh)"
  by (auto simp: resolved_tx_def intro!: statements reject decides)

lemma records: "maintains P (record_new sv cmd t w co ca now)"
  by (auto simp: record_new_def insert_transaction_def intro!: statements reject decides resolves pending)

lemma processes: "maintains P (process_tx sv cmd co ca now)"
proof -
  have "maintains P (process_unclaimed sv cmd co ca now)"
    by (auto simp: process_unclaimed_def intro!: statements records split: option.splits)
  then show ?thesis by (auto simp: process_tx_def intro!: statements split: option.splits)
qed

lemma resolves_pending: "maintains P (resolve_pending_tx sv tid now)"
  by (auto simp: resolve_pending_tx_def intro!: statements reject resolves)

lemma records_failure: "maintains P (record_failure_tx sv tid now)"
  by (auto simp: record_failure_tx_def intro!: statements emits)

lemma creates: "maintains P (create_tx sv w m co now)"
  by (auto simp: create_tx_def insert_opening_def intro!: statements)

lemma committed: "maintains P m \<Longrightarrow> P d \<Longrightarrow> P (snd (within_transaction c n m d))"
  by (metis prod.collapse within_maintains)

lemma served_keeps:
  assumes "served sv st st'" and p: "P (fst st)" shows "P (fst st')"
proof -
  from assms(1) obtain q where q: "st' = serve sv q st" by (auto elim: servedE)
  show ?thesis
  proof (cases q)
    case (CreateWallet c cmd)
    obtain res d' where d': "create sv c cmd (fst st) = (res, d')" by fastforce
    then have "P d'"
      using p by (auto simp: create_def Let_def dest: within_maintains [OF creates]
          split: sum.splits prod.splits if_splits)
    with p q CreateWallet d' show ?thesis by simp
  next
    case (ProcessWager c cmd)
    with p q committed [OF processes] show ?thesis by (simp add: process_def Let_def)
  next
    case (ResolvePending c tid)
    with p q committed [OF resolves_pending] show ?thesis by (simp add: resolve_pending_reference_def)
  next
    case (RecordFailure c tid)
    with p q committed [OF records_failure] show ?thesis by (simp add: record_pending_reference_failure_def)
  next
    case (RelayOutbox arrange worker limit lease now as)
    with p q relays show ?thesis by simp
  qed
qed

lemma everywhere: "reachable sv st \<Longrightarrow> P (fst st)"
  unfolding reachable_def
  by (induction rule: rtranclp_induct) (use empty in \<open>simp, blast intro: served_keeps\<close>)

end

section \<open>The keys of the ledger\<close>

definition entry_ids :: "db \<Rightarrow> bool" where
  "entry_ids d \<longleftrightarrow> distinct (map lr_id (ledger d))"

lemma ids_preserved: "preserves ledger m \<Longrightarrow> maintains entry_ids m"
  unfolding maintains_def preserves_def entry_ids_def by metis

lemma ledger_writes:
  "preserves ledger (insert_txn_row r)" "preserves ledger (update_transaction t)"
  "preserves ledger (insert_wallet w)" "preserves ledger (update_wallet w)"
  "preserves ledger (insert_outbox ev)" "preserves ledger (claim_inbox i now)"
  "preserves ledger (complete_inbox_if x now)"
  using inbox_only_sel claim_inboxD complete_inbox_ifD
  by (auto simp: preserves_def dest!: statement_dests)

lemma relay_event_ledger [simp]: "ledger (fst (relay_event worker a ce st)) = ledger (fst st)"
  by (simp add: relay_event_def Let_def mark_outbox_published_def release_outbox_def)

lemma relay_events_ledger [simp]: "ledger (fst (relay_events worker as ces st)) = ledger (fst st)"
  by (induction worker as ces st rule: relay_events.induct) simp_all

interpretation entry_keys: statement_invariant entry_ids
proof
  show "maintains entry_ids (insert_ledger e)" for e
    by (auto simp: maintains_def entry_ids_def ledger_unique_def list_all_iff dest!: insert_ledgerD)
      metis
  show "entry_ids (fst (relay_pass arrange worker limit lease now as st))" if "entry_ids (fst st)"
    for arrange worker limit lease now as st
    using that by (simp add: relay_pass_def claim_outbox_def Let_def entry_ids_def)
qed (simp_all add: ids_preserved ledger_writes, simp add: entry_ids_def empty_db_def)

end
