(* ===== verification/Paging.thy ===== *)
theory Paging
  imports Cursor Invariants
begin

text \<open>
  The pages of a wallet's ledger: \<open>Store.ListLedger\<close> (\<open>postgres/store.go\<close>) and
  \<open>WalletService.Ledger\<close> (\<open>application/wallet_service.go\<close>), and the proof that
  following \<open>NextCursor\<close> reads every entry once, newest first.
\<close>

section \<open>One page\<close>

definition position :: "ledger_row \<Rightarrow> ledger_cursor" where
  "position l = \<lparr>cur_created = lr_created l, cur_id = lr_id l\<rparr>"

definition scan_ledger_row :: "(string \<Rightarrow> bool) \<Rightarrow> ledger_row \<Rightarrow> ledger_record res" where
  "scan_ledger_row iso4217 l =
     res_bind (new_money_from_minor iso4217 (lr_money l) (lr_currency l)) (\<lambda>m.
     res_bind (new_money_from_minor iso4217 (lr_before l) (lr_currency l)) (\<lambda>before.
     res_bind (new_money_from_minor iso4217 (lr_after l) (lr_currency l)) (\<lambda>after.
     Inr \<lparr>rec_id = lr_id l, rec_transaction = lr_transaction l, rec_direction = lr_direction l,
          rec_money = m, rec_before = before, rec_after = after, rec_created = lr_created l\<rparr>)))"

fun scan_rows :: "(string \<Rightarrow> bool) \<Rightarrow> ledger_row list \<Rightarrow> ledger_record list res" where
  "scan_rows iso4217 [] = Inr []"
| "scan_rows iso4217 (l # ls) =
     res_bind (scan_ledger_row iso4217 l) (\<lambda>r. res_bind (scan_rows iso4217 ls) (\<lambda>rs. Inr (r # rs)))"

text \<open>\<open>ORDER BY created_at DESC, id DESC\<close>\<close>

definition newest_first :: "ledger_row list \<Rightarrow> ledger_row list" where
  "newest_first ls = rev (sort_key position ls)"

definition list_ledger ::
    "cursor_readers \<Rightarrow> (string \<Rightarrow> bool) \<Rightarrow> string \<Rightarrow> ledger_cursor option \<Rightarrow> nat \<Rightarrow> db \<Rightarrow>
     ledger_record list res" where
  "list_ledger cr iso4217 wid cursor limit d =
     (let mine = filter (\<lambda>l. lr_wallet l = wid) (ledger d) in
      case cursor of
        None \<Rightarrow> scan_rows iso4217 (take limit (newest_first mine))
      | Some c \<Rightarrow>
          case cr_param cr (cur_id c) of
            None \<Rightarrow> Inl ErrDatabase
          | Some i \<Rightarrow>
              scan_rows iso4217
                (take limit (newest_first (filter (\<lambda>l. position l < c\<lparr>cur_id := i\<rparr>) mine))))"

record ledger_page =
  page_items :: "ledger_entry_view list"
  page_next :: string

definition page_limit :: "int \<Rightarrow> nat" where
  "page_limit limit = nat (min 100 (if limit \<le> 0 then 50 else limit))"

definition entry_view :: "ledger_record \<Rightarrow> ledger_entry_view" where
  "entry_view r =
     \<lparr>lv_id = rec_id r, lv_transaction = rec_transaction r, lv_direction = rec_direction r,
      lv_money = view_money (rec_money r), lv_before = view_money (rec_before r),
      lv_after = view_money (rec_after r), lv_created = rec_created r\<rparr>"

definition read_cursor :: "cursor_readers \<Rightarrow> string \<Rightarrow> ledger_cursor option res" where
  "read_cursor cr v =
     (if v = [] then Inr None
      else case decode_ledger_cursor cr v of None \<Rightarrow> Inl ErrInvalidCursor | Some c \<Rightarrow> Inr (Some c))"

definition ledger_pages ::
    "service \<Rightarrow> cursor_readers \<Rightarrow> string \<Rightarrow> string \<Rightarrow> int \<Rightarrow> db \<Rightarrow> ledger_page res" where
  "ledger_pages sv cr wid v limit d =
     res_bind (get_wallet (sv_iso sv) wid d) (\<lambda>_.
     res_bind (read_cursor cr v) (\<lambda>cursor.
     res_bind (list_ledger cr (sv_iso sv) wid cursor (page_limit limit + 1) d) (\<lambda>records.
     Inr \<lparr>page_items = map entry_view (take (page_limit limit) records),
          page_next =
            (if page_limit limit < length records
             then let last = records ! (page_limit limit - 1) in
               encode_ledger_cursor \<lparr>cur_created = rec_created last, cur_id = rec_id last\<rparr>
             else [])\<rparr>)))"

text \<open>What a client reads that follows \<open>NextCursor\<close> until it is empty.\<close>

fun follow_pages ::
    "nat \<Rightarrow> service \<Rightarrow> cursor_readers \<Rightarrow> string \<Rightarrow> string \<Rightarrow> int \<Rightarrow> db \<Rightarrow> ledger_page list option" where
  "follow_pages 0 sv cr wid v limit d = None"
| "follow_pages (Suc n) sv cr wid v limit d =
     (case ledger_pages sv cr wid v limit d of
        Inl _ \<Rightarrow> None
      | Inr p \<Rightarrow>
          if page_next p = [] then Some [p]
          else map_option ((#) p) (follow_pages n sv cr wid (page_next p) limit d))"

section \<open>Reading rows\<close>

definition ledger_record_of :: "ledger_row \<Rightarrow> ledger_record" where
  "ledger_record_of l =
     \<lparr>rec_id = lr_id l, rec_transaction = lr_transaction l, rec_direction = lr_direction l,
      rec_money = \<lparr>money_minor = lr_money l, money_currency = lr_currency l\<rparr>,
      rec_before = \<lparr>money_minor = lr_before l, money_currency = lr_currency l\<rparr>,
      rec_after = \<lparr>money_minor = lr_after l, money_currency = lr_currency l\<rparr>, rec_created = lr_created l\<rparr>"

definition row_view :: "ledger_row \<Rightarrow> ledger_entry_view" where
  "row_view l = entry_view (ledger_record_of l)"

lemma scan_rows_ok:
  "\<forall>l \<in> set ls. parse_currency iso4217 (lr_currency l) \<Longrightarrow> scan_rows iso4217 ls = Inr (map ledger_record_of ls)"
  by (induction ls) (simp_all add: scan_ledger_row_def new_money_from_minor_def ledger_record_of_def)

lemma ledger_currency:
  assumes inv: "db_inv iso4217 d" and l: "l \<in> set (ledger d)" shows "parse_currency iso4217 (lr_currency l)"
proof -
  have "ledger_foreign_keys d l" using inv l by (auto simp: db_inv_def ledger_inv_def)
  then obtain q where q: "q \<in> set (wallets d)" "wr_currency q = lr_currency l"
    by (auto simp: ledger_foreign_keys_def list_ex_iff)
  moreover obtain w where "q = wallet_row_of w" "wallet_ok iso4217 w"
    using q(1) db_invD(1) [OF inv] by (auto simp: wallets_inv_def)
  ultimately show ?thesis by (auto simp: wallet_ok_def)
qed

section \<open>The order\<close>

lemma set_newest_first [simp]: "set (newest_first ls) = set ls"
  and length_newest_first [simp]: "length (newest_first ls) = length ls"
  by (simp_all add: newest_first_def)

lemma newest_first_filter: "newest_first (filter p ls) = filter p (newest_first ls)"
  by (simp add: newest_first_def rev_filter flip: filter_sort)

lemma newest_first_pair: "position a \<le> position b \<Longrightarrow> newest_first [a, b] = [b, a]"
  by (simp add: newest_first_def)

lemma newest_first_strict:
  assumes "distinct (map lr_id ls)" shows "sorted_wrt (\<lambda>a b. position b < position a) (newest_first ls)"
proof -
  have "inj_on position (set ls)"
    using assms by (auto simp: inj_on_def position_def distinct_map)
  then have "distinct (map position (sort_key position ls))"
    using assms by (simp add: distinct_map)
  then have "sorted_wrt (<) (map position (sort_key position ls))"
    by (simp add: strict_sorted_iff)
  then show ?thesis by (simp add: newest_first_def sorted_wrt_rev sorted_wrt_map)
qed

lemma filter_below:
  assumes s: "sorted_wrt (\<lambda>a b. position b < position a) ls" and k: "0 < k" "k \<le> length ls"
  shows "filter (\<lambda>l. position l < position (ls ! (k - 1))) ls = drop k ls"
proof -
  let ?p = "\<lambda>l. position l < position (ls ! (k - 1))"
  have "\<not> ?p l" if "l \<in> set (take k ls)" for l
  proof -
    from that obtain i where i: "i < k" "l = ls ! i" using k by (auto simp: in_set_conv_nth)
    show ?thesis
    proof (cases "i = k - 1")
      case False
      then have "position (ls ! (k - 1)) < position l"
        using sorted_wrt_nth_less [OF s, of i "k - 1"] i k by simp
      then show ?thesis by simp
    qed (use i in simp)
  qed
  moreover have "?p l" if "l \<in> set (drop k ls)" for l
  proof -
    from that obtain i where "i < length ls - k" "l = ls ! (k + i)" by (auto simp: in_set_conv_nth)
    then have "k + i < length ls" "l = ls ! (k + i)" by simp_all
    then show ?thesis using sorted_wrt_nth_less [OF s, of "k - 1" "k + i"] k by simp
  qed
  ultimately have "filter ?p (take k ls) = []" "filter ?p (drop k ls) = drop k ls"
    by (simp_all add: filter_empty_conv)
  then show ?thesis by (metis append_Nil append_take_drop_id filter_append)
qed

section \<open>One page after another\<close>

text \<open>The stored entries can be named by a cursor.\<close>

definition nameable :: "cursor_readers \<Rightarrow> ledger_row \<Rightarrow> bool" where
  "nameable cr l \<longleftrightarrow>
     rfc3339_range (lr_created l) \<and> cr_uuid cr (lr_id l) \<and> cr_param cr (lr_id l) = Some (lr_id l) \<and> lr_id l \<noteq> []"

abbreviation entries_of :: "string \<Rightarrow> db \<Rightarrow> ledger_row list" where
  "entries_of wid d \<equiv> newest_first (filter (\<lambda>l. lr_wallet l = wid) (ledger d))"

text \<open>The text that stands before the entries from the \<open>k\<close>-th on.\<close>

definition cursor_at :: "ledger_row list \<Rightarrow> nat \<Rightarrow> string" where
  "cursor_at ls k = (if k = 0 then [] else encode_ledger_cursor (position (ls ! (k - 1))))"

lemma page_limit_bounds: "1 \<le> page_limit limit \<and> page_limit limit \<le> 100"
  unfolding page_limit_def by (cases "limit \<le> 0"; cases "100 \<le> limit") (simp_all add: nat_le_iff)

lemma list_ledger_at:
  assumes inv: "db_inv iso4217 d" "entry_ids d" and n: "\<forall>l \<in> set (entries_of wid d). nameable cr l"
    and k: "k \<le> length (entries_of wid d)"
  shows "\<exists>c. read_cursor cr (cursor_at (entries_of wid d) k) = Inr c \<and>
    list_ledger cr iso4217 wid c m d = Inr (map ledger_record_of (take m (drop k (entries_of wid d))))"
proof -
  let ?s = "entries_of wid d"
  have ok: "\<forall>l \<in> set (take m (drop i ?s)). parse_currency iso4217 (lr_currency l)" for i
    using ledger_currency [OF inv(1)] by (auto dest!: in_set_takeD in_set_dropD)
  show ?thesis
  proof (cases "k = 0")
    case True
    then show ?thesis using scan_rows_ok [OF ok [of 0]] by (simp add: cursor_at_def read_cursor_def list_ledger_def Let_def)
  next
    case False
    let ?l = "?s ! (k - 1)"
    have "?l \<in> set ?s" using False k by (intro nth_mem) simp
    then have l: "nameable cr ?l" using n by blast
    then have "decode_ledger_cursor cr (encode_ledger_cursor (position ?l)) = Some (position ?l)"
      using cursor_decodes [of "position ?l" cr] by (simp add: nameable_def position_def)
    then have r: "read_cursor cr (cursor_at ?s k) = Inr (Some (position ?l))"
      using False by (simp add: read_cursor_def cursor_at_def)
    have p: "cr_param cr (cur_id (position ?l)) = Some (cur_id (position ?l))"
      and u: "(position ?l)\<lparr>cur_id := cur_id (position ?l)\<rparr> = position ?l"
      using l by (simp_all add: nameable_def position_def)
    have "distinct (map lr_id (filter (\<lambda>l. lr_wallet l = wid) (ledger d)))"
      using inv(2) by (simp add: entry_ids_def distinct_map_filter)
    from filter_below [OF newest_first_strict [OF this], of k] False k
    have "filter (\<lambda>l. position l < position ?l) ?s = drop k ?s" by simp
    then have "list_ledger cr iso4217 wid (Some (position ?l)) m d = Inr (map ledger_record_of (take m (drop k ?s)))"
      using p u scan_rows_ok [OF ok [of k]] by (simp add: list_ledger_def Let_def newest_first_filter [symmetric])
    with r show ?thesis by blast
  qed
qed

lemma page_at:
  assumes inv: "db_inv (sv_iso sv) d" "entry_ids d" and n: "\<forall>l \<in> set (entries_of wid d). nameable cr l"
    and k: "k \<le> length (entries_of wid d)" and w: "get_wallet (sv_iso sv) wid d = Inr w"
    and m: "m = page_limit limit" and r: "r = drop k (entries_of wid d)"
  shows "ledger_pages sv cr wid (cursor_at (entries_of wid d) k) limit d =
    Inr \<lparr>page_items = map row_view (take m r),
      page_next = (if m < length r then cursor_at (entries_of wid d) (k + m) else [])\<rparr>"
proof -
  let ?s = "entries_of wid d"
  obtain c where c: "read_cursor cr (cursor_at ?s k) = Inr c"
    "list_ledger cr (sv_iso sv) wid c (m + 1) d = Inr (map ledger_record_of (take (m + 1) r))"
    using list_ledger_at [OF inv n k, of "m + 1"] r by auto
  have m1: "1 \<le> m" using page_limit_bounds [of limit] m by simp
  let ?x = "ledger_record_of (r ! (m - 1))"
  have x: "encode_ledger_cursor \<lparr>cur_created = rec_created ?x, cur_id = rec_id ?x\<rparr> = cursor_at ?s (k + m)"
    if "m < length r"
    using that m1 r by (simp add: cursor_at_def position_def ledger_record_of_def)
  have last: "map ledger_record_of (take (m + 1) r) ! (m - 1) = ?x" if "m < length r"
    using that m1 by simp
  have more: "m < length (map ledger_record_of (take (m + 1) r)) \<longleftrightarrow> m < length r" by auto
  have items: "map entry_view (take m (map ledger_record_of (take (m + 1) r))) =
      map row_view (take m r)"
    by (simp add: take_map min_def row_view_def)
  show ?thesis using w c
    by (simp only: ledger_pages_def m [symmetric] res_bind_simps more items last x Let_def)
      (use x last in simp)
qed

lemma follow_from:
  assumes inv: "db_inv (sv_iso sv) d" "entry_ids d" and n: "\<forall>l \<in> set (entries_of wid d). nameable cr l"
    and w: "get_wallet (sv_iso sv) wid d = Inr w"
  shows "k \<le> length (entries_of wid d) \<Longrightarrow> length (entries_of wid d) < k + fuel \<Longrightarrow>
    \<exists>pages. follow_pages fuel sv cr wid (cursor_at (entries_of wid d) k) limit d = Some pages \<and>
      concat (map page_items pages) = map row_view (drop k (entries_of wid d)) \<and>
      (\<forall>p \<in> set (butlast pages). length (page_items p) = page_limit limit)"
proof (induction fuel arbitrary: k)
  case (Suc fuel)
  let ?s = "entries_of wid d" and ?m = "page_limit limit"
  note p = page_at [OF inv n Suc.prems(1) w refl refl, of limit]
  show ?case
  proof (cases "?m < length (drop k ?s)")
    case False
    then show ?thesis using p by simp
  next
    case True
    then have "k + ?m \<le> length ?s" "length ?s < k + ?m + fuel"
      using Suc.prems page_limit_bounds [of limit] by simp_all
    from Suc.IH [OF this] obtain pages where
      i: "follow_pages fuel sv cr wid (cursor_at ?s (k + ?m)) limit d = Some pages"
      "concat (map page_items pages) = map row_view (drop (k + ?m) ?s)"
      "\<forall>p \<in> set (butlast pages). length (page_items p) = ?m" by blast
    have ne: "cursor_at ?s (k + ?m) \<noteq> []" using page_limit_bounds [of limit] by (simp add: cursor_at_def)
    have "drop k ?s = take ?m (drop k ?s) @ drop (k + ?m) ?s"
      by (metis add.commute append_take_drop_id drop_drop)
    then have "map row_view (drop k ?s) =
        map row_view (take ?m (drop k ?s)) @
        map row_view (drop (k + ?m) ?s)" by (metis map_append)
    with p True i ne show ?thesis by (auto simp: take_map)
  qed
qed simp

section \<open>Properties\<close>

lemma get_wallet_stored:
  assumes inv: "db_inv iso4217 d" and q: "q \<in> set (wallets d)" shows "\<exists>w. get_wallet iso4217 (wr_id q) d = Inr w"
proof -
  obtain w where w: "q = wallet_row_of w" "wallet_ok iso4217 w"
    using q db_invD(1) [OF inv] by (auto simp: wallets_inv_def)
  have "find_wallet (wr_id q) d = Some q"
    using stored_wallet(1) [OF db_invD(1) [OF inv]] q w(1) by simp
  then show ?thesis using w by (auto simp: get_wallet_def scan_wallet_ok)
qed

text \<open>
  C31: A client that follows NextCursor from the first page until it is empty reads every entry
  of the wallet's ledger exactly once, newest first, whatever page size it asks for: the pages
  are the answer of one query without a limit, and all but the last are full.
\<close>

theorem pages_are_the_ledger:
  assumes "reachable sv (d, ms)" and "q \<in> set (wallets d)"
    and "\<And>l. l \<in> set (ledger d) \<Longrightarrow> lr_wallet l = wr_id q \<Longrightarrow> nameable cr l"
  shows "\<exists>pages. follow_pages (Suc (length (ledger d))) sv cr (wr_id q) [] limit d = Some pages \<and>
    concat (map page_items pages) =
      map row_view (newest_first (filter (\<lambda>l. lr_wallet l = wr_id q) (ledger d))) \<and>
    (\<forall>p \<in> set (butlast pages). length (page_items p) = page_limit limit)"
proof -
  have inv: "db_inv (sv_iso sv) d" using reachable_db_inv [OF assms(1)] by simp
  have ids: "entry_ids d" using entry_keys.everywhere [OF assms(1)] by simp
  obtain w where "get_wallet (sv_iso sv) (wr_id q) d = Inr w" using get_wallet_stored [OF inv assms(2)] by blast
  from follow_from [OF inv ids _ this, of cr 0 "Suc (length (ledger d))" limit] assms(3)
  show ?thesis by (simp add: cursor_at_def less_Suc_eq_le)
qed

lemma pages_are_the_ledger_witness:
  "\<exists>pages. follow_pages 3 sample_service \<lparr>cr_uuid = (\<lambda>i. i \<noteq> []), cr_param = Some, cr_layout = (\<lambda>_. None)\<rparr>
       ''w'' [] 1 db_bet = Some pages \<and>
     map lv_id (concat (map page_items pages)) = [''l1'', ''l0'']"
proof -
  let ?cr = "\<lparr>cr_uuid = (\<lambda>i. i \<noteq> []), cr_param = Some, cr_layout = (\<lambda>_. None)\<rparr>"
  have n: "nameable ?cr l" if "l \<in> set (ledger db_bet)" for l
    using that by (auto simp: nameable_def db_bet_def sample_entry_def rfc3339_range_def days_before_def second_ticks_def)
  from pages_are_the_ledger [OF reachable_bet _ n, of "sample_row 7500 2 6" 1] obtain pages where
    p: "follow_pages 3 sample_service ?cr ''w'' [] 1 db_bet = Some pages"
      "concat (map page_items pages) =
        map row_view (newest_first (filter (\<lambda>l. lr_wallet l = ''w'') (ledger db_bet)))"
    by (auto simp: db_bet_def numeral_3_eq_3)
  let ?a = "sample_entry ''l0'' ''t0'' DirectionCredit 10000 0 10000 5"
  let ?b = "sample_entry ''l1'' ''t1'' DirectionDebit 2500 10000 7500 6"
  have "filter (\<lambda>l. lr_wallet l = ''w'') (ledger db_bet) = [?a, ?b]"
    by (simp add: db_bet_def sample_entry_def)
  moreover have "position ?a \<le> position ?b"
    by (simp add: less_eq_ledger_cursor_ext_def position_def sample_entry_def)
  ultimately have "newest_first (filter (\<lambda>l. lr_wallet l = ''w'') (ledger db_bet)) = [?b, ?a]"
    by (simp only: newest_first_pair)
  moreover have "lv_id (row_view ?a) = ''l0''" "lv_id (row_view ?b) = ''l1''"
    by (simp_all add: row_view_def entry_view_def ledger_record_of_def sample_entry_def)
  ultimately have "map lv_id (concat (map page_items pages)) = [''l1'', ''l0'']"
    unfolding p(2) by (simp only: list.map)
  with p(1) show ?thesis by (intro exI conjI)
qed

text \<open>
  The page of a wallet that is not stored is ErrNotFound, and of a stored wallet with a
  text that is no cursor ErrInvalidCursor; a page that is answered holds at most 100 entries
  and at most as many as were asked for.
\<close>

lemma page_refused_or_bounded:
  shows "(find_wallet wid d = None \<longrightarrow> ledger_pages sv cr wid v limit d = Inl ErrNotFound) \<and>
    (get_wallet (sv_iso sv) wid d = Inr w \<and> v \<noteq> [] \<and> decode_ledger_cursor cr v = None \<longrightarrow>
      ledger_pages sv cr wid v limit d = Inl ErrInvalidCursor) \<and>
    (ledger_pages sv cr wid v limit d = Inr p \<longrightarrow>
      length (page_items p) \<le> 100 \<and> (0 < limit \<longrightarrow> int (length (page_items p)) \<le> limit))"
proof -
  have "length (page_items p) \<le> page_limit limit" if "ledger_pages sv cr wid v limit d = Inr p"
    using that by (auto simp: ledger_pages_def)
  moreover have "0 < limit \<Longrightarrow> int (page_limit limit) \<le> limit" by (simp add: page_limit_def)
  ultimately show ?thesis using page_limit_bounds [of limit]
    by (auto simp: ledger_pages_def get_wallet_def read_cursor_def)
qed

lemma page_refused_or_bounded_witness:
  "ledger_pages sample_service \<lparr>cr_uuid = (\<lambda>i. i \<noteq> []), cr_param = Some, cr_layout = (\<lambda>_. None)\<rparr> ''w'' ''!'' 1 db_bet =
     Inl ErrInvalidCursor"
proof -
  let ?cr = "\<lparr>cr_uuid = (\<lambda>i. i \<noteq> []), cr_param = Some, cr_layout = (\<lambda>_. None)\<rparr> :: cursor_readers"
  have "sextet_val CHR ''!'' = None" by (simp add: sextet_val_def b64_alphabet_def)
  then have "decode_ledger_cursor ?cr ''!'' = None"
    by (simp add: decode_ledger_cursor_def raw_url_decode_def)
  moreover obtain w where "get_wallet (sv_iso sample_service) ''w'' db_bet = Inr w"
    using get_wallet_stored [of "\<lambda>c. c = ''BRL''" db_bet "sample_row 7500 2 6"] reachable_db_inv [OF reachable_bet]
    by (auto simp: db_bet_def)
  ultimately show ?thesis using page_refused_or_bounded [of "''w''" db_bet sample_service ?cr "''!''" 1] by simp
qed

end
