(* ===== verification/Consumer.thy ===== *)
theory Consumer
  imports Paging
begin

text \<open>
  The SQS consumer (\<open>messaging/consumer.go\<close>): one delivery of a message, as the calls it
  makes to the queue and its effect on the tables; the schedule of its retries; and its
  composition with the service: what is deleted was committed, and a redelivery is harmless.
\<close>

section \<open>Messages\<close>

type_synonym int32 = "32 word"

record wager_envelope =
  we_message :: string
  we_type :: string
  we_occurred :: time
  we_provider :: string
  we_external :: string
  we_key :: string
  we_player :: string
  we_wallet :: string
  we_round :: string
  we_game :: string
  we_kind :: string
  we_amount :: string
  we_currency :: string
  we_ref_external :: string

text \<open>
  The settings the consumer reads, and what it takes from libraries: the decoder of a JSON
  body, the validator of the tags of \<open>wagerEnvelope\<close>, and the hexadecimal SHA-256 digest.
\<close>

record consumer =
  co_decode :: "string \<Rightarrow> wager_envelope option"
  co_valid :: "wager_envelope \<Rightarrow> bool"
  co_digest :: "string \<Rightarrow> string"
  co_visibility :: int32
  co_max_receives :: int
  co_retry_base :: duration
  co_retry_max :: duration
  co_post_commit :: duration

record sqs_message =
  sm_receipt :: string
  sm_body :: string
  sm_attributes :: "string \<rightharpoonup> string"

datatype queue_call = ChangeVisibility string int32 | DeleteMessage string

definition consumer_name :: string where
  "consumer_name = ''wager-transaction-consumer-v1''"

text \<open>\<open>strconv.Atoi\<close>\<close>

definition atoi :: "string \<Rightarrow> int option" where
  "atoi s =
     (let sign = (if s \<noteq> [] \<and> hd s = CHR ''-'' then - 1 else 1);
          ds = (if s \<noteq> [] \<and> (hd s = CHR ''-'' \<or> hd s = CHR ''+'') then tl s else s);
          n = sign * int (numeral_val ds)
      in if ds \<noteq> [] \<and> list_all is_digit ds \<and> int64_range n then Some n else None)"

definition approximate_receive_count :: "sqs_message \<Rightarrow> int" where
  "approximate_receive_count m =
     (case sm_attributes m ''ApproximateReceiveCount'' of
        None \<Rightarrow> 1
      | Some v \<Rightarrow> (case atoi v of None \<Rightarrow> 1 | Some n \<Rightarrow> if n < 1 then 1 else n))"

section \<open>One delivery\<close>

text \<open>\<open>int32((delay + time.Second - 1) / time.Second)\<close>\<close>

definition retry_seconds :: "consumer \<Rightarrow> int \<Rightarrow> bool \<Rightarrow> int32" where
  "retry_seconds co receives permanent =
     (let delay = (if permanent \<or> co_max_receives co \<le> receives then 0
                   else retry_delay (co_retry_base co) (co_retry_max co) receives)
      in word_of_int (sint (go_div (delay + second - 1) second)))"

definition schedule_retry :: "consumer \<Rightarrow> sqs_message \<Rightarrow> bool \<Rightarrow> queue_call" where
  "schedule_retry co m permanent =
     ChangeVisibility (sm_receipt m) (retry_seconds co (approximate_receive_count m) permanent)"

definition command_of_envelope :: "consumer \<Rightarrow> string \<Rightarrow> wager_envelope \<Rightarrow> money \<Rightarrow> wager_command" where
  "command_of_envelope co body env m =
     \<lparr>cmd_provider = we_provider env, cmd_external = we_external env, cmd_key = we_key env,
      cmd_player = we_player env, cmd_wallet = we_wallet env, cmd_round = we_round env,
      cmd_game = we_game env, cmd_kind = kind_of_string (we_kind env), cmd_money = m,
      cmd_ref_external = we_ref_external env, cmd_correlation = we_message env,
      cmd_inbox = Some \<lparr>in_consumer = consumer_name, in_message = we_message env, in_hash = co_digest co body\<rparr>\<rparr>"

definition permanent_error :: "err \<Rightarrow> bool" where
  "permanent_error e \<longleftrightarrow>
     e = ErrInboxPayloadConflict \<or> e = ErrIdempotencyPayloadConflict \<or>
     e = ErrExternalTransactionConflict \<or> e = ErrInvalidTransaction \<or> e = ErrInvalidMoney"

text \<open>
  The circumstances of a delivery: the call of \<open>Process\<close>, the ticks of the heartbeat while
  it ran, whether the worker was being stopped when it failed, and whether it was stopped
  during the delay after the commit.
\<close>

record handling =
  hd_call :: call
  hd_beats :: nat
  hd_stopped :: bool
  hd_interrupted :: bool

text \<open>The command of a message, when it is one.\<close>

definition command_of_body :: "service \<Rightarrow> consumer \<Rightarrow> string \<Rightarrow> wager_command option" where
  "command_of_body sv co body =
     (case co_decode co body of
        None \<Rightarrow> None
      | Some env \<Rightarrow>
          if \<not> co_valid co env then None
          else case parse_money (sv_iso sv) (we_amount env) (we_currency env) of
            Inl _ \<Rightarrow> None
          | Inr m \<Rightarrow> Some (command_of_envelope co body env m))"

definition handle_message ::
    "service \<Rightarrow> consumer \<Rightarrow> handling \<Rightarrow> sqs_message \<Rightarrow> db \<Rightarrow> queue_call list \<times> db" where
  "handle_message sv co h m d =
     (case command_of_body sv co (sm_body m) of
        None \<Rightarrow> ([schedule_retry co m True], d)
      | Some cmd \<Rightarrow>
          let beats = replicate (hd_beats h) (ChangeVisibility (sm_receipt m) (co_visibility co)) in
          case process sv (hd_call h) cmd d of
            (Inl e, d') \<Rightarrow>
              (beats @ [if hd_stopped h then ChangeVisibility (sm_receipt m) 0
                        else schedule_retry co m (permanent_error e)], d')
          | (Inr _, d') \<Rightarrow>
              if 0 <s co_post_commit co \<and> hd_interrupted h then (beats, d')
              else (beats @ [DeleteMessage (sm_receipt m)], d'))"

section \<open>The schedule of the retries\<close>

lemma sint_of_int32: "- 2147483648 \<le> n \<Longrightarrow> n \<le> 2147483647 \<Longrightarrow> sint (word_of_int n :: int32) = n"
  by (simp add: signed_take_bit_int_eq_self sint_sbintrunc')

definition ceil_seconds :: "int \<Rightarrow> int" where
  "ceil_seconds n = (n + 999999999) div 1000000000"

lemma ceil_seconds_mono: "m \<le> n \<Longrightarrow> ceil_seconds m \<le> ceil_seconds n"
  by (simp add: ceil_seconds_def zdiv_mono1)

lemma zdiv_le_dividend': "0 \<le> (a :: int) \<Longrightarrow> 0 < b \<Longrightarrow> a div b \<le> a"
  using zdiv_mono2 [of a 1 b] by simp

lemma ceil_seconds_value:
  assumes "0 \<le> sint delay" and "sint delay \<le> 9223372035854775807"
  shows "sint (go_div (delay + second - 1) second) = ceil_seconds (sint delay)"
proof -
  have s: "sint (delay + second - 1) = sint delay + 999999999"
  proof -
    have "sint (delay + 999999999) = sint delay + 999999999"
      using sint_add_exact [of delay 999999999] assms by (simp add: int64_range_def)
    then show ?thesis by (simp add: second_def add.commute)
  qed
  let ?q = "(sint delay + 999999999) div 1000000000"
  have "0 \<le> ?q" using assms by (simp add: pos_imp_zdiv_nonneg_iff)
  moreover have "?q \<le> sint delay + 999999999" using assms by (intro zdiv_le_dividend') simp_all
  ultimately have "int64_range ?q" using assms by (auto simp: int64_range_def)
  moreover have "go_div (delay + second - 1) second = word_of_int ?q"
    unfolding go_div_def s using assms(1) by simp
  ultimately show ?thesis by (simp add: sint_of_int_exact ceil_seconds_def)
qed

lemma retry_seconds_value:
  assumes b: "0 < sint (co_retry_base co)" "sint (co_retry_base co) \<le> sint (co_retry_max co)"
    and m: "sint (co_retry_max co) \<le> 2147483647000000000"
  shows "sint (retry_seconds co n permanent) =
    (if permanent \<or> co_max_receives co \<le> n then 0
     else ceil_seconds (capped_doubling (sint (co_retry_base co)) (sint (co_retry_max co)) n))"
proof -
  let ?d = "if permanent \<or> co_max_receives co \<le> n then 0 else retry_delay (co_retry_base co) (co_retry_max co) n"
  note v = retry_delay_value [OF b(1), of "co_retry_max co" n]
  note c = capped_doubling_bounds [OF b, of n]
  have d: "0 \<le> sint ?d" "sint ?d \<le> 2147483647000000000" using v c b m by auto
  then have "sint (go_div (?d + second - 1) second) = ceil_seconds (sint ?d)"
    by (intro ceil_seconds_value) linarith+
  moreover have "0 \<le> ceil_seconds (sint ?d)" "ceil_seconds (sint ?d) \<le> 2147483647"
    using ceil_seconds_mono [OF d(1)] ceil_seconds_mono [OF d(2)] by (simp_all add: ceil_seconds_def)
  moreover have "retry_seconds co n permanent = word_of_int (sint (go_div (?d + second - 1) second))"
    by (simp only: retry_seconds_def Let_def)
  ultimately have "sint (retry_seconds co n permanent) = ceil_seconds (sint ?d)"
    by (simp only: sint_of_int32)
  then show ?thesis using v by (simp add: ceil_seconds_def)
qed

text \<open>
  The bound on the maximum matters: nothing in the configuration imposes it, and one second
  more makes the visibility negative.
\<close>

lemma oversized_retry_wraps:
  assumes "co_retry_base co = 2147483648000000000" and "co_retry_max co = 2147483648000000000"
    and "1 < co_max_receives co"
  shows "sint (retry_seconds co 1 False) = - 2147483648"
proof -
  have d: "retry_delay (co_retry_base co) (co_retry_max co) 1 = 2147483648000000000"
    using assms(1,2) by (simp add: retry_delay_def retry_loop.simps)
  have "sint (go_div (2147483648000000000 + second - 1) second) = 2147483648"
    using ceil_seconds_value [of 2147483648000000000] by (simp add: ceil_seconds_def)
  then show ?thesis using assms(3) d
    by (simp only: retry_seconds_def Let_def simp_thms if_False not_le) simp
qed

section \<open>Deliveries and the service\<close>

lemma handle_served:
  assumes "handle_message sv co h m d = (calls, d')"
  shows "(served sv)\<^sup>*\<^sup>* (d, ms) (d', ms)"
proof (cases "command_of_body sv co (sm_body m)")
  case None
  with assms show ?thesis by (simp add: handle_message_def)
next
  case (Some cmd)
  then have "d' = snd (process sv (hd_call h) cmd d)"
    using assms by (auto simp: handle_message_def Let_def split: sum.splits prod.splits if_splits)
  then show ?thesis
    using served.intros [of "ProcessWager (hd_call h) cmd" sv "(d, ms)"] by auto
qed

lemma command_inbox: "command_of_body sv co body = Some cmd \<Longrightarrow>
  \<exists>i. cmd_inbox cmd = Some i \<and> in_hash i = co_digest co body"
  by (auto simp: command_of_body_def command_of_envelope_def split: option.splits sum.splits if_splits)

text \<open>What a commit, reported or not, leaves behind.\<close>

definition committed :: "service \<Rightarrow> wager_command \<Rightarrow> db \<Rightarrow> bool" where
  "committed sv cmd d \<longleftrightarrow>
     (\<exists>t. stored_as sv cmd d t) \<and> (\<forall>i. cmd_inbox cmd = Some i \<longrightarrow> delivered i d)"

lemma process_commits:
  assumes inv: "db_inv (sv_iso sv) d" "inbox_inv d" and p: "process sv c cmd d = (res, d')"
    and r: "(\<exists>x. res = Inr x) \<or> d' \<noteq> d"
  shows "committed sv cmd d'" and "sv_valid sv cmd"
proof -
  let ?c = "c\<lparr>c_ack_lost := False\<rparr>"
  obtain x where q: "process sv ?c cmd d = (Inr x, d')"
    using p r
    by (auto simp: process_def Let_def within_transaction_def exec_def split: sum.splits prod.splits if_splits)
  show "committed sv cmd d'"
    using process_stored [OF inv(1) q] process_inbox [OF inv(2) q] by (auto simp: committed_def)
  show "sv_valid sv cmd" using q by (simp add: process_def split: if_splits)
qed

lemma handle_commits:
  assumes inv: "db_inv (sv_iso sv) d" "inbox_inv d" and h: "handle_message sv co h m d = (calls, d')"
    and r: "DeleteMessage rc \<in> set calls \<or> d' \<noteq> d"
  shows "\<exists>cmd. command_of_body sv co (sm_body m) = Some cmd \<and> committed sv cmd d' \<and> sv_valid sv cmd"
proof (cases "command_of_body sv co (sm_body m)")
  case None
  with h r show ?thesis by (auto simp: handle_message_def schedule_retry_def)
next
  case (Some cmd)
  obtain res d1 where p: "process sv (hd_call h) cmd d = (res, d1)" by fastforce
  then have "d1 = d'" "(\<exists>x. res = Inr x) \<or> d' \<noteq> d"
    using Some h r by (auto simp: handle_message_def Let_def schedule_retry_def split: sum.splits if_splits)
  with process_commits [OF inv p] Some show ?thesis by auto
qed

section \<open>A delivery\<close>

definition sample_envelope :: wager_envelope where
  "sample_envelope =
     \<lparr>we_message = ''m1'', we_type = ''WagerTransactionRequested'', we_occurred = 5, we_provider = ''v'',
      we_external = ''x1'', we_key = ''k1'', we_player = ''p'', we_wallet = ''w'', we_round = ''r'', we_game = ''g'',
      we_kind = ''BET'', we_amount = ''25.00'', we_currency = ''BRL'', we_ref_external = []\<rparr>"

definition sample_consumer :: consumer where
  "sample_consumer =
     \<lparr>co_decode = (\<lambda>b. if b = ''bet'' then Some sample_envelope else None), co_valid = (\<lambda>_. True),
      co_digest = (\<lambda>b. b), co_visibility = 30, co_max_receives = 5, co_retry_base = 2000000000,
      co_retry_max = 120000000000, co_post_commit = 0\<rparr>"

definition sample_message :: "string \<Rightarrow> string \<Rightarrow> string \<Rightarrow> sqs_message" where
  "sample_message receipt body receives =
     \<lparr>sm_receipt = receipt, sm_body = body, sm_attributes = [''ApproximateReceiveCount'' \<mapsto> receives]\<rparr>"

definition sample_handling :: "call \<Rightarrow> handling" where
  "sample_handling c = \<lparr>hd_call = c, hd_beats = 1, hd_stopped = False, hd_interrupted = False\<rparr>"

lemma sample_handling_sel [simp]:
  "hd_call (sample_handling c) = c" "hd_beats (sample_handling c) = 1" "\<not> hd_stopped (sample_handling c)"
  "\<not> hd_interrupted (sample_handling c)"
  "sm_receipt (sample_message receipt body receives) = receipt" "sm_body (sample_message receipt body receives) = body"
  "co_visibility sample_consumer = 30" "co_post_commit sample_consumer = 0"
  "co_max_receives sample_consumer = 5" "co_retry_base sample_consumer = 2000000000"
  "co_retry_max sample_consumer = 120000000000"
  by (simp_all add: sample_handling_def sample_message_def sample_consumer_def)

definition message_cmd :: wager_command where
  "message_cmd = bet_cmd\<lparr>cmd_correlation := ''m1'',
     cmd_inbox := Some \<lparr>in_consumer = consumer_name, in_message = ''m1'', in_hash = ''bet''\<rparr>\<rparr>"

lemma parse_25 [simp]: "parse_money (\<lambda>c. c = ''BRL'') ''25.00'' ''BRL'' = Inr (brl 2500)"
  unfolding parse_money_iff
  by (simp add: is_negative_def money_amount_def amount_magnitude_def format_magnitude_def sless_iff_sint
      format_nat.simps)

lemma sample_command: "command_of_body sample_service sample_consumer ''bet'' = Some message_cmd"
  by (simp add: command_of_body_def sample_consumer_def sample_envelope_def command_of_envelope_def
      message_cmd_def sample_cmd_def kind_of_string_def)

definition bet_call :: call where
  "bet_call = sample_call 6 [''t1'', ''l1'', ''e2'', ''e3'']"

definition db_message :: db where
  "db_message = snd (process sample_service bet_call message_cmd db_opened)"

lemma message_hash: "wager_payload_hash sample_service message_cmd = wager_payload_hash sample_service bet_cmd"
  by (simp add: sample_hash message_cmd_def)

lemma sample_process_message:
  "process sample_service bet_call message_cmd db_opened = (Inr (result_from bet_txn (brl 7500) False), db_message)"
proof -
  have "fst (process sample_service bet_call message_cmd db_opened) = Inr (result_from bet_txn (brl 7500) False)"
    unfolding process_def process_tx_def process_unclaimed_def external_of_command_def message_hash
    by (simp add: bet_call_def message_cmd_def process_simps run_simps claim_inbox_def complete_inbox_def inbox_match_def
      consumer_name_def db_opened_def sample_entry_def min_int64_def txn_clash_def sample_txn_def txn_row_of_def)
  then show ?thesis by (simp add: db_message_def prod_eq_iff)
qed

lemma sample_delivery:
  "handle_message sample_service sample_consumer (sample_handling bet_call) (sample_message ''rc'' ''bet'' ''1'') db_opened =
     ([ChangeVisibility ''rc'' 30, DeleteMessage ''rc''], db_message)"
  by (simp add: handle_message_def sample_command sample_process_message sless_iff_sint)

section \<open>Properties\<close>

text \<open>
  C24: The consumer deletes a message only after its command is committed: whenever a delivery
  asks the queue to delete, the receipt is the one of this message, its body is a valid
  command, the transaction of that command is stored and the message is recorded as completed.
\<close>

theorem deleted_means_committed:
  assumes "reachable sv (d, ms)" and "handle_message sv co h m d = (calls, d')"
    and "DeleteMessage rc \<in> set calls"
  shows "rc = sm_receipt m \<and> (\<exists>cmd t i. command_of_body sv co (sm_body m) = Some cmd \<and> stored_as sv cmd d' t \<and>
    cmd_inbox cmd = Some i \<and> delivered i d')"
proof -
  have inv: "db_inv (sv_iso sv) d" "inbox_inv d" using reachable_db_inv reachable_inbox assms(1) by fastforce+
  have "rc = sm_receipt m"
    using assms(2,3) by (auto simp: handle_message_def Let_def schedule_retry_def split: option.splits sum.splits prod.splits if_splits)
  moreover obtain cmd where "command_of_body sv co (sm_body m) = Some cmd" "committed sv cmd d'"
    using handle_commits [OF inv assms(2)] assms(3) by blast
  ultimately show ?thesis using command_inbox by (fastforce simp: committed_def)
qed

lemma deleted_means_committed_witness:
  "\<exists>t i. stored_as sample_service message_cmd db_message t \<and> cmd_inbox message_cmd = Some i \<and> delivered i db_message"
  using deleted_means_committed [OF reachable_opened sample_delivery, of "''rc''"] by (simp add: sample_command)

text \<open>
  C25: Delivering a message again is harmless: once a delivery committed (even if the
  acknowledgement was lost, the deletion failed or the worker was stopped before it), every
  later delivery of the same body, after any other requests, changes nothing and deletes the
  message when nothing disturbs it.
\<close>

theorem redelivery_is_harmless:
  assumes "reachable sv (d, ms)" and "handle_message sv co h m d = (calls, d1)"
    and "DeleteMessage rc \<in> set calls \<or> d1 \<noteq> d" and "(served sv)\<^sup>*\<^sup>* (d1, ms) (d2, ms2)"
    and "sm_body m' = sm_body m" and "calm (hd_call h')" and "\<not> hd_interrupted h'"
  shows "handle_message sv co h' m' d2 =
    (replicate (hd_beats h') (ChangeVisibility (sm_receipt m') (co_visibility co)) @ [DeleteMessage (sm_receipt m')], d2)"
proof -
  have inv: "db_inv (sv_iso sv) d" "inbox_inv d" using reachable_db_inv reachable_inbox assms(1) by fastforce+
  obtain cmd t where cmd: "command_of_body sv co (sm_body m) = Some cmd" "sv_valid sv cmd"
    and t: "stored_as sv cmd d1 t" "\<And>i. cmd_inbox cmd = Some i \<Longrightarrow> delivered i d1"
    using handle_commits [OF inv assms(2,3)] by (auto simp: committed_def)
  have run: "(served sv)\<^sup>*\<^sup>* (d, ms) (d1, ms)" by (rule handle_served [OF assms(2)])
  have sys: "system_inv sv (d1, ms)" by (rule system.run_inv [OF run reachable_inv [OF assms(1)]])
  have inv1: "db_inv (sv_iso sv) d1" using sys by (simp add: system_inv_def)
  have ib: "inbox_inv d1" using served_run_inbox [OF run] inv(2) by simp
  have "same_request cmd cmd" by (simp add: same_request_def)
  from committed_replay [OF inv1 ib t sys assms(4) this cmd(2) assms(6)]
  obtain r where "process sv (hd_call h') cmd d2 = (Inr r, d2)" by blast
  with cmd(1) assms(5,7) show ?thesis by (simp add: handle_message_def Let_def)
qed

lemma redelivery_is_harmless_witness:
  "handle_message sample_service sample_consumer (sample_handling (sample_call 9 [])) (sample_message ''rc2'' ''bet'' ''2'') db_message =
     ([ChangeVisibility ''rc2'' 30, DeleteMessage ''rc2''], db_message)"
  using redelivery_is_harmless [OF reachable_opened sample_delivery, of "''rc''" db_message "[]"
      "sample_message ''rc2'' ''bet'' ''2''" "sample_handling (sample_call 9 [])"]
  by (simp add: calm_def sample_call_def)

text \<open>
  C33: Every delivery is settled as its outcome says. A body that is no command is made visible
  at once. After a command that was answered the message is deleted, unless the worker is
  stopped in the delay after the commit. After one that failed its visibility is set, to zero
  exactly when the worker stops, the error is permanent or the receive count is used up, and
  otherwise to the capped exponential delay in whole seconds, between one second and the
  maximum, when the base delay is positive, not above the maximum, and the maximum fits 32 bits
  of seconds. Before that come only the renewals of the heartbeat.
\<close>

theorem every_delivery_is_settled:
  assumes "handle_message sv co h m d = (calls, d')"
    and "0 < sint (co_retry_base co)" and "sint (co_retry_base co) \<le> sint (co_retry_max co)"
    and "sint (co_retry_max co) \<le> 2147483647000000000"
    and "beats = replicate (hd_beats h) (ChangeVisibility (sm_receipt m) (co_visibility co))"
  shows "(command_of_body sv co (sm_body m) = None \<longrightarrow> calls = [ChangeVisibility (sm_receipt m) 0]) \<and>
    (\<forall>cmd r. command_of_body sv co (sm_body m) = Some cmd \<and> fst (process sv (hd_call h) cmd d) = Inr r \<longrightarrow>
      calls = beats @ (if 0 <s co_post_commit co \<and> hd_interrupted h then [] else [DeleteMessage (sm_receipt m)])) \<and>
    (\<forall>cmd e. command_of_body sv co (sm_body m) = Some cmd \<and> fst (process sv (hd_call h) cmd d) = Inl e \<longrightarrow>
      (\<exists>v. calls = beats @ [ChangeVisibility (sm_receipt m) v] \<and>
        (if hd_stopped h \<or> permanent_error e \<or> co_max_receives co \<le> approximate_receive_count m then v = 0
         else sint v = ceil_seconds (capped_doubling (sint (co_retry_base co)) (sint (co_retry_max co))
                (approximate_receive_count m)) \<and>
           1 \<le> sint v \<and> sint v \<le> ceil_seconds (sint (co_retry_max co)))))"
proof -
  let ?n = "approximate_receive_count m"
  note v = retry_seconds_value [OF assms(2-4), of ?n]
  note c = capped_doubling_bounds [OF assms(2,3), of ?n]
  have low: "1 \<le> ceil_seconds (capped_doubling (sint (co_retry_base co)) (sint (co_retry_max co)) ?n)"
    using c assms(2) ceil_seconds_mono [of 1] by (fastforce simp: ceil_seconds_def)
  have high: "ceil_seconds (capped_doubling (sint (co_retry_base co)) (sint (co_retry_max co)) ?n) \<le>
      ceil_seconds (sint (co_retry_max co))"
    using c by (intro ceil_seconds_mono) simp
  have zero: "retry_seconds co ?n b = 0" if "b \<or> co_max_receives co \<le> ?n" for b
    using v [of b] that by (simp add: signed_eq_0_iff)
  show ?thesis
  proof (intro conjI allI impI)
    show "calls = [ChangeVisibility (sm_receipt m) 0]" if "command_of_body sv co (sm_body m) = None"
      using assms(1) that zero by (simp add: handle_message_def schedule_retry_def)
    show "calls = beats @ (if 0 <s co_post_commit co \<and> hd_interrupted h then [] else [DeleteMessage (sm_receipt m)])"
      if "command_of_body sv co (sm_body m) = Some cmd \<and> fst (process sv (hd_call h) cmd d) = Inr r" for cmd r
      using assms(1,5) that by (auto simp: handle_message_def Let_def split: prod.splits if_splits)
    show "\<exists>v. calls = beats @ [ChangeVisibility (sm_receipt m) v] \<and>
        (if hd_stopped h \<or> permanent_error e \<or> co_max_receives co \<le> ?n then v = 0
         else sint v = ceil_seconds (capped_doubling (sint (co_retry_base co)) (sint (co_retry_max co)) ?n) \<and>
           1 \<le> sint v \<and> sint v \<le> ceil_seconds (sint (co_retry_max co)))"
      if "command_of_body sv co (sm_body m) = Some cmd \<and> fst (process sv (hd_call h) cmd d) = Inl e" for cmd e
    proof -
      have "calls = beats @ [if hd_stopped h then ChangeVisibility (sm_receipt m) 0
          else schedule_retry co m (permanent_error e)]"
        using assms(1,5) that by (auto simp: handle_message_def Let_def split: prod.splits if_splits)
      then show ?thesis
        using zero [of "permanent_error e"] v [of "permanent_error e"] low high
        by (cases "permanent_error e") (simp_all add: schedule_retry_def)
    qed
  qed
qed

text \<open>A body that is no envelope, and a command that meets a database that does not answer.\<close>

lemma every_delivery_is_settled_witness:
  "fst (handle_message sample_service sample_consumer (sample_handling bet_call)
     (sample_message ''rc'' ''{'' ''2'') db_opened) = [ChangeVisibility ''rc'' 0] \<and>
   (\<exists>v. fst (handle_message sample_service sample_consumer (sample_handling (bet_call\<lparr>c_fault := Some 0\<rparr>))
     (sample_message ''rc'' ''bet'' ''2'') db_opened) = [ChangeVisibility ''rc'' 30, ChangeVisibility ''rc'' v] \<and>
     1 \<le> sint v \<and> sint v \<le> 120)"
proof
  have "0 < sint (co_retry_base sample_consumer)" "sint (co_retry_base sample_consumer) \<le> sint (co_retry_max sample_consumer)"
    "sint (co_retry_max sample_consumer) \<le> 2147483647000000000" by simp_all
  note settled = every_delivery_is_settled [OF prod.collapse [symmetric] this refl]
  have "command_of_body sample_service sample_consumer ''{'' = None"
    by (simp add: command_of_body_def sample_consumer_def)
  then show "fst (handle_message sample_service sample_consumer (sample_handling bet_call)
     (sample_message ''rc'' ''{'' ''2'') db_opened) = [ChangeVisibility ''rc'' 0]"
    using settled [where sv = sample_service and h = "sample_handling bet_call" and m = "sample_message ''rc'' ''{'' ''2''" and d = db_opened] by simp
  let ?h = "sample_handling (bet_call\<lparr>c_fault := Some 0\<rparr>)" and ?m = "sample_message ''rc'' ''bet'' ''2''"
  have "fst (process sample_service (bet_call\<lparr>c_fault := Some 0\<rparr>) message_cmd db_opened) = Inl ErrDatabase"
    by (simp add: process_def Let_def within_transaction_def exec_def)
  moreover have "approximate_receive_count ?m = 2"
    unfolding approximate_receive_count_def sample_message_def by code_simp
  ultimately obtain v where "fst (handle_message sample_service sample_consumer ?h ?m db_opened) =
      [ChangeVisibility ''rc'' 30, ChangeVisibility ''rc'' v]" "1 \<le> sint v" "sint v \<le> ceil_seconds 120000000000"
    using conjunct2 [OF conjunct2 [OF settled [where sv = sample_service and h = ?h and m = ?m and d = db_opened]], rule_format, of message_cmd ErrDatabase]
    by (auto simp: sample_command permanent_error_def)
  then show "\<exists>v. fst (handle_message sample_service sample_consumer ?h ?m db_opened) =
      [ChangeVisibility ''rc'' 30, ChangeVisibility ''rc'' v] \<and> 1 \<le> sint v \<and> sint v \<le> 120"
    by (auto simp: ceil_seconds_def)
qed

end
