(* ===== verification/Auth.thy ===== *)
theory Auth
  imports Consumer
begin

text \<open>
  Authentication (\<open>infrastructure/auth/auth.go\<close>): the bearer token of a request, the
  principal read from its claims, the middleware and the role check.
\<close>

section \<open>White space\<close>

text \<open>The UTF-8 encodings of the characters of \<open>unicode.IsSpace\<close>.\<close>

definition space_texts :: "string list" where
  "space_texts =
     [[CHR 0x09], [CHR 0x0A], [CHR 0x0B], [CHR 0x0C], [CHR 0x0D], [CHR 0x20],
      [CHR 0xC2, CHR 0x85], [CHR 0xC2, CHR 0xA0], [CHR 0xE1, CHR 0x9A, CHR 0x80],
      [CHR 0xE2, CHR 0x80, CHR 0xA8], [CHR 0xE2, CHR 0x80, CHR 0xA9], [CHR 0xE2, CHR 0x80, CHR 0xAF],
      [CHR 0xE2, CHR 0x81, CHR 0x9F], [CHR 0xE3, CHR 0x80, CHR 0x80]] @
     map (\<lambda>n. [CHR 0xE2, CHR 0x80, char_of (0x80 + n)]) [0..<11]"

definition space_at :: "string \<Rightarrow> nat" where
  "space_at s = (case find (\<lambda>sp. take (length sp) s = sp) space_texts of None \<Rightarrow> 0 | Some sp \<Rightarrow> length sp)"

text \<open>\<open>strings.TrimSpace\<close>: the right end is read through the reversed text.\<close>

definition space_end :: "string \<Rightarrow> nat" where
  "space_end s =
     (case find (\<lambda>sp. take (length sp) s = rev sp) space_texts of None \<Rightarrow> 0 | Some sp \<Rightarrow> length sp)"

function strip_with :: "(string \<Rightarrow> nat) \<Rightarrow> string \<Rightarrow> string" where
  "strip_with f s = (if f s = 0 \<or> s = [] then s else strip_with f (drop (f s) s))"
  by pat_completeness auto
termination
  by (relation "measure (\<lambda>(f, s). length s)") auto

declare strip_with.simps [simp del]

definition trim_space :: "string \<Rightarrow> string" where
  "trim_space s = rev (strip_with space_end (rev (strip_with space_at s)))"

text \<open>\<open>strings.Fields\<close>\<close>

function fields_from :: "string \<Rightarrow> string \<Rightarrow> string list" where
  "fields_from word s =
     (let flush = (if word = [] then [] else [word]) in
      case s of
        [] \<Rightarrow> flush
      | c # cs \<Rightarrow>
          if space_at s = 0 then fields_from (word @ [c]) cs
          else flush @ fields_from [] (drop (space_at s) s))"
  by pat_completeness auto
termination
  by (relation "measure (\<lambda>(w, s). length s)") auto

declare fields_from.simps [simp del]

definition split_fields :: "string \<Rightarrow> string list" where
  "split_fields s = fields_from [] s"

definition ascii_lower :: "char \<Rightarrow> char" where
  "ascii_lower c = (if 65 \<le> (of_char c :: nat) \<and> (of_char c :: nat) \<le> 90 then char_of (of_char c + 32 :: nat) else c)"

text \<open>
  \<open>strings.EqualFold(s, "Bearer")\<close>: no letter of this word folds to one outside ASCII.
\<close>

definition is_bearer :: "string \<Rightarrow> bool" where
  "is_bearer s \<longleftrightarrow> map ascii_lower s = ''bearer''"

section \<open>Principals\<close>

text \<open>
  A verified token: its subject and its claims as raw JSON texts, \<open>None\<close> when they are no
  object. The verifier of \<open>go-oidc\<close> (absent until the provider was discovered) and the
  JSON decoders of a string and of the roles are parameters.
\<close>

record id_token =
  tk_subject :: string
  tk_claims :: "(string \<rightharpoonup> string) option"

record authenticator =
  au_issuer :: string
  au_discovery :: string
  au_provider_claim :: string
  au_internal_role :: string
  au_verifier :: "(string \<Rightarrow> id_token option) option"
  au_string :: "string \<Rightarrow> string option"
  au_roles :: "string \<Rightarrow> string list option"

record principal =
  pc_subject :: string
  pc_provider :: string
  pc_roles :: "string set"

definition has_role :: "principal \<Rightarrow> string \<Rightarrow> bool" where
  "has_role p role \<longleftrightarrow> role \<in> pc_roles p"

definition principal_of :: "authenticator \<Rightarrow> id_token \<Rightarrow> principal option" where
  "principal_of au token =
     (case tk_claims token of
        None \<Rightarrow> None
      | Some claims \<Rightarrow>
          (case (case claims (au_provider_claim au) of None \<Rightarrow> Some [] | Some raw \<Rightarrow> au_string au raw) of
             None \<Rightarrow> None
           | Some provider \<Rightarrow>
               map_option (\<lambda>roles. \<lparr>pc_subject = tk_subject token, pc_provider = provider, pc_roles = set roles\<rparr>)
                 (case claims ''realm_access'' of None \<Rightarrow> Some [] | Some raw \<Rightarrow> au_roles au raw)))"

text \<open>A refusal is the status and the code of the answer.\<close>

type_synonym refusal = "nat \<times> string"

definition authenticate :: "authenticator \<Rightarrow> string \<Rightarrow> refusal + principal" where
  "authenticate au header =
     (case split_fields header of
        [scheme, token] \<Rightarrow>
          if \<not> is_bearer scheme then Inl (401, ''AUTHENTICATION_REQUIRED'')
          else (case au_verifier au of
             None \<Rightarrow> Inl (503, ''IDENTITY_UNAVAILABLE'')
           | Some verify \<Rightarrow>
               (case verify token of
                  None \<Rightarrow> Inl (401, ''INVALID_TOKEN'')
                | Some t \<Rightarrow>
                    (case principal_of au t of
                       None \<Rightarrow> Inl (401, ''INVALID_TOKEN_CLAIMS'')
                     | Some p \<Rightarrow> Inr p)))
      | _ \<Rightarrow> Inl (401, ''AUTHENTICATION_REQUIRED''))"

definition require_internal :: "authenticator \<Rightarrow> principal \<Rightarrow> refusal + principal" where
  "require_internal au p =
     (if has_role p (au_internal_role au) then Inr p else Inl (403, ''INTERNAL_ROLE_REQUIRED''))"

section \<open>Discovery\<close>

definition discovery_base :: "authenticator \<Rightarrow> string" where
  "discovery_base au = (if au_discovery au = [] then au_issuer au else au_discovery au)"

text \<open>The hook of \<open>New\<close>: discovery, a parameter, gives the verifier or fails the start.\<close>

definition start_authenticator ::
    "(string \<Rightarrow> (string \<Rightarrow> id_token option) option) \<Rightarrow> authenticator \<Rightarrow> authenticator option" where
  "start_authenticator discover au =
     map_option (\<lambda>verify. au\<lparr>au_verifier := Some verify\<rparr>) (discover (discovery_base au))"

text \<open>\<open>Check\<close>: true when it returns no error; \<open>fetch\<close> is the status of a GET, if it answers.\<close>

definition check_identity :: "(string \<Rightarrow> nat option) \<Rightarrow> authenticator \<Rightarrow> bool" where
  "check_identity fetch au \<longleftrightarrow>
     au_verifier au \<noteq> None \<and>
     fetch (rev (dropWhile (\<lambda>c. c = CHR ''/'') (rev (discovery_base au))) @ ''/.well-known/openid-configuration'') =
       Some 200"

lemma authenticate_ok:
  "authenticate au header = Inr p \<longleftrightarrow>
     (\<exists>scheme token verify t. split_fields header = [scheme, token] \<and> is_bearer scheme \<and>
        au_verifier au = Some verify \<and> verify token = Some t \<and> principal_of au t = Some p)"
  by (auto simp: authenticate_def split: list.splits option.splits if_splits)

lemma fields_example: "split_fields ''  Bearer   abc '' = [''Bearer'', ''abc'']"
  by code_simp

lemma trim_example: "trim_space '' k1 '' = ''k1''"
  by code_simp

end
