(* ===== verification/Provenance.thy ===== *)
theory Provenance
  imports Consumer
begin

text \<open>
  Whose transactions a command touches: \<open>Process\<close> only appends to the transactions, and
  only rows of the provider that sent the command.
\<close>

definition appended :: "string \<Rightarrow> db \<Rightarrow> db \<Rightarrow> bool" where
  "appended prov d d' \<longleftrightarrow> (\<exists>rs. txns d' = txns d @ rs \<and> (\<forall>r \<in> set rs. tr_provider r = Some prov))"

lemma appended_refl: "txns d' = txns d \<Longrightarrow> appended prov d d'"
  by (simp add: appended_def)

lemma appended_trans: "appended prov d d' \<Longrightarrow> appended prov d' d'' \<Longrightarrow> appended prov d d''"
proof -
  assume "appended prov d d'" "appended prov d' d''"
  then obtain rs qs where "txns d' = txns d @ rs" "\<forall>r \<in> set rs. tr_provider r = Some prov"
    "txns d'' = txns d' @ qs" "\<forall>r \<in> set qs. tr_provider r = Some prov" by (auto simp: appended_def)
  then show ?thesis unfolding appended_def by (intro exI [of _ "rs @ qs"]) auto
qed

definition appends_for :: "string \<Rightarrow> 'a tx \<Rightarrow> bool" where
  "appends_for prov m \<longleftrightarrow> (\<forall>s x s'. m s = Inr (x, s') \<longrightarrow> appended prov (s_db s) (s_db s'))"

named_theorems appending

lemma appends_preserved: "preserves txns m \<Longrightarrow> appends_for prov m"
  unfolding preserves_def appends_for_def by (blast intro: appended_refl)

lemma appends_basic [appending]:
  "appends_for prov (tx_return x)" "appends_for prov (tx_fail e)" "appends_for prov (tx_lift r)"
  by (auto simp: appends_for_def appended_def)

lemma appends_bind:
  assumes "appends_for prov m" and "\<And>x s s'. m s = Inr (x, s') \<Longrightarrow> appends_for prov (f x)"
  shows "appends_for prov (tx_bind m f)"
  using assms unfolding appends_for_def tx_bind_ok by (blast intro: appended_trans)

lemma appends_then [appending]:
  "appends_for prov m \<Longrightarrow> (\<And>x. appends_for prov (f x)) \<Longrightarrow> appends_for prov (tx_bind m f)"
  by (rule appends_bind)

lemma appends_lift:
  "(\<And>x. r = Inr x \<Longrightarrow> appends_for prov (f x)) \<Longrightarrow> appends_for prov (tx_bind (tx_lift r) f)"
  by (rule appends_bind) (auto simp: appends_for_def appended_def)

lemmas appends_reads [appending] = appends_preserved [OF preserves_uuid] appends_preserved [OF inbox_reference]
  appends_preserved [OF inbox_replay] appends_preserved [OF txns_movement]
  preserves_reads [THEN appends_preserved] txns_writes [THEN appends_preserved]
  txns_inbox [THEN appends_preserved]

lemma appends_insert [appending]: "wt_provider t = prov \<Longrightarrow> appends_for prov (insert_transaction t)"
  by (auto simp: appends_for_def appended_def insert_transaction_def dest!: insert_txn_rowD)

lemma appends_save [appending]: "wt_provider t = prov \<Longrightarrow> appends_for prov (save_transaction True t)"
  by (simp add: save_transaction_def appending)

lemma appends_reject [appending]:
  "wt_provider t = prov \<Longrightarrow> appends_for prov (reject_tx sv t w code co ca now True)"
  unfolding reject_tx_def
  by (rule appends_lift) (auto simp: reject_wager_ok intro!: appending)

lemma appends_settle [appending]:
  "wt_provider t = prov \<Longrightarrow> appends_for prov (settle_tx sv t dir before after w co ca now True)"
  unfolding settle_tx_def
  by (rule appends_lift) (auto simp: mark_processed_ok intro!: appending split: option.splits)

lemma appends_finalize [appending]:
  "wt_provider t = prov \<Longrightarrow> appends_for prov (finalize sv t w reference co ca now True)"
  by (auto simp: finalize_def intro!: appending split: sum.splits)

lemma appends_decide [appending]:
  "wt_provider t = prov \<Longrightarrow> appends_for prov (decide_tx sv t w reference co ca now True)"
  by (auto simp: decide_tx_def intro!: appending)

lemma appends_resolved [appending]:
  "wt_provider t = prov \<Longrightarrow> appends_for prov (resolved_tx sv t w r co ca now True)"
  unfolding resolved_tx_def
  by (rule appends_lift) (auto simp: resolve_reference_ok intro!: appending)

lemma appends_record_new [appending]:
  assumes "wt_provider t = prov" shows "appends_for prov (record_new sv cmd t w co ca now)"
proof -
  have "appends_for prov (tx_bind (tx_lift (mark_pending_reference t nx now)) (\<lambda>t'.
            tx_bind (insert_transaction t') (\<lambda>_. tx_bind (pending_event t' co ca now) (\<lambda>_. tx_return (t', w)))))" for nx
    by (rule appends_lift) (use assms in \<open>auto simp: mark_pending_reference_ok pending_event_def intro!: appending\<close>)
  with assms show ?thesis by (auto simp: record_new_def intro!: appending)
qed

lemma appends_process: "appends_for (cmd_provider cmd) (process_tx sv cmd co ca now)"
proof -
  have "appends_for (cmd_provider cmd) (tx_bind (tx_lift (new_wager_transaction (sv_iso sv)
             (external_of_command sv cmd tid now))) (\<lambda>t.
           tx_bind (record_new sv cmd t w co ca now) (\<lambda>(t', w').
           tx_bind (complete_inbox_if (cmd_inbox cmd) now) (\<lambda>_.
           tx_return (result_from t' (wallet_balance w') False)))))" for tid w
    by (rule appends_lift)
      (auto simp: new_wager_ok_iff external_of_command_def intro!: appending split: prod.splits)
  note new = this
  have "appends_for (cmd_provider cmd) (process_unclaimed sv cmd co ca now)"
    by (auto simp: process_unclaimed_def intro!: new appending split: option.splits)
  then show ?thesis by (auto simp: process_tx_def intro!: appending split: option.splits)
qed

lemma process_appends:
  assumes "process sv c cmd d = (res, d')"
  shows "appended (cmd_provider cmd) d d'"
proof (cases "d' = d")
  case False
  then obtain s s' x co ca where "s_db s = d" "process_tx sv cmd co ca (c_now c) s = Inr (x, s')" "d' = s_db s'"
    using assms
    by (auto simp: process_def Let_def within_transaction_def exec_def split: sum.splits prod.splits if_splits)
      (metis session.select_convs(1))+
  then show ?thesis using appends_process by (fastforce simp: appends_for_def)
qed (simp add: appended_refl)

end
