(* ===== verification/Http.thy ===== *)
theory Http
  imports Auth Provenance
begin

text \<open>
  The HTTP interface (\<open>transport/httpapi\<close>): the requests, the guards of each handler in
  their order, the mapping of errors and outcomes to statuses, and the middleware around
  them. A request is served on the tables; texts of messages are left out, their codes kept.
\<close>

section \<open>Requests and answers\<close>

record money_request =
  mq_amount :: string
  mq_currency :: string

record wallet_request =
  wq_initial :: money_request
  wq_player :: string

record wager_request =
  gq_external :: string
  gq_game :: string
  gq_kind :: string
  gq_money :: money_request
  gq_player :: string
  gq_provider :: string
  gq_ref_external :: string
  gq_round :: string
  gq_wallet :: string

text \<open>The routes of \<open>Routes\<close> behind the authentication, with their path parameters.\<close>

datatype endpoint =
    ProcessWagerAt
  | ProviderTransactionAt string string
  | CreateWalletAt
  | GetWalletAt string
  | LedgerAt string
  | ReconcileAt string
  | TransactionAt string
  | RouteNotFound
  | MethodNotAllowed

fun internal_route :: "endpoint \<Rightarrow> bool" where
  "internal_route CreateWalletAt \<longleftrightarrow> True"
| "internal_route (GetWalletAt _) \<longleftrightarrow> True"
| "internal_route (LedgerAt _) \<longleftrightarrow> True"
| "internal_route (ReconcileAt _) \<longleftrightarrow> True"
| "internal_route (TransactionAt _) \<longleftrightarrow> True"
| "internal_route _ \<longleftrightarrow> False"

text \<open>Absent headers and query parameters are empty texts.\<close>

record http_request =
  hq_endpoint :: endpoint
  hq_authorization :: string
  hq_key :: string
  hq_correlation :: string
  hq_request_id :: string
  hq_body :: string
  hq_cursor :: string
  hq_limit :: string

datatype answer_body =
    ProblemBody string
  | WagerBody process_result
  | TransactionBody transaction_view
  | WalletBody wallet_view
  | LedgerBody ledger_page
  | ReconciliationBody reconciliation_view

record answer =
  an_status :: nat
  an_body :: answer_body
  an_request_id :: string

text \<open>
  What the handlers take from libraries: the strict JSON decoders (one value, known fields
  only), the validators of the request types, and \<open>validate.Var\<close> for identifiers.
\<close>

record http_env =
  he_auth :: authenticator
  he_wager_json :: "string \<Rightarrow> wager_request option"
  he_wallet_json :: "string \<Rightarrow> wallet_request option"
  he_wager_valid :: "wager_request \<Rightarrow> bool"
  he_wallet_valid :: "wallet_request \<Rightarrow> bool"
  he_uuid :: "string \<Rightarrow> bool"
  he_text :: "nat \<Rightarrow> string \<Rightarrow> bool"
  he_readers :: cursor_readers

text \<open>
  The circumstances of a request: the call of the use case, whether a read outside a
  transaction fails in the driver, and the identifier the middleware generates.
\<close>

record http_call =
  hc_call :: call
  hc_read_fails :: bool
  hc_generated :: string

section \<open>Errors and outcomes\<close>

fun write_error :: "err \<Rightarrow> nat \<times> answer_body" where
  "write_error ErrNotFound = (404, ProblemBody ''NOT_FOUND'')"
| "write_error ErrIdempotencyPayloadConflict = (409, ProblemBody ''IDEMPOTENCY_PAYLOAD_CONFLICT'')"
| "write_error ErrExternalTransactionConflict = (409, ProblemBody ''EXTERNAL_TRANSACTION_CONFLICT'')"
| "write_error ErrConflict = (409, ProblemBody ''CONFLICT'')"
| "write_error ErrInvalidCursor = (400, ProblemBody ''INVALID_CURSOR'')"
| "write_error ErrInvalidMoney = (400, ProblemBody ''INVALID_REQUEST'')"
| "write_error ErrInvalidWallet = (400, ProblemBody ''INVALID_REQUEST'')"
| "write_error ErrInvalidTransaction = (400, ProblemBody ''INVALID_REQUEST'')"
| "write_error _ = (503, ProblemBody ''TEMPORARY_UNAVAILABLE'')"

definition outcome_status :: "status \<Rightarrow> nat" where
  "outcome_status s =
     (let st = 200 :: nat;
          st = (if s = StatusPendingReference \<or> s = StatusPending then 202 else st);
          st = (if s = StatusRejected then 422 else st)
      in if s = StatusFailed then 500 else st)"

definition answered :: "('a \<Rightarrow> answer_body) \<Rightarrow> 'a res \<Rightarrow> nat \<times> answer_body" where
  "answered body r = (case r of Inl e \<Rightarrow> write_error e | Inr x \<Rightarrow> (200, body x))"

text \<open>\<open>decodeJSON\<close>: \<open>MaxBytesReader\<close> stops a body of more than one MiB.\<close>

definition decode_json :: "(string \<Rightarrow> 'a option) \<Rightarrow> string \<Rightarrow> 'a option" where
  "decode_json strict body = (if 1048576 < length body then None else strict body)"

definition correlation_id :: "http_request \<Rightarrow> string \<Rightarrow> string" where
  "correlation_id q rid = (if hq_correlation q \<noteq> [] then hq_correlation q else rid)"

section \<open>The handlers\<close>

definition command_of_request :: "wager_request \<Rightarrow> string \<Rightarrow> money \<Rightarrow> string \<Rightarrow> wager_command" where
  "command_of_request g key m correlation =
     \<lparr>cmd_provider = gq_provider g, cmd_external = gq_external g, cmd_key = key,
      cmd_player = gq_player g, cmd_wallet = gq_wallet g, cmd_round = gq_round g,
      cmd_game = gq_game g, cmd_kind = kind_of_string (gq_kind g), cmd_money = m,
      cmd_ref_external = gq_ref_external g, cmd_correlation = correlation, cmd_inbox = None\<rparr>"

text \<open>The guards of \<open>processWager\<close> in their order, and the command they let through.\<close>

definition wager_request_command ::
    "service \<Rightarrow> http_env \<Rightarrow> principal \<Rightarrow> string \<Rightarrow> http_request \<Rightarrow> (nat \<times> answer_body) + wager_command" where
  "wager_request_command sv he p rid q =
     (case decode_json (he_wager_json he) (hq_body q) of
        None \<Rightarrow> Inl (400, ProblemBody ''INVALID_JSON'')
      | Some g \<Rightarrow>
          if \<not> he_wager_valid he g then Inl (400, ProblemBody ''INVALID_REQUEST'')
          else if pc_provider p = [] \<or> pc_provider p \<noteq> gq_provider g
          then Inl (403, ProblemBody ''PROVIDER_FORBIDDEN'')
          else if trim_space (hq_key q) = []
          then Inl (400, ProblemBody ''IDEMPOTENCY_KEY_REQUIRED'')
          else case parse_money (sv_iso sv) (mq_amount (gq_money g)) (mq_currency (gq_money g)) of
            Inl e \<Rightarrow> Inl (write_error e)
          | Inr m \<Rightarrow> Inr (command_of_request g (trim_space (hq_key q)) m (correlation_id q rid)))"

definition process_wager ::
    "service \<Rightarrow> http_env \<Rightarrow> http_call \<Rightarrow> principal \<Rightarrow> string \<Rightarrow> http_request \<Rightarrow> db \<Rightarrow> (nat \<times> answer_body) \<times> db" where
  "process_wager sv he hc p rid q d =
     (case wager_request_command sv he p rid q of
        Inl refused \<Rightarrow> (refused, d)
      | Inr cmd \<Rightarrow>
          (case process sv (hc_call hc) cmd d of
             (Inl e, d') \<Rightarrow> (write_error e, d')
           | (Inr r, d') \<Rightarrow> ((outcome_status (pr_status r), WagerBody r), d')))"

definition reading :: "http_call \<Rightarrow> 'a res \<Rightarrow> 'a res" where
  "reading hc r = (if hc_read_fails hc then Inl ErrDatabase else r)"

definition get_transaction_handler ::
    "service \<Rightarrow> http_env \<Rightarrow> http_call \<Rightarrow> string \<Rightarrow> db \<Rightarrow> nat \<times> answer_body" where
  "get_transaction_handler sv he hc tid d =
     (if \<not> he_uuid he tid then (400, ProblemBody ''INVALID_ID'')
      else answered TransactionBody (reading hc (query_transaction sv tid d)))"

definition get_provider_transaction_handler ::
    "service \<Rightarrow> http_env \<Rightarrow> http_call \<Rightarrow> principal \<Rightarrow> string \<Rightarrow> string \<Rightarrow> db \<Rightarrow> nat \<times> answer_body" where
  "get_provider_transaction_handler sv he hc p provider ext d =
     (if \<not> he_text he 128 provider \<or> \<not> he_text he 256 ext then (400, ProblemBody ''INVALID_ID'')
      else if pc_provider p = [] \<or> pc_provider p \<noteq> provider then (403, ProblemBody ''PROVIDER_FORBIDDEN'')
      else answered TransactionBody (reading hc (query_provider_transaction sv provider ext d)))"

definition create_wallet ::
    "service \<Rightarrow> http_env \<Rightarrow> http_call \<Rightarrow> string \<Rightarrow> http_request \<Rightarrow> db \<Rightarrow> (nat \<times> answer_body) \<times> db" where
  "create_wallet sv he hc rid q d =
     (case decode_json (he_wallet_json he) (hq_body q) of
        None \<Rightarrow> ((400, ProblemBody ''INVALID_JSON''), d)
      | Some w \<Rightarrow>
          if \<not> he_wallet_valid he w then ((400, ProblemBody ''INVALID_REQUEST''), d)
          else case parse_money (sv_iso sv) (mq_amount (wq_initial w)) (mq_currency (wq_initial w)) of
            Inl e \<Rightarrow> (write_error e, d)
          | Inr m \<Rightarrow>
              (case create sv (hc_call hc)
                 \<lparr>wc_player = wq_player w, wc_initial = m, wc_correlation = correlation_id q rid\<rparr> d of
                 (Inl e, d') \<Rightarrow> (write_error e, d')
               | (Inr v, d') \<Rightarrow> ((201, WalletBody v), d')))"

definition get_wallet_handler ::
    "service \<Rightarrow> http_env \<Rightarrow> http_call \<Rightarrow> string \<Rightarrow> db \<Rightarrow> nat \<times> answer_body" where
  "get_wallet_handler sv he hc wid d =
     (if \<not> he_uuid he wid then (400, ProblemBody ''INVALID_ID'')
      else answered WalletBody (reading hc (get sv wid d)))"

definition get_ledger ::
    "service \<Rightarrow> http_env \<Rightarrow> http_call \<Rightarrow> http_request \<Rightarrow> string \<Rightarrow> db \<Rightarrow> nat \<times> answer_body" where
  "get_ledger sv he hc q wid d =
     (if \<not> he_uuid he wid then (400, ProblemBody ''INVALID_ID'')
      else case (if hq_limit q = [] then Some 50 else atoi (hq_limit q)) of
        None \<Rightarrow> (400, ProblemBody ''INVALID_LIMIT'')
      | Some limit \<Rightarrow>
          if limit < 1 \<or> 100 < limit then (400, ProblemBody ''INVALID_LIMIT'')
          else answered LedgerBody (reading hc (ledger_pages sv (he_readers he) wid (hq_cursor q) limit d)))"

definition reconcile_handler ::
    "service \<Rightarrow> http_env \<Rightarrow> http_call \<Rightarrow> string \<Rightarrow> db \<Rightarrow> nat \<times> answer_body" where
  "reconcile_handler sv he hc wid d =
     (if \<not> he_uuid he wid then (400, ProblemBody ''INVALID_ID'')
      else answered ReconciliationBody (reconcile sv (hc_call hc) wid d))"

section \<open>The router\<close>

fun route ::
    "service \<Rightarrow> http_env \<Rightarrow> http_call \<Rightarrow> principal \<Rightarrow> string \<Rightarrow> http_request \<Rightarrow> endpoint \<Rightarrow> db \<Rightarrow>
     (nat \<times> answer_body) \<times> db" where
  "route sv he hc p rid q ProcessWagerAt d = process_wager sv he hc p rid q d"
| "route sv he hc p rid q (ProviderTransactionAt provider ext) d =
     (get_provider_transaction_handler sv he hc p provider ext d, d)"
| "route sv he hc p rid q CreateWalletAt d = create_wallet sv he hc rid q d"
| "route sv he hc p rid q (GetWalletAt wid) d = (get_wallet_handler sv he hc wid d, d)"
| "route sv he hc p rid q (LedgerAt wid) d = (get_ledger sv he hc q wid d, d)"
| "route sv he hc p rid q (ReconcileAt wid) d = (reconcile_handler sv he hc wid d, d)"
| "route sv he hc p rid q (TransactionAt tid) d = (get_transaction_handler sv he hc tid d, d)"
| "route sv he hc p rid q _ d = ((404, ProblemBody ''ROUTE_NOT_FOUND''), d)"

text \<open>The last line is never reached: the router answers unknown routes itself.\<close>

definition refuse :: "refusal \<Rightarrow> nat \<times> answer_body" where
  "refuse r = (fst r, ProblemBody (snd r))"

text \<open>The middleware: request identifier, authentication, role, then the handler.\<close>

definition admit :: "http_env \<Rightarrow> http_request \<Rightarrow> refusal + principal" where
  "admit he q =
     (case authenticate (he_auth he) (hq_authorization q) of
        Inl r \<Rightarrow> Inl r
      | Inr p \<Rightarrow> if internal_route (hq_endpoint q) then require_internal (he_auth he) p else Inr p)"

definition request_id :: "http_call \<Rightarrow> http_request \<Rightarrow> string" where
  "request_id hc q = (if hq_request_id q = [] then hc_generated hc else hq_request_id q)"

definition serve_http ::
    "service \<Rightarrow> http_env \<Rightarrow> http_call \<Rightarrow> http_request \<Rightarrow> db \<Rightarrow> answer \<times> db" where
  "serve_http sv he hc q d =
     (let rid = request_id hc q;
          ((st, body), d') =
            (if hq_endpoint q = RouteNotFound then ((404, ProblemBody ''ROUTE_NOT_FOUND''), d)
             else if hq_endpoint q = MethodNotAllowed then ((405, ProblemBody ''ROUTE_METHOD_NOT_ALLOWED''), d)
             else case admit he q of
               Inl r \<Rightarrow> (refuse r, d)
             | Inr p \<Rightarrow> route sv he hc p rid q (hq_endpoint q) d)
      in (\<lparr>an_status = st, an_body = body, an_request_id = rid\<rparr>, d'))"

section \<open>The guards\<close>

lemma serve_admitted:
  assumes "serve_http sv he hc q d = (a, d')"
    and "d' \<noteq> d \<or> (\<forall>code. an_body a \<noteq> ProblemBody code)"
  shows "\<exists>p. admit he q = Inr p \<and>
    route sv he hc p (request_id hc q) q (hq_endpoint q) d = ((an_status a, an_body a), d')"
  using assms by (auto simp: serve_http_def Let_def refuse_def split: sum.splits prod.splits if_splits)

lemma admit_ok:
  "admit he q = Inr p \<longleftrightarrow> authenticate (he_auth he) (hq_authorization q) = Inr p \<and>
     (internal_route (hq_endpoint q) \<longrightarrow> has_role p (au_internal_role (he_auth he)))"
  by (auto simp: admit_def require_internal_def split: sum.splits)

lemma write_error_problem: "\<exists>code. snd (write_error e) = ProblemBody code"
  by (cases e) simp_all

lemma write_error_status: "fst (write_error e) \<in> {400, 404, 409, 503}"
  by (cases e) simp_all

lemma request_command_ok:
  "wager_request_command sv he p rid q = Inr cmd \<Longrightarrow>
     pc_provider p \<noteq> [] \<and> cmd_provider cmd = pc_provider p \<and> cmd_key cmd \<noteq> [] \<and> cmd_inbox cmd = None"
  by (auto simp: wager_request_command_def command_of_request_def split: option.splits sum.splits if_splits)

definition problem :: "nat \<Rightarrow> answer_body \<Rightarrow> bool" where
  "problem st body \<longleftrightarrow> st \<in> {400, 401, 403, 404, 409, 503} \<and> (\<exists>code. body = ProblemBody code)"

lemma write_error_is_problem: "write_error e = (st, body) \<Longrightarrow> problem st body"
  using write_error_problem [of e] write_error_status [of e] by (auto simp: problem_def)

lemma request_refused:
  "wager_request_command sv he p rid q = Inl (st, body) \<Longrightarrow> problem st body"
  using write_error_is_problem
  by (auto simp: wager_request_command_def problem_def split: option.splits sum.splits if_splits)

lemma admit_refused: "admit he q = Inl r \<Longrightarrow> problem (fst (refuse r)) (snd (refuse r))"
  by (auto simp: admit_def authenticate_def require_internal_def problem_def refuse_def
      split: sum.splits list.splits option.splits if_splits)

text \<open>The three ways a request on the wager route ends.\<close>

lemma wager_route_cases:
  assumes "serve_http sv he hc q d = (a, d')" and "hq_endpoint q = ProcessWagerAt"
  obtains (refused) "d' = d" "problem (an_status a) (an_body a)"
  | (failed) cmd e where "process sv (hc_call hc) cmd d = (Inl e, d')" "problem (an_status a) (an_body a)"
  | (answered) p cmd r where "wager_request_command sv he p (request_id hc q) q = Inr cmd"
      "admit he q = Inr p" "process sv (hc_call hc) cmd d = (Inr r, d')" "an_body a = WagerBody r"
      "an_status a = outcome_status (pr_status r)"
proof (cases "admit he q")
  case (Inl r)
  with assms admit_refused [OF Inl] refused show ?thesis by (auto simp: serve_http_def Let_def refuse_def)
next
  case (Inr p)
  note p = this
  show ?thesis
  proof (cases "wager_request_command sv he p (request_id hc q) q")
    case (Inl x)
    with assms p request_refused [of sv he p "request_id hc q" q "fst x" "snd x"] refused show ?thesis
      by (cases x) (auto simp: serve_http_def Let_def process_wager_def)
  next
    case (Inr cmd)
    obtain res d1 where r: "process sv (hc_call hc) cmd d = (res, d1)" by fastforce
    show ?thesis
    proof (cases res)
      case (Inl e)
      with assms p Inr r write_error_is_problem [of e "fst (write_error e)" "snd (write_error e)"] failed [of cmd e]
      show ?thesis by (auto simp: serve_http_def Let_def process_wager_def split: prod.splits)
    next
      case (Inr x)
      with assms p \<open>_ = Inr cmd\<close> r answered [of p cmd x]
      show ?thesis by (auto simp: serve_http_def Let_def process_wager_def)
    qed
  qed
qed

section \<open>A request\<close>

definition sample_auth :: authenticator where
  "sample_auth =
     \<lparr>au_issuer = ''https://id'', au_discovery = [], au_provider_claim = ''provider_id'',
      au_internal_role = ''wallet-service'',
      au_verifier = Some (\<lambda>t. if t = ''good''
        then Some \<lparr>tk_subject = ''s'', tk_claims = Some [''provider_id'' \<mapsto> ''v'']\<rparr> else None),
      au_string = Some, au_roles = (\<lambda>_. Some [])\<rparr>"

definition sample_principal :: principal where
  "sample_principal = \<lparr>pc_subject = ''s'', pc_provider = ''v'', pc_roles = {}\<rparr>"

definition sample_env :: http_env where
  "sample_env =
     \<lparr>he_auth = sample_auth,
      he_wager_json = (\<lambda>b. if b = ''bet'' then Some
        \<lparr>gq_external = ''x1'', gq_game = ''g'', gq_kind = ''BET'',
         gq_money = \<lparr>mq_amount = ''25.00'', mq_currency = ''BRL''\<rparr>, gq_player = ''p'', gq_provider = ''v'',
         gq_ref_external = [], gq_round = ''r'', gq_wallet = ''w''\<rparr> else None),
      he_wallet_json = (\<lambda>_. None), he_wager_valid = (\<lambda>_. True), he_wallet_valid = (\<lambda>_. True),
      he_uuid = (\<lambda>i. i \<noteq> []), he_text = (\<lambda>n i. i \<noteq> [] \<and> length i \<le> n),
      he_readers = \<lparr>cr_uuid = (\<lambda>i. i \<noteq> []), cr_param = Some, cr_layout = (\<lambda>_. None)\<rparr>\<rparr>"

definition sample_request :: "endpoint \<Rightarrow> http_request" where
  "sample_request ep =
     \<lparr>hq_endpoint = ep, hq_authorization = ''bearer good'', hq_key = '' k1 '', hq_correlation = ''c'',
      hq_request_id = ''rq'', hq_body = ''bet'', hq_cursor = [], hq_limit = []\<rparr>"

definition sample_hc :: "call \<Rightarrow> http_call" where
  "sample_hc c = \<lparr>hc_call = c, hc_read_fails = False, hc_generated = ''gen''\<rparr>"

lemma sample_http_sel [simp]:
  "hq_endpoint (sample_request ep) = ep" "hq_authorization (sample_request ep) = ''bearer good''"
  "he_auth sample_env = sample_auth" "hc_call (sample_hc c) = c"
  "\<not> hc_read_fails (sample_hc c)" "pc_provider sample_principal = ''v''"
  "request_id (sample_hc c) (sample_request ep) = ''rq''"
  by (simp_all add: sample_request_def sample_env_def sample_hc_def sample_principal_def request_id_def)

lemma sample_authenticated [simp]: "authenticate sample_auth ''bearer good'' = Inr sample_principal"
proof -
  have "split_fields ''bearer good'' = [''bearer'', ''good'']" and "is_bearer ''bearer''" by code_simp+
  then show ?thesis
    by (simp add: authenticate_def sample_auth_def principal_of_def sample_principal_def)
qed

lemma sample_command_http: "wager_request_command sample_service sample_env sample_principal ''rq''
    (sample_request ep) = Inr bet_cmd"
  using trim_example
  by (simp add: wager_request_command_def decode_json_def sample_env_def sample_request_def sample_principal_def
      command_of_request_def correlation_id_def sample_cmd_def kind_of_string_def)

lemma sample_answer:
  "serve_http sample_service sample_env (sample_hc bet_call) (sample_request ProcessWagerAt) db_opened =
     (\<lparr>an_status = 200, an_body = WagerBody (result_from bet_txn (brl 7500) False), an_request_id = ''rq''\<rparr>, db_bet)"
  using sample_process_bet
  by (simp add: serve_http_def Let_def admit_def process_wager_def sample_command_http bet_call_def
      outcome_status_def result_from_def)

section \<open>Properties\<close>

text \<open>
  C26: Providers are isolated: an HTTP request changes the tables only when its bearer token was
  verified; on the wager route it then only appends transactions of the provider that the
  token names, leaving every other row alone, and the only other route that changes anything
  is the creation of a wallet, by a principal with the internal role.
\<close>

theorem writes_need_the_owner:
  assumes "serve_http sv he hc q d = (a, d')" and "d' \<noteq> d"
  shows "\<exists>p. authenticate (he_auth he) (hq_authorization q) = Inr p \<and>
    (hq_endpoint q = ProcessWagerAt \<and> pc_provider p \<noteq> [] \<and>
       (\<exists>rs. txns d' = txns d @ rs \<and> (\<forall>r \<in> set rs. tr_provider r = Some (pc_provider p))) \<or>
     hq_endpoint q = CreateWalletAt \<and> has_role p (au_internal_role (he_auth he)))"
proof -
  from serve_admitted [OF assms(1)] assms(2) obtain p where
    p: "admit he q = Inr p" "route sv he hc p (request_id hc q) q (hq_endpoint q) d = ((an_status a, an_body a), d')"
    by blast
  show ?thesis
  proof (cases "hq_endpoint q")
    case ProcessWagerAt
    with p(2) assms(2) obtain cmd res where
      c: "wager_request_command sv he p (request_id hc q) q = Inr cmd" "process sv (hc_call hc) cmd d = (res, d')"
      by (auto simp: process_wager_def split: sum.splits prod.splits)
    from process_appends [OF c(2)] request_command_ok [OF c(1)] p(1) ProcessWagerAt show ?thesis
      by (auto simp: admit_ok appended_def)
  qed (use p assms(2) in \<open>auto simp: admit_ok\<close>)
qed

lemma writes_need_the_owner_witness:
  "\<exists>p. authenticate sample_auth ''bearer good'' = Inr p \<and>
     (\<exists>rs. txns db_bet = txns db_opened @ rs \<and> (\<forall>r \<in> set rs. tr_provider r = Some (pc_provider p)))"
proof -
  have "db_bet \<noteq> db_opened" by (simp add: db_bet_def db_opened_def)
  from writes_need_the_owner [OF sample_answer this] show ?thesis by auto
qed

text \<open>
  C30: A provider reads only its own transactions: when the provider route answers with a
  transaction, it is one of the provider that the verified token names.
\<close>

theorem providers_read_their_own:
  assumes "reachable sv (d, ms)" and "serve_http sv he hc q d = (a, d')"
    and "hq_endpoint q = ProviderTransactionAt provider ext" and "an_body a = TransactionBody v"
  shows "\<exists>p. authenticate (he_auth he) (hq_authorization q) = Inr p \<and> pc_provider p = provider \<and>
    tv_provider v = provider \<and> tv_external v = ext \<and> an_status a = 200"
proof -
  have inv: "db_inv (sv_iso sv) d" using reachable_db_inv [OF assms(1)] by simp
  from serve_admitted [OF assms(2)] assms(4) obtain p where
    p: "admit he q = Inr p" "route sv he hc p (request_id hc q) q (hq_endpoint q) d = ((an_status a, an_body a), d')"
    by auto
  have h: "get_provider_transaction_handler sv he hc p provider ext d = (an_status a, TransactionBody v)"
    using p(2) assms(3,4) by auto
  then have pp: "pc_provider p = provider" by (auto simp: get_provider_transaction_handler_def split: if_splits)
  have w: "fst (write_error e) \<noteq> an_status a \<or> snd (write_error e) \<noteq> TransactionBody v" for e
    using write_error_problem [of e] by auto
  obtain t where t: "get_provider_transaction (sv_iso sv) provider ext d = Inr t" "v = transaction_view_of t" "an_status a = 200"
    using h w by (auto simp: get_provider_transaction_handler_def answered_def reading_def query_provider_transaction_def
        split: if_splits sum.splits) (metis fst_conv snd_conv)+
  have "scan_optional (sv_iso sv) (find_by_external provider ext d) = Inr (Some t)"
    using t(1) by (auto simp: get_provider_transaction_def scan_optional_def split: option.splits)
  from find_by_external_wager [OF inv this] t pp p(1) show ?thesis
    by (auto simp: admit_ok transaction_view_of_def)
qed

lemma sample_read:
  "serve_http sample_service sample_env (sample_hc bet_call) (sample_request (ProviderTransactionAt ''v'' ''x1'')) db_bet =
     (\<lparr>an_status = 200, an_body = TransactionBody (transaction_view_of bet_txn), an_request_id = ''rq''\<rparr>, db_bet)"
proof -
  have "get_provider_transaction (\<lambda>c. c = ''BRL'') ''v'' ''x1'' db_bet = Inr bet_txn"
    by (simp add: get_provider_transaction_def find_by_external_def db_bet_def opening_row_def)
  then show ?thesis
    by (simp add: serve_http_def Let_def admit_def get_provider_transaction_handler_def sample_env_def
      answered_def reading_def query_provider_transaction_def)
qed

lemma providers_read_their_own_witness:
  "\<exists>p. authenticate sample_auth ''bearer good'' = Inr p \<and> pc_provider p = ''v'' \<and>
     tv_provider (transaction_view_of bet_txn) = ''v''"
  using providers_read_their_own [OF reachable_bet sample_read] by auto

text \<open>
  C27: What a wager request is answered tells what happened: a result comes as 200 exactly when
  the transaction is processed, 202 when it waits for its reference, 422 when it was rejected
  and 500 when it failed, and it is then stored; any other answer is a problem with a status of
  400, 401, 403, 404, 409 or 503, and unless the acknowledgement of a commit was lost nothing
  has changed.
\<close>

theorem wager_answers_are_faithful:
  assumes "reachable sv (d, ms)" and "serve_http sv he hc q d = (a, d')" and "hq_endpoint q = ProcessWagerAt"
  shows "(\<exists>r t. an_body a = WagerBody r \<and> txn_row_of t \<in> set (txns d') \<and> answers r t \<and>
      (an_status a = 200 \<longleftrightarrow> pr_status r = StatusProcessed) \<and>
      (an_status a = 202 \<longleftrightarrow> pr_status r = StatusPendingReference) \<and>
      (an_status a = 422 \<longleftrightarrow> pr_status r = StatusRejected) \<and>
      (an_status a = 500 \<longleftrightarrow> pr_status r = StatusFailed)) \<or>
    (\<exists>code. an_body a = ProblemBody code \<and> an_status a \<in> {400, 401, 403, 404, 409, 503} \<and>
      (c_ack_lost (hc_call hc) \<or> d' = d))"
  using assms(2,3)
proof (cases rule: wager_route_cases)
  case refused
  then show ?thesis by (auto simp: problem_def)
next
  case (failed cmd e)
  then show ?thesis using process_atomic [of "hc_call hc" sv cmd d e d'] by (auto simp: problem_def)
next
  case (answered p cmd r)
  have inv: "db_inv (sv_iso sv) d" using reachable_db_inv [OF assms(1)] by simp
  obtain t where t: "stored_as sv cmd d' t" "answers r t" using process_stored [OF inv answered(3)] by blast
  have "reachable sv (d', ms)"
    using reachable_served [OF assms(1)] served.intros [of "ProcessWager (hc_call hc) cmd" sv "(d, ms)"] answered(3) by simp
  from reachable_stored [OF this] t have "pr_status r = StatusPendingReference \<or> terminal_status (pr_status r)"
    by (auto simp: stored_ok_def stored_as_def answers_def)
  then have "(an_status a = 200 \<longleftrightarrow> pr_status r = StatusProcessed) \<and>
      (an_status a = 202 \<longleftrightarrow> pr_status r = StatusPendingReference) \<and>
      (an_status a = 422 \<longleftrightarrow> pr_status r = StatusRejected) \<and> (an_status a = 500 \<longleftrightarrow> pr_status r = StatusFailed)"
    unfolding answered(5) by (auto simp: outcome_status_def terminal_status_def Let_def)
  with answered(4) t show ?thesis by (auto simp: stored_as_def)
qed

lemma wager_answers_are_faithful_witness:
  "\<exists>t. txn_row_of t \<in> set (txns db_bet) \<and> answers (result_from bet_txn (brl 7500) False) t"
  using wager_answers_are_faithful [OF reachable_opened sample_answer] by auto

text \<open>
  C29: HTTP and SQS share one outcome: once a message of the queue is committed, the same command
  sent over HTTP by its provider, after any other requests, changes nothing and is answered, as
  a replay, with the transaction that the message stored (and with its outcome once that is
  final).
\<close>

theorem transports_agree:
  assumes "reachable sv (d, ms)" and "handle_message sv co h m d = (calls, d1)"
    and "DeleteMessage rc \<in> set calls \<or> d1 \<noteq> d"
    and "command_of_body sv co (sm_body m) = Some cmd" and "(served sv)\<^sup>*\<^sup>* (d1, ms) (d2, ms2)"
    and "hq_endpoint q = ProcessWagerAt" and "admit he q = Inr p"
    and "wager_request_command sv he p (request_id hc q) q = Inr cmd'"
    and "payload_fields cmd' = payload_fields cmd" and "cmd_key cmd' = cmd_key cmd"
    and "sv_valid sv cmd'" and "calm (hc_call hc)"
  shows "\<exists>a r t. serve_http sv he hc q d2 = (a, d2) \<and> an_body a = WagerBody r \<and> pr_replay r \<and>
    an_status a = outcome_status (pr_status r) \<and> stored_as sv cmd d1 t \<and> pr_transaction r = wt_id t \<and>
    (terminal t \<longrightarrow> answers r t)"
proof -
  have inv: "db_inv (sv_iso sv) d" "inbox_inv d" using reachable_db_inv reachable_inbox assms(1) by fastforce+
  obtain t where t: "stored_as sv cmd d1 t" "\<And>i. cmd_inbox cmd = Some i \<Longrightarrow> delivered i d1"
    using handle_commits [OF inv assms(2,3)] assms(4) by (auto simp: committed_def)
  have run: "(served sv)\<^sup>*\<^sup>* (d, ms) (d1, ms)" by (rule handle_served [OF assms(2)])
  have sys: "system_inv sv (d1, ms)" by (rule system.run_inv [OF run reachable_inv [OF assms(1)]])
  have inv1: "db_inv (sv_iso sv) d1" using sys by (simp add: system_inv_def)
  have ib: "inbox_inv d1" using served_run_inbox [OF run] inv(2) by simp
  have "same_request cmd cmd'"
    using assms(9,10) request_command_ok [OF assms(8)] by (simp add: same_request_def)
  from committed_replay [OF inv1 ib t sys assms(5) this assms(11,12)]
  obtain r t' where r: "process sv (hc_call hc) cmd' d2 = (Inr r, d2)" "answers r t'" "pr_replay r"
    "wt_id t' = wt_id t" "terminal t \<longrightarrow> t' = t" using replays_answers by blast
  have "pr_transaction r = wt_id t" using r(2,4) by (simp add: answers_def)
  with r t(1) show ?thesis
    by (auto simp: serve_http_def Let_def assms(6,7) process_wager_def assms(8))
qed

lemma transports_agree_witness:
  "\<exists>a r t. serve_http sample_service sample_env (sample_hc (sample_call 9 [])) (sample_request ProcessWagerAt) db_message =
       (a, db_message) \<and> an_body a = WagerBody r \<and> pr_replay r \<and>
     stored_as sample_service message_cmd db_message t \<and> pr_transaction r = wt_id t"
proof -
  have c: "calm (sample_call 9 [])" by (simp add: calm_def sample_call_def)
  have f: "payload_fields bet_cmd = payload_fields message_cmd" "cmd_key bet_cmd = cmd_key message_cmd"
    by (simp_all add: message_cmd_def payload_fields_def)
  from transports_agree [OF reachable_opened sample_delivery, of "''rc''" message_cmd db_message "[]"
      "sample_request ProcessWagerAt" sample_env sample_principal "sample_hc (sample_call 9 [])" bet_cmd] c f
  show ?thesis by (auto simp: sample_command sample_command_http admit_def)
qed

text \<open>
  The code of an amount beyond \<open>int64\<close>: the mapping of errors has no case for an overflow, so a
  malformed request is reported as a temporary failure of a dependency.
\<close>

lemma overflowing_amount_is_unavailable:
  assumes "decode_json (he_wager_json he) (hq_body q) = Some g" and "he_wager_valid he g"
    and "pc_provider p = gq_provider g" and "gq_provider g \<noteq> []" and "trim_space (hq_key q) \<noteq> []"
    and "parse_money (sv_iso sv) (mq_amount (gq_money g)) (mq_currency (gq_money g)) = Inl ErrMoneyOverflow"
  shows "process_wager sv he hc p rid q d = ((503, ProblemBody ''TEMPORARY_UNAVAILABLE''), d)"
  using assms by (simp add: process_wager_def wager_request_command_def)

lemma an_amount_overflows: "parse_money (\<lambda>c. c = ''BRL'') ''92233720368547758.08'' ''BRL'' = Inl ErrMoneyOverflow"
  by (simp add: parse_money_def parse_non_negative_minor_def match_amount_def canonical_numeral_def
      parse_uint64_def numeral_val_def is_digit_def digit_val_def max_int64_def)

end
