(* ===== verification/Health.thy ===== *)
theory Health
  imports Http "HOL-Library.Multiset"
begin

text \<open>
  The health handlers (\<open>health_handler.go\<close>), whose checks answer in any order, and the
  writer that records the status of an answer (\<open>statusWriter\<close> in \<open>middleware.go\<close>).
\<close>

section \<open>Readiness\<close>

record health_check =
  hk_status :: string
  hk_latency :: int
  hk_message :: string

record health_response =
  hr_status :: string
  hr_checked_at :: int
  hr_checks :: "string \<rightharpoonup> health_check"

record readiness_result =
  rr_name :: string
  rr_check :: health_check
  rr_failed :: bool

definition run_check :: "string \<Rightarrow> bool \<Rightarrow> int \<Rightarrow> readiness_result" where
  "run_check name ok latency =
     (if ok then \<lparr>rr_name = name, rr_check = \<lparr>hk_status = ''up'', hk_latency = latency, hk_message = []\<rparr>, rr_failed = False\<rparr>
      else \<lparr>rr_name = name,
             rr_check = \<lparr>hk_status = ''down'', hk_latency = latency, hk_message = ''dependency unavailable''\<rparr>,
             rr_failed = True\<rparr>)"

text \<open>One result taken from the channel.\<close>

definition collect_check :: "health_response \<Rightarrow> readiness_result \<Rightarrow> health_response" where
  "collect_check resp r =
     \<lparr>hr_status = (if rr_failed r then ''not_ready'' else hr_status resp),
      hr_checked_at = hr_checked_at resp,
      hr_checks = (hr_checks resp)(rr_name r \<mapsto> rr_check r)\<rparr>"

definition collect_checks :: "int \<Rightarrow> readiness_result list \<Rightarrow> nat \<times> health_response" where
  "collect_checks now results =
     (let resp = foldl collect_check \<lparr>hr_status = ''ready'', hr_checked_at = now, hr_checks = Map.empty\<rparr> results
      in (if hr_status resp \<noteq> ''ready'' then 503 else 200, resp))"

text \<open>The four dependencies, each answering with success and a latency.\<close>

definition dependency_checks :: "(string \<Rightarrow> bool) \<Rightarrow> (string \<Rightarrow> int) \<Rightarrow> readiness_result list" where
  "dependency_checks ok latency =
     map (\<lambda>n. run_check n (ok n) (latency n))
       [''database'', ''sqsInputQueue'', ''sqsEventQueue'', ''identityProvider'']"

definition live_response :: "int \<Rightarrow> nat \<times> health_response" where
  "live_response now =
     (200, \<lparr>hr_status = ''live'', hr_checked_at = now,
            hr_checks = [''process'' \<mapsto> \<lparr>hk_status = ''up'', hk_latency = 0, hk_message = []\<rparr>]\<rparr>)"

lemma collect_status:
  "hr_status (foldl collect_check resp rs) = (if list_ex rr_failed rs then ''not_ready'' else hr_status resp)"
  by (induction rs arbitrary: resp) (auto simp: collect_check_def)

lemma collect_time [simp]: "hr_checked_at (foldl collect_check resp rs) = hr_checked_at resp"
  by (induction rs arbitrary: resp) (auto simp: collect_check_def)

lemma collect_map:
  "distinct (map rr_name rs) \<Longrightarrow>
   hr_checks (foldl collect_check resp rs) n =
     (case find (\<lambda>r. rr_name r = n) rs of None \<Rightarrow> hr_checks resp n | Some r \<Rightarrow> Some (rr_check r))"
proof (induction rs arbitrary: resp)
  case (Cons r rs)
  have "find (\<lambda>x. rr_name x = n) rs = None" if "rr_name r = n"
    using Cons.prems that by (auto simp: find_None_iff image_iff)
  with Cons show ?case by (simp add: collect_check_def split: option.split)
qed simp

lemma run_check_sel [simp]: "rr_name (run_check n ok l) = n" "rr_failed (run_check n ok l) = (\<not> ok)"
  by (simp_all add: run_check_def)

lemma find_by_name:
  assumes "distinct (map rr_name rs)" and "r \<in> set rs" shows "find (\<lambda>x. rr_name x = rr_name r) rs = Some r"
  using assms by (induction rs) (auto simp: rev_image_eqI)

text \<open>
  Readiness does not depend on the order in which the dependencies answer: for every order
  of arrival of the four results the answer is the same one, 200 exactly when all of them are
  up, 503 otherwise, and it lists each dependency with its own result.
\<close>

theorem readiness_is_order_independent:
  assumes "mset results = mset (dependency_checks ok latency)"
  shows "collect_checks now results = collect_checks now (dependency_checks ok latency) \<and>
    (fst (collect_checks now results) = 200 \<longleftrightarrow>
      (\<forall>n \<in> {''database'', ''sqsInputQueue'', ''sqsEventQueue'', ''identityProvider''}. ok n)) \<and>
    (fst (collect_checks now results) = 200 \<or> fst (collect_checks now results) = 503) \<and>
    (\<forall>r \<in> set results. hr_checks (snd (collect_checks now results)) (rr_name r) = Some (rr_check r))"
proof -
  let ?rs = "dependency_checks ok latency"
  have d0: "distinct (map rr_name ?rs)" by (simp add: dependency_checks_def comp_def)
  have d: "distinct (map rr_name results)"
    using d0 mset_eq_imp_distinct_iff [of "map rr_name results" "map rr_name ?rs"] assms by simp
  have s: "set results = set ?rs" using assms by (metis set_mset_mset)
  have f: "find (\<lambda>r. rr_name r = n) results = find (\<lambda>r. rr_name r = n) ?rs" for n
  proof (cases "find (\<lambda>r. rr_name r = n) ?rs")
    case None
    then have "find (\<lambda>r. rr_name r = n) results = None" using s by (simp add: find_None_iff)
    with None show ?thesis by simp
  next
    case (Some r)
    then have "r \<in> set results" "rr_name r = n" using s by (auto simp: find_Some_iff)
    with Some find_by_name [OF d] show ?thesis by metis
  qed
  have e: "list_ex rr_failed results = list_ex rr_failed ?rs" using s by (simp add: list_ex_iff)
  have "foldl collect_check resp results = foldl collect_check resp ?rs" for resp
    by (rule health_response.equality) (auto simp: collect_status e collect_map [OF d] collect_map [OF d0] f)
  then have eq: "collect_checks now results = collect_checks now ?rs" by (simp add: collect_checks_def)
  moreover have "fst (collect_checks now results) = (if list_ex rr_failed results then 503 else 200)"
    by (simp add: collect_checks_def Let_def collect_status)
  moreover have "list_ex rr_failed ?rs \<longleftrightarrow>
      \<not> (\<forall>n \<in> {''database'', ''sqsInputQueue'', ''sqsEventQueue'', ''identityProvider''}. ok n)"
    by (auto simp: dependency_checks_def)
  moreover have "hr_checks (snd (collect_checks now results)) (rr_name r) = Some (rr_check r)" if "r \<in> set results" for r
    using find_by_name [OF d that] by (simp add: collect_checks_def Let_def collect_map [OF d])
  ultimately show ?thesis using e by auto
qed

lemma readiness_is_order_independent_witness:
  "fst (collect_checks 7 (rev (dependency_checks (\<lambda>n. n \<noteq> ''database'') (\<lambda>_. 3)))) = 503"
  using readiness_is_order_independent [of "rev (dependency_checks (\<lambda>n. n \<noteq> ''database'') (\<lambda>_. 3))"
    "\<lambda>n. n \<noteq> ''database''" "\<lambda>_. 3" 7] by auto

section \<open>The recorded status\<close>

text \<open>The headers that reached the connection are kept in the order they were sent.\<close>

record status_writer =
  sw_status :: nat
  sw_sent :: "nat list"

definition write_header :: "nat \<Rightarrow> status_writer \<Rightarrow> status_writer" where
  "write_header st w =
     (if sw_status w \<noteq> 0 then w else w\<lparr>sw_status := st, sw_sent := sw_sent w @ [st]\<rparr>)"

definition write_body :: "status_writer \<Rightarrow> status_writer" where
  "write_body w = (if sw_status w = 0 then write_header 200 w else w)"

datatype write_call = Header nat | Body

fun apply_write :: "write_call \<Rightarrow> status_writer \<Rightarrow> status_writer" where
  "apply_write (Header st) w = write_header st w"
| "apply_write Body w = write_body w"

definition new_writer :: status_writer where
  "new_writer = \<lparr>sw_status = 0, sw_sent = []\<rparr>"

definition logged_status :: "status_writer \<Rightarrow> nat" where
  "logged_status w = (if sw_status w = 0 then 200 else sw_status w)"

text \<open>
  A handler is the calls it makes to the writer and whether it then panicked; the recovering
  handler answers a panic with a 500 problem.
\<close>

definition recovered_writes :: "write_call list \<Rightarrow> bool \<Rightarrow> write_call list" where
  "recovered_writes calls panicked = calls @ (if panicked then [Header 500, Body] else [])"

lemma started_writer_stays: "sw_status w \<noteq> 0 \<Longrightarrow> fold apply_write calls w = w"
proof (induction calls)
  case (Cons c calls)
  then show ?case by (cases c) (simp_all add: write_header_def write_body_def)
qed simp

text \<open>At most one header reaches the connection, and it is the one that is logged.\<close>

lemma one_header:
  assumes "Header 0 \<notin> set calls"
  shows "sw_sent (fold apply_write calls new_writer) =
    (if calls = [] then [] else [logged_status (fold apply_write calls new_writer)])"
proof (cases calls)
  case (Cons c cs)
  with assms show ?thesis
    by (cases c) (auto simp: new_writer_def write_header_def write_body_def logged_status_def started_writer_stays)
qed (simp add: new_writer_def)

text \<open>A panic before anything was written is answered and logged as 500; one after keeps the first status.\<close>

lemma panic_status:
  assumes "Header 0 \<notin> set calls"
  shows "logged_status (fold apply_write (recovered_writes calls True) new_writer) =
    (if calls = [] then 500 else logged_status (fold apply_write calls new_writer))"
proof (cases calls)
  case Nil
  then show ?thesis by (simp add: recovered_writes_def new_writer_def write_header_def write_body_def logged_status_def)
next
  case (Cons c cs)
  with assms show ?thesis
    by (cases c) (auto simp: recovered_writes_def new_writer_def write_header_def write_body_def logged_status_def
      started_writer_stays)
qed

end
