(* ===== verification/Validation.thy ===== *)
theory Validation
  imports Config
begin

text \<open>
  The validation of requests: the tags of the request types (\<open>dto_request.go\<close>), of the
  envelope (\<open>consumer.go\<close>) and of the commands (\<open>contracts.go\<close>), with the tag \<open>notblank\<close>
  registered by \<open>infrastructure/validation/validator.go\<close>. The formats \<open>uuid\<close>, \<open>iso4217\<close>,
  \<open>hexadecimal\<close> and the number of characters of a text belong to libraries.
\<close>

record validators =
  vd_uuid :: "string \<Rightarrow> bool"
  vd_iso4217 :: "string \<Rightarrow> bool"
  vd_hexadecimal :: "string \<Rightarrow> bool"
  vd_runes :: "string \<Rightarrow> nat"

definition notblank :: "string \<Rightarrow> bool" where
  "notblank s \<longleftrightarrow> trim_space s \<noteq> []"

definition named :: "validators \<Rightarrow> nat \<Rightarrow> string \<Rightarrow> bool" where
  "named vd n s \<longleftrightarrow> notblank s \<and> vd_runes vd s \<le> n"

definition uuid_given :: "validators \<Rightarrow> string \<Rightarrow> bool" where
  "uuid_given vd s \<longleftrightarrow> s \<noteq> [] \<and> vd_uuid vd s"

definition one_of_kinds :: "string \<Rightarrow> bool" where
  "one_of_kinds s \<longleftrightarrow> s \<in> {''BET'', ''WIN'', ''LOSS'', ''REFUND'', ''ROLLBACK''}"

definition reference_given :: "validators \<Rightarrow> string \<Rightarrow> string \<Rightarrow> bool" where
  "reference_given vd k ref \<longleftrightarrow>
     (k = ''REFUND'' \<longrightarrow> ref \<noteq> []) \<and> (k = ''ROLLBACK'' \<longrightarrow> ref \<noteq> []) \<and> vd_runes vd ref \<le> 256"

definition money_request_valid :: "validators \<Rightarrow> money_request \<Rightarrow> bool" where
  "money_request_valid vd m \<longleftrightarrow> mq_amount m \<noteq> [] \<and> mq_currency m \<noteq> [] \<and> vd_iso4217 vd (mq_currency m)"

definition wallet_request_valid :: "validators \<Rightarrow> wallet_request \<Rightarrow> bool" where
  "wallet_request_valid vd w \<longleftrightarrow> money_request_valid vd (wq_initial w) \<and> uuid_given vd (wq_player w)"

definition wager_request_valid :: "validators \<Rightarrow> wager_request \<Rightarrow> bool" where
  "wager_request_valid vd g \<longleftrightarrow>
     named vd 256 (gq_external g) \<and> named vd 256 (gq_game g) \<and>
     gq_kind g \<noteq> [] \<and> one_of_kinds (gq_kind g) \<and> money_request_valid vd (gq_money g) \<and>
     uuid_given vd (gq_player g) \<and> named vd 128 (gq_provider g) \<and>
     reference_given vd (gq_kind g) (gq_ref_external g) \<and> named vd 256 (gq_round g) \<and>
     uuid_given vd (gq_wallet g)"

definition envelope_valid :: "validators \<Rightarrow> wager_envelope \<Rightarrow> bool" where
  "envelope_valid vd w \<longleftrightarrow>
     named vd 256 (we_message w) \<and> we_type w = ''WagerTransactionRequested'' \<and>
     \<not> time_is_zero (we_occurred w) \<and>
     we_amount w \<noteq> [] \<and> we_currency w \<noteq> [] \<and> vd_iso4217 vd (we_currency w)"

definition inbox_valid :: "validators \<Rightarrow> inbox_input \<Rightarrow> bool" where
  "inbox_valid vd i \<longleftrightarrow> named vd 128 (in_consumer i) \<and> named vd 256 (in_message i) \<and>
     in_hash i \<noteq> [] \<and> vd_runes vd (in_hash i) = 64 \<and> vd_hexadecimal vd (in_hash i)"

definition command_valid :: "(string \<Rightarrow> bool) \<Rightarrow> validators \<Rightarrow> wager_command \<Rightarrow> bool" where
  "command_valid iso4217 vd cmd \<longleftrightarrow>
     named vd 128 (cmd_provider cmd) \<and> named vd 256 (cmd_external cmd) \<and> named vd 256 (cmd_key cmd) \<and>
     uuid_given vd (cmd_player cmd) \<and> uuid_given vd (cmd_wallet cmd) \<and>
     named vd 256 (cmd_round cmd) \<and> named vd 256 (cmd_game cmd) \<and>
     string_of_kind (cmd_kind cmd) \<noteq> [] \<and> one_of_kinds (string_of_kind (cmd_kind cmd)) \<and>
     validate_money iso4217 (cmd_money cmd) = Inr () \<and>
     reference_given vd (string_of_kind (cmd_kind cmd)) (cmd_ref_external cmd) \<and>
     (cmd_correlation cmd \<noteq> [] \<longrightarrow> vd_runes vd (cmd_correlation cmd) \<le> 256) \<and>
     (case cmd_inbox cmd of None \<Rightarrow> True | Some i \<Rightarrow> inbox_valid vd i)"

definition wallet_command_valid :: "(string \<Rightarrow> bool) \<Rightarrow> validators \<Rightarrow> wallet_command \<Rightarrow> bool" where
  "wallet_command_valid iso4217 vd c \<longleftrightarrow>
     uuid_given vd (wc_player c) \<and> validate_money iso4217 (wc_initial c) = Inr () \<and>
     (wc_correlation c \<noteq> [] \<longrightarrow> vd_runes vd (wc_correlation c) \<le> 256)"

section \<open>Trimmed texts\<close>

lemma strip_with_done: "f (strip_with f s) = 0 \<or> strip_with f s = []"
  by (induction f s rule: strip_with.induct) (subst (1 2) strip_with.simps, auto)

lemma strip_with_fixed: "f s = 0 \<or> s = [] \<Longrightarrow> strip_with f s = s"
  by (subst strip_with.simps) auto

lemma strip_with_suffix: "\<exists>pre. s = pre @ strip_with f s"
proof (induction f s rule: strip_with.induct)
  case (1 f s)
  show ?case
  proof (cases "f s = 0 \<or> s = []")
    case True
    then have "strip_with f s = s" by (rule strip_with_fixed)
    then show ?thesis by auto
  next
    case False
    then obtain pre where "drop (f s) s = pre @ strip_with f (drop (f s) s)" using 1 by blast
    then have "s = (take (f s) s @ pre) @ strip_with f (drop (f s) s)"
      by (metis append.assoc append_take_drop_id)
    moreover have "strip_with f s = strip_with f (drop (f s) s)"
      using False by (simp add: strip_with.simps [of f s])
    ultimately show ?thesis by metis
  qed
qed

lemma space_at_0: "space_at s = 0 \<longleftrightarrow> (\<forall>sp \<in> set space_texts. take (length sp) s \<noteq> sp)"
proof -
  have "\<forall>sp \<in> set space_texts. sp \<noteq> []" by (simp add: space_texts_def)
  then show ?thesis by (auto simp: space_at_def find_None_iff find_Some_iff split: option.split)
qed

lemma space_at_prefix: "space_at (s @ s') = 0 \<Longrightarrow> space_at s = 0"
proof -
  assume a: "space_at (s @ s') = 0"
  have "take (length sp) s = sp \<Longrightarrow> take (length sp) (s @ s') = sp" for sp
    by (metis append_eq_conv_conj append_take_drop_id append_assoc)
  with a show ?thesis by (auto simp: space_at_0)
qed

lemma trim_space_again [simp]: "trim_space (trim_space s) = trim_space s"
proof -
  define l where "l = strip_with space_at s"
  obtain pre where p: "rev l = pre @ strip_with space_end (rev l)" using strip_with_suffix by blast
  then have "l = rev (strip_with space_end (rev l)) @ rev pre" by (metis rev_append rev_rev_ident)
  then have l: "l = trim_space s @ rev pre" by (simp add: trim_space_def l_def)
  have "space_at (trim_space s) = 0 \<or> trim_space s = []"
    using strip_with_done [of space_at s] space_at_prefix l unfolding l_def [symmetric]
    by (metis append_is_Nil_conv)
  then have "strip_with space_at (trim_space s) = trim_space s" by (rule strip_with_fixed)
  then have "trim_space (trim_space s) = rev (strip_with space_end (rev (trim_space s)))"
    by (simp add: trim_space_def)
  also have "rev (trim_space s) = strip_with space_end (rev l)" by (simp add: trim_space_def l_def)
  also have "strip_with space_end (strip_with space_end (rev l)) = strip_with space_end (rev l)"
    by (rule strip_with_fixed) (rule strip_with_done)
  finally show ?thesis by (simp add: trim_space_def l_def)
qed

section \<open>From requests to commands\<close>

lemma notblank_given: "notblank s \<Longrightarrow> s \<noteq> []"
proof
  assume n: "notblank s" and "s = []"
  have "trim_space [] = []" by (simp add: trim_space_def strip_with_fixed)
  with n \<open>s = []\<close> show False by (simp add: notblank_def)
qed

lemma one_of_kinds_external: "one_of_kinds s \<Longrightarrow> external_kind (kind_of_string s)"
  by (auto simp: one_of_kinds_def kind_of_string_def external_kind_def)

text \<open>What the HTTP interface lets through is a valid command unless a header is too long.\<close>

lemma request_command_valid:
  assumes "wager_request_command sv he p rid q = Inr cmd" and "he_wager_valid he = wager_request_valid vd"
  shows "command_valid (sv_iso sv) vd cmd \<longleftrightarrow>
    vd_runes vd (cmd_key cmd) \<le> 256 \<and> (cmd_correlation cmd \<noteq> [] \<longrightarrow> vd_runes vd (cmd_correlation cmd) \<le> 256)"
proof -
  from assms(1) obtain g m where
    g: "he_wager_valid he g" "trim_space (hq_key q) \<noteq> []"
      "parse_money (sv_iso sv) (mq_amount (gq_money g)) (mq_currency (gq_money g)) = Inr m"
    and cmd: "cmd = command_of_request g (trim_space (hq_key q)) m (correlation_id q rid)"
    by (auto simp: wager_request_command_def split: option.splits sum.splits if_splits)
  have "validate_money (sv_iso sv) m = Inr ()" using g(3) by (auto simp: parse_money_iff)
  then show ?thesis
    using g(1,2) unfolding cmd assms(2)
    by (auto simp: command_valid_def wager_request_valid_def command_of_request_def named_def notblank_def)
qed

lemma request_command_kind:
  "wager_request_command sv he p rid q = Inr cmd \<Longrightarrow> \<exists>s. cmd_kind cmd = kind_of_string s"
  by (auto simp: wager_request_command_def command_of_request_def split: option.splits sum.splits if_splits)

text \<open>
  C32: The layers of validation fit together. A request that passes the tags of the HTTP
  interface, the money parser and the header check is a command that passes the tags of the
  service, unless its idempotency key or its correlation identifier has more than 256
  characters; and a command that passes them becomes a transaction exactly when its amount and
  its reference are those of its kind, so that nothing else is left to the domain to refuse.
\<close>

theorem validation_layers_fit:
  assumes "he_wager_valid he = wager_request_valid vd" and "sv_valid sv = command_valid (sv_iso sv) vd"
    and "wager_request_command sv he p rid q = Inr cmd" and "tid \<noteq> []" and "now \<noteq> 0"
    and "wager_payload_hash sv cmd \<noteq> []"
  shows "(sv_valid sv cmd \<longleftrightarrow>
      vd_runes vd (cmd_key cmd) \<le> 256 \<and> (cmd_correlation cmd \<noteq> [] \<longrightarrow> vd_runes vd (cmd_correlation cmd) \<le> 256)) \<and>
    (sv_valid sv cmd \<longrightarrow>
      ((\<exists>t. new_wager_transaction (sv_iso sv) (external_of_command sv cmd tid now) = Inr t) \<longleftrightarrow>
       amount_ok (cmd_kind cmd) (cmd_money cmd) \<and>
       (cmd_kind cmd = KindBet \<or> cmd_kind cmd = KindLoss \<longrightarrow> cmd_ref_external cmd = [])))"
proof -
  have "(\<exists>t. new_wager_transaction (sv_iso sv) (external_of_command sv cmd tid now) = Inr t) \<longleftrightarrow>
       amount_ok (cmd_kind cmd) (cmd_money cmd) \<and>
       (cmd_kind cmd = KindBet \<or> cmd_kind cmd = KindLoss \<longrightarrow> cmd_ref_external cmd = [])"
    if v: "command_valid (sv_iso sv) vd cmd"
  proof -
    obtain s where s: "cmd_kind cmd = kind_of_string s" using request_command_kind [OF assms(3)] by blast
    then have "external_kind (cmd_kind cmd)" using v by (simp add: command_valid_def one_of_kinds_external)
    moreover have "parse_currency (sv_iso sv) (money_currency (cmd_money cmd))"
      using v by (simp add: command_valid_def)
    moreover have "cmd_kind cmd = KindRefund \<or> cmd_kind cmd = KindRollback \<Longrightarrow> cmd_ref_external cmd \<noteq> []"
      using v by (auto simp: command_valid_def reference_given_def)
    ultimately show ?thesis
      using v assms(4-6)
      by (auto simp: new_wager_ok_iff external_of_command_def command_valid_def
        named_def uuid_given_def dest!: notblank_given)
  qed
  then show ?thesis using request_command_valid [OF assms(3,1)] by (simp add: assms(2))
qed

section \<open>A valid request\<close>

definition sample_validators :: validators where
  "sample_validators =
     \<lparr>vd_uuid = (\<lambda>s. True), vd_iso4217 = (\<lambda>c. c = ''BRL''), vd_hexadecimal = (\<lambda>_. True), vd_runes = length\<rparr>"

definition valid_env :: http_env where
  "valid_env = sample_env\<lparr>he_wager_valid := wager_request_valid sample_validators\<rparr>"

definition valid_service :: service where
  "valid_service = sample_service\<lparr>sv_valid := command_valid (sv_iso sample_service) sample_validators\<rparr>"

lemma sample_texts_notblank:
  "notblank ''x1''" "notblank ''g''" "notblank ''v''" "notblank ''r''" "notblank ''k1''"
  by (simp_all add: notblank_def) code_simp+

lemma sample_request_valid: "wager_request_command valid_service valid_env sample_principal ''rq''
    (sample_request ProcessWagerAt) = Inr bet_cmd"
proof -
  have "wager_request_command valid_service valid_env sample_principal ''rq'' (sample_request ProcessWagerAt) =
      wager_request_command sample_service sample_env sample_principal ''rq'' (sample_request ProcessWagerAt)"
    using sample_texts_notblank
    by (simp add: wager_request_command_def decode_json_def valid_env_def valid_service_def sample_env_def
        sample_request_def wager_request_valid_def named_def one_of_kinds_def money_request_valid_def
        uuid_given_def reference_given_def sample_validators_def)
  then show ?thesis by (simp add: sample_command_http)
qed

lemma validation_layers_fit_witness:
  "sv_valid valid_service bet_cmd \<and>
   (\<exists>t. new_wager_transaction (sv_iso valid_service) (external_of_command valid_service bet_cmd ''t'' 7) = Inr t)"
proof -
  have "wager_payload_hash valid_service bet_cmd \<noteq> []"
    by (simp add: wager_payload_hash_def valid_service_def sample_service_def payload_fields_def sample_cmd_def)
  from validation_layers_fit [OF _ _ sample_request_valid _ _ this, of sample_validators "''t''" 7] show ?thesis
    by (simp add: valid_env_def valid_service_def sample_validators_def sample_cmd_def amount_ok_def)
qed

end
