(* ===== verification/Queues.thy ===== *)
theory Queues
  imports Validation "HOL-Library.AList" "HOL-Library.List_Lexorder" "HOL-Library.Char_ord"
begin

text \<open>
  The queues (\<open>messaging/sqs.go\<close>): their preparation at the start, the readiness checks, the
  carrier of trace headers, and the receive loop of a consumer (\<open>consume\<close> in
  \<open>consumer.go\<close>). SQS itself is a parameter that answers each call from the calls made before.
\<close>

section \<open>Calls to SQS\<close>

datatype attribute =
    FifoQueue bool
  | ContentBasedDeduplication bool
  | VisibilityTimeout int32
  | Redrive string int

datatype sqs_call =
    GetQueueUrl string
  | CreateQueue string "attribute list"
  | SetQueueAttributes string "attribute list"
  | GetQueueAttributes string

datatype sqs_failure = QueueDoesNotExist | OtherFailure string

record sqs_service =
  sq_url :: "sqs_call list \<Rightarrow> string \<Rightarrow> sqs_failure + string option"
  sq_create :: "sqs_call list \<Rightarrow> string \<Rightarrow> sqs_failure + string option"
  sq_set :: "sqs_call list \<Rightarrow> string \<Rightarrow> attribute list \<Rightarrow> sqs_failure option"
  sq_attributes :: "sqs_call list \<Rightarrow> string \<Rightarrow> sqs_failure + (string \<rightharpoonup> string)"

text \<open>\<open>url.Parse\<close> and \<open>URL.String\<close>, over the parts that are used here.\<close>

record url =
  ur_scheme :: string
  ur_host :: string
  ur_rest :: string

record url_library =
  ul_parse :: "string \<Rightarrow> url option"
  ul_string :: "url \<Rightarrow> string"

datatype prepare_error =
    ServiceError sqs_failure
  | NoUrl string
  | BadUrl string

section \<open>Preparation\<close>

definition normalize_queue_url :: "url_library \<Rightarrow> string \<Rightarrow> string \<Rightarrow> string option" where
  "normalize_queue_url ul queue endpoint =
     (if endpoint = [] then Some queue
      else case ul_parse ul queue of
        None \<Rightarrow> None
      | Some q \<Rightarrow>
          (case ul_parse ul endpoint of
             None \<Rightarrow> None
           | Some e \<Rightarrow>
               if ur_scheme q = [] \<or> ur_host q = [] \<or> ur_scheme e = [] \<or> ur_host e = [] then None
               else Some (ul_string ul (q\<lparr>ur_scheme := ur_scheme e, ur_host := ur_host e\<rparr>))))"

text \<open>Steps that may fail and that extend the list of calls made.\<close>

type_synonym 'a prep = "sqs_call list \<Rightarrow> (prepare_error + 'a) \<times> sqs_call list"

definition prep_bind :: "'a prep \<Rightarrow> ('a \<Rightarrow> 'b prep) \<Rightarrow> 'b prep" where
  "prep_bind m f h = (case m h of (Inl e, h') \<Rightarrow> (Inl e, h') | (Inr x, h') \<Rightarrow> f x h')"

definition prep_return :: "'a \<Rightarrow> 'a prep" where
  "prep_return x h = (Inr x, h)"

definition prep_fail :: "prepare_error \<Rightarrow> 'a prep" where
  "prep_fail e h = (Inl e, h)"

definition call_sqs :: "sqs_call \<Rightarrow> (sqs_call list \<Rightarrow> 'a) \<Rightarrow> 'a prep" where
  "call_sqs c answer h = (Inr (answer h), h @ [c])"

definition found_url :: "string \<Rightarrow> string option \<Rightarrow> string prep" where
  "found_url name u = (case u of None \<Rightarrow> prep_fail (NoUrl name) | Some x \<Rightarrow> prep_return x)"

definition find_queue :: "sqs_service \<Rightarrow> aws_config \<Rightarrow> string \<Rightarrow> string prep" where
  "find_queue sq cfg name =
     prep_bind (call_sqs (GetQueueUrl name) (\<lambda>h. sq_url sq h name)) (\<lambda>reply.
     case reply of
       Inr u \<Rightarrow> found_url name u
     | Inl f \<Rightarrow>
         if \<not> ca_create_queues cfg \<or> f \<noteq> QueueDoesNotExist then prep_fail (ServiceError f)
         else prep_bind (call_sqs (CreateQueue name [FifoQueue True, ContentBasedDeduplication False])
             (\<lambda>h. sq_create sq h name)) (\<lambda>reply.
           case reply of Inl f \<Rightarrow> prep_fail (ServiceError f) | Inr u \<Rightarrow> found_url name u))"

definition desired_attributes :: "aws_config \<Rightarrow> string \<Rightarrow> attribute list" where
  "desired_attributes cfg dead_letter =
     VisibilityTimeout (ca_visibility cfg) #
       (if dead_letter \<noteq> [] then [Redrive dead_letter (ca_max_receives cfg)] else [])"

definition set_attributes :: "sqs_service \<Rightarrow> aws_config \<Rightarrow> string \<Rightarrow> string \<Rightarrow> unit prep" where
  "set_attributes sq cfg url dead_letter =
     (if \<not> ca_create_queues cfg then prep_return ()
      else let wanted = desired_attributes cfg dead_letter in
        prep_bind (call_sqs (SetQueueAttributes url wanted) (\<lambda>h. sq_set sq h url wanted)) (\<lambda>reply.
        case reply of Some f \<Rightarrow> prep_fail (ServiceError f) | None \<Rightarrow> prep_return ()))"

text \<open>An absent entry of a Go map reads as the empty text.\<close>

definition queue_arn :: "(string \<rightharpoonup> string) \<Rightarrow> string" where
  "queue_arn attributes = (case attributes ''QueueArn'' of None \<Rightarrow> [] | Some arn \<Rightarrow> arn)"

definition ensure_queue ::
    "sqs_service \<Rightarrow> url_library \<Rightarrow> aws_config \<Rightarrow> string \<Rightarrow> string \<Rightarrow> (string \<times> string) prep" where
  "ensure_queue sq ul cfg name dead_letter =
     prep_bind (find_queue sq cfg name) (\<lambda>found.
     case normalize_queue_url ul found (ca_endpoint cfg) of
       None \<Rightarrow> prep_fail (BadUrl name)
     | Some url \<Rightarrow>
         prep_bind (set_attributes sq cfg url dead_letter) (\<lambda>_.
         prep_bind (call_sqs (GetQueueAttributes url) (\<lambda>h. sq_attributes sq h url)) (\<lambda>reply.
         case reply of
           Inl f \<Rightarrow> prep_fail (ServiceError f)
         | Inr attributes \<Rightarrow> prep_return (url, queue_arn attributes))))"

record queues =
  qu_input :: string
  qu_input_dlq :: string
  qu_event :: string
  qu_event_dlq :: string

definition prepare_urls :: "sqs_service \<Rightarrow> url_library \<Rightarrow> aws_config \<Rightarrow> queues prep" where
  "prepare_urls sq ul cfg =
     prep_bind (ensure_queue sq ul cfg (ca_input_dlq cfg) []) (\<lambda>(input_dlq, input_arn).
     prep_bind (ensure_queue sq ul cfg (ca_input_queue cfg) input_arn) (\<lambda>(input, _).
     prep_bind (ensure_queue sq ul cfg (ca_event_dlq cfg) []) (\<lambda>(event_dlq, event_arn).
     prep_bind (ensure_queue sq ul cfg (ca_event_queue cfg) event_arn) (\<lambda>(event, _).
     prep_return \<lparr>qu_input = input, qu_input_dlq = input_dlq, qu_event = event, qu_event_dlq = event_dlq\<rparr>))))"

text \<open>The addresses are stored only at the end.\<close>

definition prepare ::
    "sqs_service \<Rightarrow> url_library \<Rightarrow> aws_config \<Rightarrow> queues \<Rightarrow> sqs_call list \<Rightarrow>
     (prepare_error option \<times> queues) \<times> sqs_call list" where
  "prepare sq ul cfg qs h =
     (case prepare_urls sq ul cfg h of
        (Inl e, h') \<Rightarrow> ((Some e, qs), h')
      | (Inr qs', h') \<Rightarrow> ((None, qs'), h'))"

section \<open>Readiness\<close>

text \<open>True when the check returns no error.\<close>

definition check_queue :: "sqs_service \<Rightarrow> sqs_call list \<Rightarrow> string \<Rightarrow> bool" where
  "check_queue sq h url \<longleftrightarrow> url \<noteq> [] \<and> \<not> isl (sq_attributes sq h url)"

definition check_input_queue :: "sqs_service \<Rightarrow> sqs_call list \<Rightarrow> queues \<Rightarrow> bool" where
  "check_input_queue sq h qs = check_queue sq h (qu_input qs)"

definition check_event_queue :: "sqs_service \<Rightarrow> sqs_call list \<Rightarrow> queues \<Rightarrow> bool" where
  "check_event_queue sq h qs = check_queue sq h (qu_event qs)"

definition check_queues :: "sqs_service \<Rightarrow> sqs_call list \<Rightarrow> queues \<Rightarrow> bool" where
  "check_queues sq h qs \<longleftrightarrow> check_input_queue sq h qs \<and> check_event_queue sq h qs"

text \<open>The four checks of the readiness handler, wired as in \<open>health_handler.go\<close>.\<close>

definition dependency_up ::
    "bool \<Rightarrow> sqs_service \<Rightarrow> sqs_call list \<Rightarrow> queues \<Rightarrow> (string \<Rightarrow> nat option) \<Rightarrow> authenticator \<Rightarrow> string \<Rightarrow> bool" where
  "dependency_up ping sq h qs fetch au name =
     (if name = ''database'' then ping
      else if name = ''sqsInputQueue'' then check_input_queue sq h qs
      else if name = ''sqsEventQueue'' then check_event_queue sq h qs
      else check_identity fetch au)"

lemma ready_status:
  "fst (collect_checks now (dependency_checks ok latency)) =
     (if list_ex rr_failed (dependency_checks ok latency) then 503 else 200)"
  by (simp add: collect_checks_def Let_def collect_status)

text \<open>The service is not ready before its queues are prepared and its identity provider is found.\<close>

lemma not_ready_before_start:
  assumes "qu_input qs = [] \<or> qu_event qs = [] \<or> au_verifier au = None"
  shows "fst (collect_checks now (dependency_checks (dependency_up ping sq h qs fetch au) latency)) = 503"
  unfolding ready_status using assms
  by (auto simp: dependency_checks_def dependency_up_def check_input_queue_def check_event_queue_def check_queue_def
      check_identity_def)

section \<open>The carrier of trace headers\<close>

record message_attribute =
  ma_type :: string
  ma_value :: "string option"

type_synonym carrier = "(string \<times> message_attribute) list"

definition carrier_get :: "carrier \<Rightarrow> string \<Rightarrow> string" where
  "carrier_get c key =
     (case map_of c key of
        None \<Rightarrow> []
      | Some a \<Rightarrow> (case ma_value a of None \<Rightarrow> [] | Some v \<Rightarrow> v))"

definition carrier_set :: "string \<Rightarrow> string \<Rightarrow> carrier \<Rightarrow> carrier" where
  "carrier_set key value c = AList.update key \<lparr>ma_type = ''String'', ma_value = Some value\<rparr> c"

definition carrier_keys :: "carrier \<Rightarrow> string list" where
  "carrier_keys c = sort (map fst c)"

lemma carrier_get_set [simp]:
  "carrier_get (carrier_set key value c) key' = (if key' = key then value else carrier_get c key')"
  by (simp add: carrier_get_def carrier_set_def update_conv')

lemma carrier_keys_set:
  "set (carrier_keys (carrier_set key value c)) = insert key (set (carrier_keys c))"
  "sorted (carrier_keys c)"
  "distinct (map fst c) \<Longrightarrow> distinct (carrier_keys (carrier_set key value c))"
  by (auto simp: carrier_keys_def carrier_set_def dom_update distinct_update)

section \<open>What the preparation asks for\<close>

lemma prep_bind_ok:
  "prep_bind m f h = (Inr y, h') \<longleftrightarrow> (\<exists>x h1. m h = (Inr x, h1) \<and> f x h1 = (Inr y, h'))"
  by (auto simp: prep_bind_def split: prod.splits sum.splits)

text \<open>Every step only adds calls, of a given form.\<close>

definition asks :: "(sqs_call \<Rightarrow> bool) \<Rightarrow> 'a prep \<Rightarrow> bool" where
  "asks P m \<longleftrightarrow> (\<forall>h. \<exists>calls. snd (m h) = h @ calls \<and> list_all P calls)"

named_theorems asking

lemma asks_basic [asking]: "asks P (prep_return x)" "asks P (prep_fail e)" "asks P (found_url name u)"
  by (auto simp: asks_def prep_return_def prep_fail_def found_url_def split: option.split)

lemma asks_call [asking]: "P c \<Longrightarrow> asks P (call_sqs c answer)"
  by (simp add: asks_def call_sqs_def)

lemma asks_bind [asking]:
  assumes "asks P m" and "\<And>x. asks P (f x)" shows "asks P (prep_bind m f)"
  unfolding asks_def
proof
  fix h
  obtain calls where c: "snd (m h) = h @ calls" "list_all P calls" using assms(1) by (auto simp: asks_def)
  show "\<exists>calls. snd (prep_bind m f h) = h @ calls \<and> list_all P calls"
  proof (cases "fst (m h)")
    case (Inl e)
    with c show ?thesis by (auto simp: prep_bind_def split: prod.splits)
  next
    case (Inr x)
    obtain calls' where "snd (f x (h @ calls)) = (h @ calls) @ calls'" "list_all P calls'"
      using assms(2) unfolding asks_def by blast
    with c Inr show ?thesis
      by (intro exI [of _ "calls @ calls'"]) (auto simp: prep_bind_def split: prod.splits)
  qed
qed

fun allowed_call :: "aws_config \<Rightarrow> sqs_call \<Rightarrow> bool" where
  "allowed_call cfg (GetQueueUrl _) \<longleftrightarrow> True"
| "allowed_call cfg (GetQueueAttributes _) \<longleftrightarrow> True"
| "allowed_call cfg (CreateQueue name ats) \<longleftrightarrow> ca_create_queues cfg \<and>
     ats = [FifoQueue True, ContentBasedDeduplication False] \<and>
     name \<in> {ca_input_dlq cfg, ca_input_queue cfg, ca_event_dlq cfg, ca_event_queue cfg}"
| "allowed_call cfg (SetQueueAttributes _ ats) \<longleftrightarrow> ca_create_queues cfg \<and>
     (\<exists>arn. ats = desired_attributes cfg arn)"

lemma prep_cases_ok:
  "(case r of Inl f \<Rightarrow> prep_fail (E f) | Inr x \<Rightarrow> g x) h = (Inr y, h') \<longleftrightarrow> (\<exists>x. r = Inr x \<and> g x h = (Inr y, h'))"
  "(case v of None \<Rightarrow> prep_fail e | Some x \<Rightarrow> k x) h = (Inr y, h') \<longleftrightarrow> (\<exists>x. v = Some x \<and> k x h = (Inr y, h'))"
  "(case w of None \<Rightarrow> m | Some f \<Rightarrow> prep_fail (F f)) h = (Inr y, h') \<longleftrightarrow> w = None \<and> m h = (Inr y, h')"
  by (auto simp: prep_fail_def split: sum.split option.split)

lemma asks_ensure:
  assumes "name \<in> {ca_input_dlq cfg, ca_input_queue cfg, ca_event_dlq cfg, ca_event_queue cfg}"
  shows "asks (allowed_call cfg) (ensure_queue sq ul cfg name dead_letter)"
  using assms unfolding ensure_queue_def find_queue_def set_attributes_def Let_def
  by (auto intro!: asking split: sum.split option.split) blast+

lemma asks_prepare: "asks (allowed_call cfg) (prepare_urls sq ul cfg)"
  unfolding prepare_urls_def
  by (intro asking asks_ensure | simp split: prod.split | intro allI impI)+

lemma prepare_calls: "snd (prepare sq ul cfg qs h) = snd (prepare_urls sq ul cfg h)"
  by (simp add: prepare_def split: prod.split sum.split)

text \<open>
  The address of a queue is the one that SQS gave for its name, found or created, with the
  configured endpoint; the name of a dead-letter queue is the ARN that SQS reported for it.
\<close>

definition named_queue :: "sqs_service \<Rightarrow> url_library \<Rightarrow> aws_config \<Rightarrow> string \<Rightarrow> string \<Rightarrow> bool" where
  "named_queue sq ul cfg name url \<longleftrightarrow>
     (\<exists>h u. (sq_url sq h name = Inr (Some u) \<or>
          ca_create_queues cfg \<and> sq_url sq h name = Inl QueueDoesNotExist \<and>
          sq_create sq (h @ [GetQueueUrl name]) name = Inr (Some u)) \<and>
        normalize_queue_url ul u (ca_endpoint cfg) = Some url)"

definition arn_given :: "sqs_service \<Rightarrow> string \<Rightarrow> string \<Rightarrow> bool" where
  "arn_given sq url arn \<longleftrightarrow> (\<exists>h ats. sq_attributes sq h url = Inr ats \<and> arn = queue_arn ats)"

lemma find_queue_ok:
  assumes "find_queue sq cfg name h = (Inr u, h')"
  shows "\<exists>calls. h' = h @ calls \<and> (sq_url sq h name = Inr (Some u) \<or>
    ca_create_queues cfg \<and> sq_url sq h name = Inl QueueDoesNotExist \<and>
    sq_create sq (h @ [GetQueueUrl name]) name = Inr (Some u))"
  using assms
  by (cases "sq_url sq h name")
    (auto simp: find_queue_def prep_bind_ok prep_cases_ok call_sqs_def found_url_def prep_return_def
      prep_fail_def split: if_splits)

lemma ensure_ok:
  assumes "ensure_queue sq ul cfg name dead_letter h = (Inr (url, arn), h')"
  shows "\<exists>calls. h' = h @ calls \<and> named_queue sq ul cfg name url \<and> arn_given sq url arn \<and>
    (ca_create_queues cfg \<longrightarrow> SetQueueAttributes url (desired_attributes cfg dead_letter) \<in> set calls)"
proof -
  from assms obtain u h1 h2 ats where f: "find_queue sq cfg name h = (Inr u, h1)"
    and n: "normalize_queue_url ul u (ca_endpoint cfg) = Some url"
    and st: "set_attributes sq cfg url dead_letter h1 = (Inr (), h2)"
    and a: "sq_attributes sq h2 url = Inr ats" "arn = queue_arn ats" "h' = h2 @ [GetQueueAttributes url]"
    by (auto simp: ensure_queue_def prep_bind_ok prep_cases_ok call_sqs_def prep_return_def)
  from find_queue_ok [OF f] n obtain calls where h1: "h1 = h @ calls" and q: "named_queue sq ul cfg name url"
    unfolding named_queue_def by blast
  have "h2 = h1 @ (if ca_create_queues cfg then [SetQueueAttributes url (desired_attributes cfg dead_letter)] else [])"
    using st by (auto simp: set_attributes_def prep_bind_ok prep_cases_ok call_sqs_def prep_return_def Let_def split: if_splits)
  with h1 q a show ?thesis by (auto simp: arn_given_def)
qed

text \<open>
  What a queue and its dead-letter queue are after the calls: both have the addresses of their
  configured names; when the configuration lets the service set them up, both were given the
  configured visibility, and the queue the redrive policy towards the reported ARN, unless
  that is empty.
\<close>

definition linked ::
    "sqs_service \<Rightarrow> url_library \<Rightarrow> aws_config \<Rightarrow> string \<times> string \<Rightarrow> string \<times> string \<Rightarrow> sqs_call list \<Rightarrow> bool" where
  "linked sq ul cfg queue dlq calls \<longleftrightarrow>
     named_queue sq ul cfg (fst queue) (snd queue) \<and> named_queue sq ul cfg (fst dlq) (snd dlq) \<and>
     (\<exists>arn. arn_given sq (snd dlq) arn \<and>
        (ca_create_queues cfg \<longrightarrow>
           SetQueueAttributes (snd dlq) [VisibilityTimeout (ca_visibility cfg)] \<in> set calls \<and>
           SetQueueAttributes (snd queue) (VisibilityTimeout (ca_visibility cfg) #
             (if arn = [] then [] else [Redrive arn (ca_max_receives cfg)])) \<in> set calls))"

lemma ensure_linked:
  assumes "ensure_queue sq ul cfg dlq_name [] h = (Inr (dlq, arn), h1)"
    and "ensure_queue sq ul cfg name arn h1 = (Inr (url, arn'), h2)"
  shows "\<exists>calls. h2 = h @ calls \<and> linked sq ul cfg (name, url) (dlq_name, dlq) calls"
proof -
  from ensure_ok [OF assms(1)] ensure_ok [OF assms(2)] obtain c1 c2 where
    "h2 = h @ (c1 @ c2)" "named_queue sq ul cfg dlq_name dlq" "arn_given sq dlq arn" "named_queue sq ul cfg name url"
    "ca_create_queues cfg \<longrightarrow> SetQueueAttributes dlq (desired_attributes cfg []) \<in> set (c1 @ c2) \<and>
       SetQueueAttributes url (desired_attributes cfg arn) \<in> set (c1 @ c2)" by auto
  then show ?thesis
    unfolding linked_def desired_attributes_def
    by (intro exI [of _ "c1 @ c2"] conjI exI [of _ arn]) (simp_all split: if_splits)
qed

lemma linked_mono: "linked sq ul cfg queue dlq calls \<Longrightarrow> set calls \<subseteq> set calls' \<Longrightarrow> linked sq ul cfg queue dlq calls'"
  unfolding linked_def by blast

lemma prepare_ok:
  assumes "prepare_urls sq ul cfg h = (Inr qs, h')"
  shows "\<exists>calls. h' = h @ calls \<and>
    linked sq ul cfg (ca_input_queue cfg, qu_input qs) (ca_input_dlq cfg, qu_input_dlq qs) calls \<and>
    linked sq ul cfg (ca_event_queue cfg, qu_event qs) (ca_event_dlq cfg, qu_event_dlq qs) calls"
proof -
  from assms obtain a1 h1 a2 h2 a3 h3 a4 where e:
    "ensure_queue sq ul cfg (ca_input_dlq cfg) [] h = (Inr (qu_input_dlq qs, a1), h1)"
    "ensure_queue sq ul cfg (ca_input_queue cfg) a1 h1 = (Inr (qu_input qs, a2), h2)"
    "ensure_queue sq ul cfg (ca_event_dlq cfg) [] h2 = (Inr (qu_event_dlq qs, a3), h3)"
    "ensure_queue sq ul cfg (ca_event_queue cfg) a3 h3 = (Inr (qu_event qs, a4), h')"
    by (auto simp: prepare_urls_def prep_bind_ok prep_return_def)
  from ensure_linked [OF e(1,2)] obtain c1 where c1: "h2 = h @ c1"
    "linked sq ul cfg (ca_input_queue cfg, qu_input qs) (ca_input_dlq cfg, qu_input_dlq qs) c1" by blast
  from ensure_linked [OF e(3,4)] obtain c2 where c2: "h' = h2 @ c2"
    "linked sq ul cfg (ca_event_queue cfg, qu_event qs) (ca_event_dlq cfg, qu_event_dlq qs) c2" by blast
  from c1 c2 show ?thesis
    by (intro exI [of _ "c1 @ c2"]) (auto elim: linked_mono)
qed

text \<open>
  C37: The preparation of the queues links each queue to its own dead-letter queue. When it
  succeeds, the four stored addresses are those of the four configured names, and if
  \<open>SQS_CREATE_QUEUES\<close> is set, all four were given the configured visibility and the input and
  the event queue the redrive policy towards the ARN that SQS reported for their own dead-letter
  queue, when it reported one; if it is not set, nothing is created or changed. When it fails
  the stored addresses stay as they were. Only the four configured queues are ever created.
\<close>

theorem prepare_links_dead_letters:
  assumes "prepare sq ul cfg qs h = ((failure, qs'), h')"
  shows "\<exists>calls. h' = h @ calls \<and> list_all (allowed_call cfg) calls \<and>
    (failure = None \<longrightarrow>
      linked sq ul cfg (ca_input_queue cfg, qu_input qs') (ca_input_dlq cfg, qu_input_dlq qs') calls \<and>
      linked sq ul cfg (ca_event_queue cfg, qu_event qs') (ca_event_dlq cfg, qu_event_dlq qs') calls) \<and>
    (failure \<noteq> None \<longrightarrow> qs' = qs)"
proof -
  have "h' = snd (prepare_urls sq ul cfg h)" using prepare_calls [of sq ul cfg qs h] assms by simp
  then obtain calls where calls: "h' = h @ calls" "list_all (allowed_call cfg) calls"
    using asks_prepare [of cfg sq ul] by (auto simp: asks_def)
  moreover have "failure \<noteq> None \<Longrightarrow> qs' = qs" using assms by (auto simp: prepare_def split: prod.splits sum.splits)
  moreover have "prepare_urls sq ul cfg h = (Inr qs', h')" if "failure = None"
    using assms that by (auto simp: prepare_def split: prod.splits sum.splits)
  ultimately show ?thesis using prepare_ok [of sq ul cfg h qs' h'] by (intro exI [of _ calls]) auto
qed

definition sample_sqs :: sqs_service where
  "sample_sqs =
     \<lparr>sq_url = (\<lambda>h name. Inl QueueDoesNotExist), sq_create = (\<lambda>h name. Inr (Some (''u:'' @ name))),
      sq_set = (\<lambda>h u ats. None), sq_attributes = (\<lambda>h u. Inr [''QueueArn'' \<mapsto> ''arn:'' @ u])\<rparr>"

definition sample_urls :: url_library where
  "sample_urls =
     \<lparr>ul_parse = (\<lambda>s. Some \<lparr>ur_scheme = ''http'', ur_host = ''h'', ur_rest = s\<rparr>), ul_string = ur_rest\<rparr>"

definition sample_aws :: aws_config where
  "sample_aws = cf_aws default_config"

lemma sample_aws_sel [simp]:
  "ca_create_queues sample_aws" "ca_endpoint sample_aws = ''http://localhost:4566''"
  "ca_input_queue sample_aws = ''wager-transactions.fifo''"
  "ca_input_dlq sample_aws = ''wager-transactions-dlq.fifo''"
  "ca_event_queue sample_aws = ''wager-events.fifo''" "ca_event_dlq sample_aws = ''wager-events-dlq.fifo''"
  by (simp_all add: sample_aws_def default_values)

lemma sample_ensure:
  "\<exists>h'. ensure_queue sample_sqs sample_urls sample_aws name dead_letter h = (Inr (''u:'' @ name, ''arn:u:'' @ name), h')"
  by (simp add: ensure_queue_def find_queue_def set_attributes_def prep_bind_def call_sqs_def found_url_def
      prep_return_def normalize_queue_url_def Let_def sample_sqs_def sample_urls_def queue_arn_def)

lemma sample_prepared:
  "\<exists>h'. prepare sample_sqs sample_urls sample_aws qs [] =
     ((None, \<lparr>qu_input = ''u:wager-transactions.fifo'', qu_input_dlq = ''u:wager-transactions-dlq.fifo'',
             qu_event = ''u:wager-events.fifo'', qu_event_dlq = ''u:wager-events-dlq.fifo''\<rparr>), h')"
proof -
  note e = sample_ensure
  obtain h1 where 1: "ensure_queue sample_sqs sample_urls sample_aws ''wager-transactions-dlq.fifo'' [] [] =
      (Inr (''u:wager-transactions-dlq.fifo'', ''arn:u:wager-transactions-dlq.fifo''), h1)"
    using e [of "''wager-transactions-dlq.fifo''"] by fastforce
  obtain h2 where 2: "ensure_queue sample_sqs sample_urls sample_aws ''wager-transactions.fifo''
      ''arn:u:wager-transactions-dlq.fifo'' h1 = (Inr (''u:wager-transactions.fifo'', ''arn:u:wager-transactions.fifo''), h2)"
    using e [of "''wager-transactions.fifo''"] by fastforce
  obtain h3 where 3: "ensure_queue sample_sqs sample_urls sample_aws ''wager-events-dlq.fifo'' [] h2 =
      (Inr (''u:wager-events-dlq.fifo'', ''arn:u:wager-events-dlq.fifo''), h3)"
    using e [of "''wager-events-dlq.fifo''"] by fastforce
  obtain h4 where 4: "ensure_queue sample_sqs sample_urls sample_aws ''wager-events.fifo''
      ''arn:u:wager-events-dlq.fifo'' h3 = (Inr (''u:wager-events.fifo'', ''arn:u:wager-events.fifo''), h4)"
    using e [of "''wager-events.fifo''"] by fastforce
  from 1 2 3 4 show ?thesis by (simp add: prepare_def prepare_urls_def prep_bind_def prep_return_def)
qed

lemma prepare_links_dead_letters_witness:
  "\<exists>qs calls. prepare sample_sqs sample_urls sample_aws \<lparr>qu_input = [], qu_input_dlq = [], qu_event = [], qu_event_dlq = []\<rparr> [] =
       ((None, qs), calls) \<and> qu_input qs = ''u:wager-transactions.fifo'' \<and>
     linked sample_sqs sample_urls sample_aws (''wager-transactions.fifo'', qu_input qs)
       (''wager-transactions-dlq.fifo'', qu_input_dlq qs) calls"
proof -
  obtain h' where "prepare sample_sqs sample_urls sample_aws \<lparr>qu_input = [], qu_input_dlq = [], qu_event = [], qu_event_dlq = []\<rparr> [] =
     ((None, \<lparr>qu_input = ''u:wager-transactions.fifo'', qu_input_dlq = ''u:wager-transactions-dlq.fifo'',
             qu_event = ''u:wager-events.fifo'', qu_event_dlq = ''u:wager-events-dlq.fifo''\<rparr>), h')"
    using sample_prepared by blast
  from prepare_links_dead_letters [OF this] this show ?thesis by auto
qed

section \<open>The heartbeat\<close>

text \<open>The interval of \<open>maintainVisibility\<close>: half the visibility timeout, but a second at least.\<close>

definition heartbeat_interval :: "int32 \<Rightarrow> duration" where
  "heartbeat_interval visibility =
     (let interval = go_div (word_of_int (sint visibility) * second) 2
      in if interval <s second then second else interval)"

text \<open>
  For every visibility that the configuration admits but one second, the heartbeat renews the
  message before it becomes visible again; at one second it ticks only when it already is.
\<close>

lemma heartbeat_in_time:
  assumes "1 \<le> sint visibility" and "sint visibility \<le> 43200"
  shows "sint (heartbeat_interval visibility) < sint visibility * 1000000000 \<longleftrightarrow> sint visibility \<noteq> 1"
proof -
  define x :: int64 where "x = word_of_int (sint visibility)"
  have w: "sint x = sint visibility"
    unfolding x_def using assms by (intro sint_of_int_exact) (simp add: int64_range_def)
  have t: "sint (x * second) = sint visibility * 1000000000"
    using sint_mult_exact [of x second] assms by (simp add: w int64_range_def)
  have h: "sint (go_div (x * second) 2) = sint visibility * 500000000"
    using sint_go_half [of "x * second"] assms by (simp add: t)
  show ?thesis
    unfolding heartbeat_interval_def x_def [symmetric]
    using assms by (auto simp: Let_def sless_iff_sint h)
qed

section \<open>The receive loop\<close>

text \<open>
  The turns of \<open>consume\<close> until the worker is stopped: a receive fails, or brings messages, each
  handled in its circumstances.
\<close>

datatype turn = ReceiveFailed | Received "(handling \<times> sqs_message) list"

fun handle_all ::
    "service \<Rightarrow> consumer \<Rightarrow> (handling \<times> sqs_message) list \<Rightarrow> db \<Rightarrow> queue_call list \<times> db" where
  "handle_all sv co [] d = ([], d)"
| "handle_all sv co ((h, m) # hms) d =
     (case handle_message sv co h m d of (calls, d1) \<Rightarrow>
      case handle_all sv co hms d1 of (calls2, d2) \<Rightarrow> (calls @ calls2, d2))"

fun consume :: "service \<Rightarrow> consumer \<Rightarrow> turn list \<Rightarrow> db \<Rightarrow> queue_call list \<times> db" where
  "consume sv co [] d = ([], d)"
| "consume sv co (ReceiveFailed # turns) d = consume sv co turns d"
| "consume sv co (Received hms # turns) d =
     (case handle_all sv co hms d of (calls, d1) \<Rightarrow>
      case consume sv co turns d1 of (calls2, d2) \<Rightarrow> (calls @ calls2, d2))"

lemma handle_all_served:
  "handle_all sv co hms d = (calls, d') \<Longrightarrow> (served sv)\<^sup>*\<^sup>* (d, ms) (d', ms)"
proof (induction hms arbitrary: d calls)
  case (Cons hm hms)
  obtain h m where hm: "hm = (h, m)" by fastforce
  with Cons.prems obtain c1 d1 c2 where "handle_message sv co h m d = (c1, d1)" "handle_all sv co hms d1 = (c2, d')"
    by (auto split: prod.splits)
  with Cons.IH show ?case by (meson handle_served rtranclp_trans)
qed simp

text \<open>Whatever a consumer does is a run of requests, so every invariant of the system survives it.\<close>

lemma consume_served: "consume sv co turns d = (calls, d') \<Longrightarrow> (served sv)\<^sup>*\<^sup>* (d, ms) (d', ms)"
proof (induction sv co turns d arbitrary: calls d' rule: consume.induct)
  case (3 sv co hms turns d)
  then obtain c1 d1 c2 where "handle_all sv co hms d = (c1, d1)" "consume sv co turns d1 = (c2, d')"
    by (auto split: prod.splits)
  with "3.IH" show ?case by (metis handle_all_served rtranclp_trans)
qed simp_all

lemma consume_reachable: "reachable sv (d, ms) \<Longrightarrow> consume sv co turns d = (calls, d') \<Longrightarrow> reachable sv (d', ms)"
  using consume_served by (metis rtranclp_trans reachable_def)

end
