(* ===== verification/Bank.thy ===== *)
theory Bank
  imports Queues
begin

text \<open>
  The contract of the whole service as a bank: accounts are lists of postings, money is posted
  within bounds and once per transaction, and a posting is undone at most once. Every run of
  the service, seen through its wallets and ledger, is a run of this bank.
\<close>

section \<open>The bank\<close>

record posting =
  po_transaction :: string
  po_amount :: int
  po_undoes :: "string option"

type_synonym bank = "string \<rightharpoonup> posting list"

definition account_balance :: "posting list \<Rightarrow> int" where
  "account_balance ps = sum_list (map po_amount ps)"

definition within_bounds :: "int \<Rightarrow> bool" where
  "within_bounds n \<longleftrightarrow> 0 \<le> n \<and> n \<le> 9223372036854775807"

definition unposted :: "string \<Rightarrow> bank \<Rightarrow> bool" where
  "unposted tid b \<longleftrightarrow> (\<forall>w ps. b w = Some ps \<longrightarrow> tid \<notin> po_transaction ` set ps)"

inductive bank_step :: "bank \<Rightarrow> bank \<Rightarrow> bool" where
  open_account: "b w = None \<Longrightarrow> bank_step b (b(w \<mapsto> []))"
| post: "b w = Some ps \<Longrightarrow> unposted tid b \<Longrightarrow> within_bounds (account_balance ps + amount) \<Longrightarrow>
    bank_step b (b(w \<mapsto> ps @ [\<lparr>po_transaction = tid, po_amount = amount, po_undoes = None\<rparr>]))"
| undo: "b w = Some ps \<Longrightarrow> unposted tid b \<Longrightarrow> within_bounds (account_balance ps - po_amount p) \<Longrightarrow>
    p \<in> set ps \<Longrightarrow> \<forall>q \<in> set ps. po_undoes q \<noteq> Some (po_transaction p) \<Longrightarrow>
    bank_step b (b(w \<mapsto> ps @ [\<lparr>po_transaction = tid, po_amount = - po_amount p,
      po_undoes = Some (po_transaction p)\<rparr>]))"

inductive_cases bank_stepE: "bank_step b b'"

text \<open>Whatever the step, an account only grows.\<close>

lemma bank_step_appends:
  assumes "bank_step b b'" and "b w = Some ps"
  shows "\<exists>qs. b' w = Some (ps @ qs)"
  using assms by (auto elim!: bank_stepE)

text \<open>What the bank promises of its accounts.\<close>

definition undone_once :: "posting list \<Rightarrow> bool" where
  "undone_once ps \<longleftrightarrow> distinct (List.map_filter po_undoes ps) \<and>
     (\<forall>q \<in> set ps. \<forall>x. po_undoes q = Some x \<longrightarrow>
        (\<exists>p \<in> set ps. po_transaction p = x \<and> po_amount q = - po_amount p))"

definition sound_account :: "posting list \<Rightarrow> bool" where
  "sound_account ps \<longleftrightarrow> within_bounds (account_balance ps) \<and> distinct (map po_transaction ps) \<and> undone_once ps"

definition sound_bank :: "bank \<Rightarrow> bool" where
  "sound_bank b \<longleftrightarrow> (\<forall>w ps. b w = Some ps \<longrightarrow> sound_account ps)"

lemma balance_snoc [simp]: "account_balance (ps @ [p]) = account_balance ps + po_amount p"
  by (simp add: account_balance_def)

lemma undoes_snoc [simp]:
  "List.map_filter po_undoes (ps @ [p]) =
     List.map_filter po_undoes ps @ (case po_undoes p of None \<Rightarrow> [] | Some x \<Rightarrow> [x])"
  by (simp add: List.map_filter_def split: option.split)

lemma in_undoes: "x \<in> set (List.map_filter po_undoes ps) \<longleftrightarrow> (\<exists>q \<in> set ps. po_undoes q = Some x)"
  by (force simp: List.map_filter_def)

lemma bank_step_sound: "bank_step b b' \<Longrightarrow> sound_bank b \<Longrightarrow> sound_bank b'"
proof (induction rule: bank_step.induct)
  case (open_account b w)
  then show ?case
    by (simp add: sound_bank_def sound_account_def within_bounds_def account_balance_def undone_once_def
        List.map_filter_def)
next
  case (post b w ps tid amount)
  then have "sound_account ps" by (simp add: sound_bank_def)
  with post show ?case
    by (auto simp: sound_bank_def sound_account_def undone_once_def unposted_def)
next
  case (undo b w ps tid p)
  then have "sound_account ps" by (simp add: sound_bank_def)
  with undo show ?case
    by (auto simp: sound_bank_def sound_account_def undone_once_def unposted_def in_undoes)
qed

interpretation bank: machine bank_step sound_bank
  by unfold_locales (rule bank_step_sound)

lemma empty_bank_sound: "sound_bank Map.empty"
  by (simp add: sound_bank_def)

section \<open>Refinement\<close>

text \<open>A machine whose steps, seen through an abstraction, are runs of another one.\<close>

locale refinement = concrete: machine cstep cinv
  for cstep :: "'c \<Rightarrow> 'c \<Rightarrow> bool" and cinv :: "'c \<Rightarrow> bool" +
  fixes astep :: "'a \<Rightarrow> 'a \<Rightarrow> bool" and abstract :: "'c \<Rightarrow> 'a"
  assumes step_refines: "cinv s \<Longrightarrow> cstep s t \<Longrightarrow> astep\<^sup>*\<^sup>* (abstract s) (abstract t)"
begin

lemma run_refines: "cstep\<^sup>*\<^sup>* s t \<Longrightarrow> cinv s \<Longrightarrow> astep\<^sup>*\<^sup>* (abstract s) (abstract t)"
proof (induction rule: rtranclp_induct)
  case (step t u)
  then show ?case using concrete.run_inv step_refines by (meson rtranclp_trans)
qed simp

end

section \<open>The tables as a bank\<close>

definition entry_amount :: "ledger_row \<Rightarrow> int" where
  "entry_amount l = signed_amount (lr_direction l) (sint (lr_money l))"

definition posting_of :: "db \<Rightarrow> ledger_row \<Rightarrow> posting" where
  "posting_of d l =
     \<lparr>po_transaction = lr_transaction l, po_amount = entry_amount l,
      po_undoes = (case find_txn (lr_transaction l) d of
        None \<Rightarrow> None
      | Some r \<Rightarrow> if reversal_kind (tr_kind r) then tr_ref_id r else None)\<rparr>"

definition accounts_of :: "db \<Rightarrow> string set \<Rightarrow> ledger_row list \<Rightarrow> bank" where
  "accounts_of d ids ls w = (if w \<in> ids then Some (map (posting_of d) (book w ls)) else None)"

definition bank_of :: "db \<Rightarrow> bank" where
  "bank_of d = accounts_of d (wr_id ` set (wallets d)) (ledger d)"

lemma posting_sel [simp]:
  "po_transaction (posting_of d l) = lr_transaction l" "po_amount (posting_of d l) = entry_amount l"
  by (simp_all add: posting_of_def)

text \<open>A step adds at most one wallet and one entry.\<close>

lemma any_step_grows:
  assumes "any_step iso4217 d d'"
  shows "\<exists>ids es. map wr_id (wallets d') = map wr_id (wallets d) @ ids \<and> length ids \<le> 1 \<and>
    ledger d' = ledger d @ es \<and> length es \<le> 1"
proof -
  have ids: "map wr_id (put_wallet w rs) = map wr_id rs" for w rs
    by (auto simp: put_wallet_def update_where_def wallet_row_of_def)
  show ?thesis
    using assms
  proof cases
    case use_case
    then show ?thesis by cases (auto simp: inbox_only_sel ids wallet_row_of_def)
  qed auto
qed

text \<open>What a posting says of a transaction never changes again.\<close>

lemma posting_stable:
  assumes "db_inv iso4217 d" and "db_inv iso4217 d'" and "db_below d d'" and "l \<in> set (ledger d)"
  shows "posting_of d' l = posting_of d l"
proof -
  obtain r where r: "r \<in> set (txns d)" "tr_id r = lr_transaction l" "moved r"
    using ledger_entry_of [OF assms(1,4)] by blast
  then obtain r' where "r' \<in> set (txns d')" "row_below r r'"
    using assms(3) by (auto simp: db_below_def all_below_def)
  moreover have "terminal_status (tr_status r)" using r(3) by (simp add: moved_def terminal_status_def)
  ultimately have "r \<in> set (txns d')" by (auto simp: row_below_def)
  with r have "find_txn (lr_transaction l) d = Some r" "find_txn (lr_transaction l) d' = Some r"
    using find_txn_iff [OF db_invD(6) [OF assms(1)]] find_txn_iff [OF db_invD(6) [OF assms(2)]] by auto
  then show ?thesis by (simp add: posting_of_def)
qed

lemma accounts_stable:
  assumes "db_inv iso4217 d" and "db_inv iso4217 d'" and "db_below d d'"
  shows "accounts_of d' ids (ledger d) = accounts_of d ids (ledger d)"
  using posting_stable [OF assms] by (auto simp: accounts_of_def book_def)

lemma book_unknown:
  assumes "db_inv iso4217 d" and "w \<notin> wr_id ` set (wallets d)" shows "book w (ledger d) = []"
  using db_invD(3) [OF assms(1)] assms(2)
  by (force simp: ledger_inv_def ledger_foreign_keys_def list_ex_iff book_def filter_empty_conv)

lemma accounts_open:
  assumes "db_inv iso4217 d" and "length ids \<le> 1"
  shows "bank_step\<^sup>*\<^sup>* (accounts_of d' (wr_id ` set (wallets d)) (ledger d))
    (accounts_of d' (wr_id ` set (wallets d) \<union> set ids) (ledger d))"
proof (cases "set ids \<subseteq> wr_id ` set (wallets d)")
  case True
  then show ?thesis by (simp add: sup_absorb1)
next
  case False
  with assms(2) obtain w where w: "ids = [w]" "w \<notin> wr_id ` set (wallets d)"
    by (cases ids) auto
  let ?b = "accounts_of d' (wr_id ` set (wallets d)) (ledger d)"
  have "bank_step ?b (?b(w \<mapsto> []))" by (rule bank_step.open_account) (simp add: accounts_of_def w)
  moreover have "?b(w \<mapsto> []) = accounts_of d' (wr_id ` set (wallets d) \<union> set ids) (ledger d)"
    using book_unknown [OF assms(1) w(2)] by (auto simp: accounts_of_def w(1) fun_eq_iff)
  ultimately show ?thesis by (simp add: r_into_rtranclp)
qed

lemma accounts_snoc:
  assumes "lr_wallet l \<in> ids"
  shows "accounts_of d ids (ls @ [l]) =
    (accounts_of d ids ls)(lr_wallet l \<mapsto> map (posting_of d) (book (lr_wallet l) ls) @ [posting_of d l])"
  using assms by (auto simp: accounts_of_def fun_eq_iff book_def)

lemma entry_bounds:
  assumes inv: "db_inv iso4217 d" and "ledger d = ls @ [l]"
  shows "lr_wallet l \<in> wr_id ` set (wallets d)"
    and "within_bounds (account_balance (map (posting_of d) (book (lr_wallet l) ls)) + entry_amount l)"
    and "lr_transaction l \<notin> lr_transaction ` set ls"
proof -
  have I: "ledger_inv d" by (rule db_invD(3) [OF inv])
  then show "lr_transaction l \<notin> lr_transaction ` set ls" by (simp add: ledger_inv_def assms(2))
  from I obtain r where r: "r \<in> set (wallets d)" "wr_id r = lr_wallet l"
    by (auto simp: ledger_inv_def assms(2) ledger_foreign_keys_def list_ex_iff)
  then show "lr_wallet l \<in> wr_id ` set (wallets d)" by (metis imageI)
  have "replay 0 (book (lr_wallet l) (ls @ [l])) = Some (sint (wr_balance r))"
    using wallet_row_facts(1) [OF inv r(1)] r(2) by (simp add: assms(2))
  from replay_total [OF this] have "sint (wr_balance r) =
      account_balance (map (posting_of d) (book (lr_wallet l) ls)) + entry_amount l"
    by (simp add: account_balance_def comp_def entry_amount_def book_def)
  then show "within_bounds (account_balance (map (posting_of d) (book (lr_wallet l) ls)) + entry_amount l)"
    using wallet_row_facts(2) [OF inv r(1)] sint_le_max [of "wr_balance r"] by (simp add: within_bounds_def)
qed

lemma posting_undoes:
  assumes inv: "db_inv iso4217 d" and l: "l \<in> set (ledger d)" and x: "po_undoes (posting_of d l) = Some x"
  shows "\<exists>r \<in> set (txns d). tr_id r = lr_transaction l \<and> successful_reversal r \<and> tr_ref_id r = Some x"
proof -
  obtain r where r: "r \<in> set (txns d)" "tr_id r = lr_transaction l" "moved r"
    using ledger_entry_of [OF inv l] by blast
  then have "find_txn (lr_transaction l) d = Some r" using find_txn_iff [OF db_invD(6) [OF inv]] by simp
  with x r show ?thesis
    by (auto simp: posting_of_def successful_reversal_def moved_def split: if_splits)
qed

text \<open>The last entry, when it undoes another, undoes an earlier one that no other undid.\<close>

lemma last_entry_undoes:
  assumes inv: "db_inv iso4217 d" and ls: "ledger d = ls @ [l]" and x: "po_undoes (posting_of d l) = Some x"
  shows "\<exists>m \<in> set (book (lr_wallet l) ls). lr_transaction m = x \<and> entry_amount l = - entry_amount m \<and>
    (\<forall>k \<in> set ls. po_undoes (posting_of d k) \<noteq> Some x)"
proof -
  have l: "l \<in> set (ledger d)" by (simp add: ls)
  obtain r where r: "r \<in> set (txns d)" "tr_id r = lr_transaction l" "successful_reversal r" "tr_ref_id r = Some x"
    using posting_undoes [OF inv l x] by blast
  from reversal_facts [OF inv r(1,3)] obtain q l' m where q: "q \<in> set (txns d)" "tr_ref_id r = Some (tr_id q)"
    "reference_fits r q" and l': "l' \<in> set (ledger d)" "lr_transaction l' = tr_id r"
    and m: "m \<in> set (ledger d)" "lr_transaction m = tr_id q"
    and a: "lr_wallet l' = lr_wallet m" "entry_amount l' = - entry_amount m"
    unfolding entry_amount_def by metis
  have dist: "distinct (map lr_transaction (ledger d))" using db_invD(3) [OF inv] by (simp add: ledger_inv_def)
  have "l' = l" using distinct_key_unique [OF dist l'(1) l] l'(2) r(2) by simp
  moreover have "q \<noteq> r" using q(3) r(3) by (auto simp: reference_fits_def successful_reversal_def reversal_kind_def)
  then have "m \<noteq> l" using txn_unique_id [OF inv q(1) r(1)] m(2) r(2) by auto
  then have "m \<in> set ls" using m(1) ls by simp
  moreover have "po_undoes (posting_of d k) \<noteq> Some x" if k: "k \<in> set ls" for k
  proof
    assume "po_undoes (posting_of d k) = Some x"
    then obtain r' where r': "r' \<in> set (txns d)" "tr_id r' = lr_transaction k" "successful_reversal r'" "tr_ref_id r' = Some x"
      using posting_undoes [OF inv, of k] k ls by auto
    then have "r' = r" using keys_ok_clash [OF db_invD(6) [OF inv] r'(1) r(1)] r(3,4) by (simp add: txn_clash_def)
    with r'(2) r(2) dist k ls show False by auto
  qed
  ultimately show ?thesis using a m(2) q(2) r(4) by (auto simp: book_def intro!: bexI [of _ m])
qed

lemma accounts_post:
  assumes inv: "db_inv iso4217 d" and ls: "ledger d = ls @ [l]"
  defines "ids \<equiv> wr_id ` set (wallets d)"
  shows "bank_step (accounts_of d ids ls) (accounts_of d ids (ls @ [l]))"
proof -
  let ?w = "lr_wallet l" and ?b = "accounts_of d ids ls"
  let ?ps = "map (posting_of d) (book (lr_wallet l) ls)"
  note e = entry_bounds [OF inv ls]
  have w: "?w \<in> ids" using e(1) by (simp add: ids_def)
  then have b: "?b ?w = Some ?ps" by (simp add: accounts_of_def)
  have fresh: "unposted (lr_transaction l) ?b"
    using e(3) by (auto simp: unposted_def accounts_of_def book_def split: if_splits)
  show ?thesis
    unfolding accounts_snoc [OF w]
  proof (cases "po_undoes (posting_of d l)")
    case None
    then have "posting_of d l = \<lparr>po_transaction = lr_transaction l, po_amount = entry_amount l, po_undoes = None\<rparr>"
      by (simp add: posting_of_def)
    then show "bank_step ?b (?b(?w \<mapsto> ?ps @ [posting_of d l]))"
      using bank_step.post [OF b fresh e(2)] by simp
  next
    case (Some x)
    from last_entry_undoes [OF inv ls Some] obtain m where m: "m \<in> set (book ?w ls)" "lr_transaction m = x"
      "entry_amount l = - entry_amount m" "\<forall>k \<in> set ls. po_undoes (posting_of d k) \<noteq> Some x" by blast
    have p: "posting_of d l = \<lparr>po_transaction = lr_transaction l, po_amount = - po_amount (posting_of d m),
        po_undoes = Some (po_transaction (posting_of d m))\<rparr>"
      using Some m(2,3) by (simp add: posting_of_def)
    have "within_bounds (account_balance ?ps - po_amount (posting_of d m))" using e(2) m(3) by simp
    moreover have "posting_of d m \<in> set ?ps" using m(1) by simp
    moreover have "\<forall>q \<in> set ?ps. po_undoes q \<noteq> Some (po_transaction (posting_of d m))"
      using m(2,4) by (auto simp: book_def)
    ultimately show "bank_step ?b (?b(?w \<mapsto> ?ps @ [posting_of d l]))"
      unfolding p by (rule bank_step.undo [OF b fresh])
  qed
qed

lemma any_step_refines:
  assumes inv: "db_inv iso4217 d" and step: "any_step iso4217 d d'"
  shows "bank_step\<^sup>*\<^sup>* (bank_of d) (bank_of d')"
proof -
  note s = any_step_sound [OF step inv]
  obtain ids es where g: "map wr_id (wallets d') = map wr_id (wallets d) @ ids" "length ids \<le> 1"
    "ledger d' = ledger d @ es" "length es \<le> 1" using any_step_grows [OF step] by blast
  have i: "wr_id ` set (wallets d') = wr_id ` set (wallets d) \<union> set ids"
    using arg_cong [OF g(1), of set] by simp
  have "bank_of d = accounts_of d' (wr_id ` set (wallets d)) (ledger d)"
    using accounts_stable [OF inv] s by (simp add: bank_of_def)
  then have "bank_step\<^sup>*\<^sup>* (bank_of d) (accounts_of d' (wr_id ` set (wallets d')) (ledger d))"
    using accounts_open [OF inv g(2)] by (simp add: i)
  also have "bank_step\<^sup>*\<^sup>* (accounts_of d' (wr_id ` set (wallets d')) (ledger d)) (bank_of d')"
  proof (cases es)
    case Nil
    with g(3) show ?thesis by (simp add: bank_of_def)
  next
    case (Cons l es')
    with g(3,4) have l: "ledger d' = ledger d @ [l]" by simp
    from accounts_post [OF conjunct1 [OF s] l] show ?thesis by (simp add: bank_of_def l r_into_rtranclp)
  qed
  finally show ?thesis .
qed

interpretation as_bank: refinement "any_step iso4217" "db_inv iso4217" bank_step bank_of for iso4217
  by unfold_locales (rule any_step_refines)

text \<open>Runs of the whole service are made of such steps.\<close>

lemma served_any_steps:
  "(served sv)\<^sup>*\<^sup>* st st' \<Longrightarrow> system_inv sv st \<Longrightarrow> (any_step (sv_iso sv))\<^sup>*\<^sup>* (fst st) (fst st')"
proof (induction rule: rtranclp_induct)
  case (step st1 st2)
  then show ?case
    using served_runs(1) [OF step.hyps(2)] system.run_inv [OF step.hyps(1)] by (meson rtranclp_trans)
qed simp

lemma account_of_wallet:
  assumes inv: "db_inv iso4217 d" and r: "r \<in> set (wallets d)"
  shows "bank_of d (wr_id r) = Some (map (posting_of d) (book (wr_id r) (ledger d)))"
    and "account_balance (map (posting_of d) (book (wr_id r) (ledger d))) = sint (wr_balance r)"
  using r replay_total [OF wallet_row_facts(1) [OF inv r]]
  by (auto simp: bank_of_def accounts_of_def account_balance_def comp_def entry_amount_def)

text \<open>
  C5: The service refines a bank: whatever requests, workers and failures run, its wallets and
  ledger evolve by steps of the abstract bank (an account is opened; an amount is posted within
  the bounds of \<open>int64\<close>, once per transaction; a posting is undone by its exact opposite, at
  most once), starting from the empty bank, so that every account satisfies what the bank
  promises, and the stored balance of each wallet is the balance of its account.
\<close>

theorem service_refines_bank:
  assumes "reachable sv st" and "(served sv)\<^sup>*\<^sup>* st st'"
  shows "bank_step\<^sup>*\<^sup>* Map.empty (bank_of (fst st)) \<and>
    bank_step\<^sup>*\<^sup>* (bank_of (fst st)) (bank_of (fst st')) \<and> sound_bank (bank_of (fst st')) \<and>
    (\<forall>r \<in> set (wallets (fst st')). \<exists>ps. bank_of (fst st') (wr_id r) = Some ps \<and>
       account_balance ps = sint (wr_balance r))"
proof -
  have run: "(served sv)\<^sup>*\<^sup>* (empty_db, []) st" using assms(1) by (simp add: reachable_def)
  note inv = reachable_inv [OF assms(1)]
  have e: "bank_of empty_db = Map.empty" by (auto simp: bank_of_def accounts_of_def empty_db_def fun_eq_iff)
  have "(any_step (sv_iso sv))\<^sup>*\<^sup>* empty_db (fst st)" using served_any_steps [OF run initial_inv] by simp
  from as_bank.run_refines [OF this empty_db_inv] have a: "bank_step\<^sup>*\<^sup>* Map.empty (bank_of (fst st))"
    by (simp add: e)
  have b: "bank_step\<^sup>*\<^sup>* (bank_of (fst st)) (bank_of (fst st'))"
    using as_bank.run_refines [OF served_any_steps [OF assms(2) inv] reachable_db_inv [OF assms(1)]] .
  have "reachable sv st'" using assms by (simp add: reachable_def)
  from account_of_wallet [OF reachable_db_inv [OF this]] bank.run_inv [OF rtranclp_trans [OF a b] empty_bank_sound] a b
  show ?thesis by blast
qed

lemma service_refines_bank_witness:
  "sound_bank (bank_of db_refund) \<and> (\<exists>ps. bank_of db_refund ''w'' = Some ps \<and> account_balance ps = 10000)"
proof -
  have "sample_row 10000 3 7 \<in> set (wallets db_refund)" "wr_id (sample_row 10000 3 7) = ''w''"
    "sint (wr_balance (sample_row 10000 3 7)) = 10000"
    by (simp_all add: db_refund_def)
  with service_refines_bank [OF reachable_refund rtranclp.rtrancl_refl] show ?thesis by fastforce
qed

end
