(* ===== verification/Metrics.thy ===== *)
theory Metrics
  imports Bank
begin

text \<open>
  The metrics (\<open>observability/metrics.go\<close>) and the calls that feed them, and what the
  reconciliation of a wallet finds. A counter with labels holds the labels it has seen; a
  histogram holds its observations, in nanoseconds.
\<close>

section \<open>Counters\<close>

record metrics =
  mt_results :: "string \<rightharpoonup> nat"
  mt_replays :: nat
  mt_conflicts :: nat
  mt_retries :: "string \<rightharpoonup> nat"
  mt_handoffs :: nat
  mt_lag :: "duration list"
  mt_durations :: "string \<rightharpoonup> duration list"
  mt_divergences :: nat

definition with_label :: "'a \<Rightarrow> string \<Rightarrow> (string \<rightharpoonup> 'a) \<Rightarrow> (string \<rightharpoonup> 'a)" where
  "with_label initial label v = (case v label of None \<Rightarrow> v(label \<mapsto> initial) | Some _ \<Rightarrow> v)"

definition increment :: "string \<Rightarrow> (string \<rightharpoonup> nat) \<Rightarrow> (string \<rightharpoonup> nat)" where
  "increment label v = (let v = with_label 0 label v in v(label := map_option Suc (v label)))"

definition observe :: "string \<Rightarrow> duration \<Rightarrow> (string \<rightharpoonup> duration list) \<Rightarrow> (string \<rightharpoonup> duration list)" where
  "observe label t v = (let v = with_label [] label v in v(label := map_option (\<lambda>ts. ts @ [t]) (v label)))"

definition status_labels :: "string list" where
  "status_labels = [''PENDING'', ''PENDING_REFERENCE'', ''PROCESSED'', ''REJECTED'', ''FAILED'', ''ERROR'']"

definition new_metrics :: metrics where
  "new_metrics =
     \<lparr>mt_results = fold (with_label 0) status_labels Map.empty, mt_replays = 0, mt_conflicts = 0,
      mt_retries = Map.empty, mt_handoffs = 0, mt_lag = [],
      mt_durations = fold (with_label []) status_labels Map.empty, mt_divergences = 0\<rparr>"

definition observe_wager :: "string \<Rightarrow> bool \<Rightarrow> duration \<Rightarrow> metrics \<Rightarrow> metrics" where
  "observe_wager status again t m =
     (let label = (if status = [] then ''ERROR'' else status);
          m = m\<lparr>mt_results := increment label (mt_results m)\<rparr>;
          m = m\<lparr>mt_durations := observe label t (mt_durations m)\<rparr>
      in if again then m\<lparr>mt_replays := Suc (mt_replays m)\<rparr> else m)"

definition inc_concurrency_conflict :: "metrics \<Rightarrow> metrics" where
  "inc_concurrency_conflict m = m\<lparr>mt_conflicts := Suc (mt_conflicts m)\<rparr>"

definition inc_sqs_retry :: "string \<Rightarrow> metrics \<Rightarrow> metrics" where
  "inc_sqs_retry reason m = m\<lparr>mt_retries := increment reason (mt_retries m)\<rparr>"

definition inc_sqs_dlq_handoff :: "metrics \<Rightarrow> metrics" where
  "inc_sqs_dlq_handoff m = m\<lparr>mt_handoffs := Suc (mt_handoffs m)\<rparr>"

definition observe_outbox_lag :: "duration \<Rightarrow> metrics \<Rightarrow> metrics" where
  "observe_outbox_lag t m = m\<lparr>mt_lag := mt_lag m @ [if t <s 0 then 0 else t]\<rparr>"

definition inc_reconciliation_divergence :: "metrics \<Rightarrow> metrics" where
  "inc_reconciliation_divergence m = m\<lparr>mt_divergences := Suc (mt_divergences m)\<rparr>"

section \<open>The measured calls\<close>

fun string_of_status :: "status \<Rightarrow> string" where
  "string_of_status StatusPending = ''PENDING''"
| "string_of_status StatusPendingReference = ''PENDING_REFERENCE''"
| "string_of_status StatusProcessed = ''PROCESSED''"
| "string_of_status StatusRejected = ''REJECTED''"
| "string_of_status StatusFailed = ''FAILED''"
| "string_of_status (StatusOther s) = s"

text \<open>The deferred function of \<open>Process\<close>: an error comes with an empty result.\<close>

definition measure_process :: "process_result res \<Rightarrow> duration \<Rightarrow> metrics \<Rightarrow> metrics" where
  "measure_process res t m =
     (let m = (case res of
            Inl _ \<Rightarrow> observe_wager [] False t m
          | Inr r \<Rightarrow> observe_wager (string_of_status (pr_status r)) (pr_replay r) t m)
      in if res = Inl ErrConflict then inc_concurrency_conflict m else m)"

definition measure_retry :: "consumer \<Rightarrow> int \<Rightarrow> bool \<Rightarrow> metrics \<Rightarrow> metrics" where
  "measure_retry co receives permanent m =
     (let m = inc_sqs_retry (if permanent then ''permanent'' else ''transient'') m
      in if co_max_receives co \<le> receives then inc_sqs_dlq_handoff m else m)"

definition measure_reconcile :: "reconciliation_view res \<Rightarrow> metrics \<Rightarrow> metrics" where
  "measure_reconcile res m =
     (case res of
        Inl _ \<Rightarrow> m
      | Inr v \<Rightarrow> if \<not> rv_consistent v then inc_reconciliation_divergence m else m)"

text \<open>The results counted so far, over the labels that are registered at the start.\<close>

definition results_total :: "metrics \<Rightarrow> nat" where
  "results_total m = sum_list (map (\<lambda>l. case mt_results m l of None \<Rightarrow> 0 | Some n \<Rightarrow> n) status_labels)"

definition labels_registered :: "metrics \<Rightarrow> bool" where
  "labels_registered m \<longleftrightarrow> dom (mt_results m) = set status_labels"

lemma new_metrics_registered: "labels_registered new_metrics" "results_total new_metrics = 0"
  by (auto simp: labels_registered_def results_total_def new_metrics_def status_labels_def with_label_def
      split: if_splits)

lemma increment_value:
  "increment label v l =
     (if l = label then Some (Suc (case v label of None \<Rightarrow> 0 | Some n \<Rightarrow> n)) else v l)"
  by (auto simp: increment_def with_label_def Let_def split: option.split)

lemma dom_increment [simp]: "dom (increment label v) = insert label (dom v)"
  by (auto simp: increment_value split: if_splits)

text \<open>Each call of \<open>Process\<close> is counted once, under a label that existed from the start.\<close>

lemma measure_process_counts:
  assumes "labels_registered m" and "\<And>r s. res = Inr r \<Longrightarrow> pr_status r \<noteq> StatusOther s"
  shows "labels_registered (measure_process res t m)" and "results_total (measure_process res t m) = Suc (results_total m)"
proof -
  define label where "label = (case res of Inl _ \<Rightarrow> ''ERROR'' | Inr r \<Rightarrow> string_of_status (pr_status r))"
  have l: "label \<in> set status_labels"
  proof (cases res)
    case (Inr r)
    then show ?thesis using assms(2) by (cases "pr_status r") (auto simp: label_def status_labels_def)
  qed (simp add: label_def status_labels_def)
  have r: "mt_results (measure_process res t m) = increment label (mt_results m)"
    using l by (auto simp: measure_process_def observe_wager_def label_def Let_def inc_concurrency_conflict_def
        status_labels_def split: sum.split)
  show "labels_registered (measure_process res t m)" using assms(1) l by (auto simp: labels_registered_def r)
  have "distinct status_labels" by (simp add: status_labels_def)
  with l show "results_total (measure_process res t m) = Suc (results_total m)"
    unfolding results_total_def r by (auto simp: status_labels_def increment_value)
qed

section \<open>Reconciliation\<close>

lemma ledger_sums:
  "sum_list (map (\<lambda>l. signed_amount (lr_direction l) (sint (lr_money l))) ls) =
     ledger_sum DirectionCredit ls - ledger_sum DirectionDebit ls"
  by (induction ls) (auto simp: ledger_sum_def signed_amount_def split: direction.split)

lemma book_in_currency:
  assumes inv: "db_inv iso4217 d" and r: "r \<in> set (wallets d)"
  shows "filter (\<lambda>l. lr_wallet l = wr_id r \<and> lr_currency l = wr_currency r) (ledger d) = book (wr_id r) (ledger d)"
  using wallet_row_facts(3) [OF inv r] by (auto simp: book_def intro!: filter_cong)

text \<open>The answer for a wallet whose turnover fits 64 bits, from the statements alone.\<close>

definition agreeing_view :: "wallet \<Rightarrow> ledger_row list \<Rightarrow> reconciliation_view" where
  "agreeing_view w ls =
     \<lparr>rv_wallet = wallet_id w, rv_stored = view_money (wallet_balance w),
      rv_calculated = view_money (wallet_balance w),
      rv_difference = view_money \<lparr>money_minor = 0, money_currency = money_currency (wallet_balance w)\<rparr>,
      rv_consistent = True, rv_entries = of_nat (length ls)\<rparr>"

definition turnover_fits :: "ledger_row list \<Rightarrow> bool" where
  "turnover_fits ls \<longleftrightarrow> int64_range (ledger_sum DirectionCredit ls) \<and> int64_range (ledger_sum DirectionDebit ls)"

lemma reconcile_run:
  assumes inv: "db_inv (sv_iso sv) (s_db s)" and w: "wallet_row_of w \<in> set (wallets (s_db s))"
  defines "ls \<equiv> book (wallet_id w) (ledger (s_db s))"
  shows "reconcile_tx sv (wallet_id w) s = Inl ErrDatabase \<or>
      turnover_fits ls \<and> (\<exists>f. reconcile_tx sv (wallet_id w) s = Inr (agreeing_view w ls, s\<lparr>s_fault := f\<rparr>))"
    and "s_fault s = None \<Longrightarrow> turnover_fits ls \<Longrightarrow> reconcile_tx sv (wallet_id w) s = Inr (agreeing_view w ls, s)"
proof -
  note sw = stored_wallet [OF db_invD(1) [OF inv] w]
  let ?b = "wallet_balance w" and ?c = "ledger_sum DirectionCredit ls" and ?d = "ledger_sum DirectionDebit ls"
  have scan: "scan_wallet (sv_iso sv) (wallet_row_of w) = Inr w" using sw(2) by (simp add: scan_wallet_ok)
  have cur: "parse_currency (sv_iso sv) (money_currency ?b)" using sw(2) by (simp add: wallet_ok_def)
  have sel: "wr_id (wallet_row_of w) = wallet_id w" "wr_currency (wallet_row_of w) = money_currency ?b"
    "wr_balance (wallet_row_of w) = money_minor ?b" by (simp_all add: wallet_row_of_def)
  have book: "filter (\<lambda>l. lr_wallet l = wallet_id w \<and> lr_currency l = money_currency ?b) (ledger (s_db s)) = ls"
    using book_in_currency [OF inv w] by (simp add: sel ls_def)
  have "replay 0 ls = Some (sint (money_minor ?b))" "0 \<le> sint (money_minor ?b)"
    using wallet_row_facts(1,2) [OF inv w] by (simp_all add: sel ls_def)
  from replay_total [OF this(1)] this(2) have total: "sint (money_minor ?b) = ?c - ?d" "0 \<le> sint (money_minor ?b)"
    by (simp_all add: ledger_sums)
  have calc: "turnover_fits ls \<Longrightarrow> (word_of_int ?c - word_of_int ?d :: int64) = money_minor ?b"
    by (simp flip: of_int_diff total(1))
  have new: "new_money_from_minor (sv_iso sv) (money_minor ?b) (money_currency ?b) = Inr ?b"
    using cur by (simp add: new_money_from_minor_def)
  have "money_minor ?b \<noteq> min_int64" using total(2) by auto
  then have sub: "money_subtract (sv_iso sv) ?b ?b = Inr \<lparr>money_minor = 0, money_currency = money_currency ?b\<rparr>"
    using cur by (simp add: money_subtract_ok)
  note unfold = reconcile_tx_def tx_bind_def tx_lift_def tx_return_def read_wallet_def sum_ledger_def select_def exec_def
    sw(1) scan book Let_def agreeing_view_def turnover_fits_def is_zero_def
  show "reconcile_tx sv (wallet_id w) s = Inl ErrDatabase \<or>
      turnover_fits ls \<and> (\<exists>f. reconcile_tx sv (wallet_id w) s = Inr (agreeing_view w ls, s\<lparr>s_fault := f\<rparr>))"
  proof (cases "turnover_fits ls")
    case True
    then show ?thesis by (auto simp: unfold calc [OF True] new sub)
  next
    case False
    then show ?thesis by (auto simp: unfold)
  qed
  show "reconcile_tx sv (wallet_id w) s = Inr (agreeing_view w ls, s)" if "s_fault s = None" "turnover_fits ls"
    using that by (simp add: unfold calc [OF that(2)] new sub)
qed

text \<open>
  C3: Reconciliation never reports a divergence: in every reachable state the answer for a
  wallet says that the stored balance is the one its ledger gives, over all its entries, and the
  divergence counter stays as it is. An undisturbed call answers whenever the total credits and
  the total debits of the wallet each fit \<open>int64\<close>; when one does not, every call fails in the
  database, however small the balance.
\<close>

theorem reconciliation_agrees:
  assumes "reachable sv (d, ms)" and "r \<in> set (wallets d)"
  shows "(\<forall>v. reconcile sv c (wr_id r) d = Inr v \<longrightarrow>
      rv_consistent v \<and> rv_stored v = rv_calculated v \<and> rv_wallet v = wr_id r \<and>
      rv_entries v = of_nat (length (book (wr_id r) (ledger d))) \<and> measure_reconcile (Inr v) m = m) \<and>
    (calm c \<and> turnover_fits (book (wr_id r) (ledger d)) \<longrightarrow> (\<exists>v. reconcile sv c (wr_id r) d = Inr v)) \<and>
    (\<not> turnover_fits (book (wr_id r) (ledger d)) \<longrightarrow> reconcile sv c (wr_id r) d = Inl ErrDatabase)"
proof -
  have inv: "db_inv (sv_iso sv) d" using reachable_db_inv [OF assms(1)] by simp
  obtain w where w: "r = wallet_row_of w" using db_invD(1) [OF inv] assms(2) by (auto simp: wallets_inv_def)
  then have id: "wr_id r = wallet_id w" by (simp add: wallet_row_of_def)
  let ?s = "start_session c d 0" and ?ls = "book (wr_id r) (ledger d)"
  have "deferred_ok d d" by (rule deferred_accepts [OF inv])
  then have run: "reconcile sv c (wr_id r) d = Inl ErrDatabase \<or>
      turnover_fits ?ls \<and> reconcile sv c (wr_id r) d = Inr (agreeing_view w ?ls)"
    and always: "calm c \<Longrightarrow> turnover_fits ?ls \<Longrightarrow> reconcile sv c (wr_id r) d = Inr (agreeing_view w ?ls)"
    using reconcile_run [where s = "\<lparr>s_db = d, s_ids = c_ids c, s_drawn = 0, s_fault = map_option (\<lambda>k. k - 1) (c_fault c)\<rparr>"
        and sv = sv and w = w] inv assms(2) w id
    by (auto simp: reconcile_def within_read_only_def within_transaction_def exec_def calm_def)
  then show ?thesis by (auto simp: agreeing_view_def measure_reconcile_def id)
qed

lemma reconciliation_agrees_witness:
  "\<exists>v. reconcile sample_service (sample_call 9 []) ''w'' db_refund = Inr v \<and> rv_consistent v \<and> rv_entries v = 3"
proof -
  have "sample_row 10000 3 7 \<in> set (wallets db_refund)" and w: "wr_id (sample_row 10000 3 7) = ''w''"
    by (simp_all add: db_refund_def)
  moreover have "calm (sample_call 9 [])" by (simp add: calm_def sample_call_def)
  moreover have "turnover_fits (book ''w'' (ledger db_refund))" "length (book ''w'' (ledger db_refund)) = 3"
    by (simp_all add: turnover_fits_def ledger_sum_def int64_range_def book_def db_refund_def db_bet_def db_opened_def
        sample_entry_def)
  ultimately show ?thesis
    using reconciliation_agrees [OF reachable_refund, of "sample_row 10000 3 7" "sample_call 9 []" new_metrics] by auto
qed

end
