(* ===== verification/Leases.thy ===== *)
theory Leases
  imports Sample
begin

text \<open>
  The leases of the outbox. While the lease of a claimed event runs, no other worker can claim,
  confirm or release the event, whatever else is served; so its holder can confirm it. And what
  the leases do not give: the order of the events of one aggregate.
\<close>

section \<open>Rows under a lease\<close>

definition leased :: "string \<Rightarrow> string \<Rightarrow> time \<Rightarrow> db \<Rightarrow> bool" where
  "leased eid worker until d \<longleftrightarrow>
     (\<exists>r \<in> set (outbox d). leased_by eid worker r \<and> or_locked_until r = Some until)"

text \<open>What may happen beside a worker before a given time: requests, and passes of other workers.\<close>

fun beside :: "string \<Rightarrow> time \<Rightarrow> request \<Rightarrow> bool" where
  "beside worker until (RelayOutbox arrange other limit lease now as) \<longleftrightarrow> other \<noteq> worker \<and> now \<le> until"
| "beside _ _ _ \<longleftrightarrow> True"

inductive meanwhile :: "service \<Rightarrow> string \<Rightarrow> time \<Rightarrow> relay \<Rightarrow> relay \<Rightarrow> bool" for sv worker until where
  "admissible q \<Longrightarrow> beside worker until q \<Longrightarrow> meanwhile sv worker until st (serve sv q st)"

inductive_cases meanwhileE: "meanwhile sv worker until st st'"

lemma meanwhile_served: "meanwhile sv worker until st st' \<Longrightarrow> served sv st st'"
  by (auto elim!: meanwhileE intro: served.intros)

lemma leased_appends: "outbox_appends d d' \<Longrightarrow> leased eid worker until d \<Longrightarrow> leased eid worker until d'"
  by (auto simp: outbox_appends_def leased_def)

lemma leased_kept:
  assumes "leased eid worker until d"
    and "\<And>r. r \<in> set (outbox d) \<Longrightarrow> leased_by eid worker r \<Longrightarrow> or_locked_until r = Some until \<Longrightarrow> \<not> p r"
  shows "leased eid worker until (d\<lparr>outbox := update_where p f (outbox d)\<rparr>)"
  using assms by (force simp: leased_def set_update_where)

lemma event_row_unique:
  "outbox_inv d \<Longrightarrow> r \<in> set (outbox d) \<Longrightarrow> q \<in> set (outbox d) \<Longrightarrow>
   oe_id (or_event r) = oe_id (or_event q) \<Longrightarrow> r = q"
  unfolding outbox_inv_def events_def map_map
  by (metis (no_types, lifting) comp_apply distinct_key_unique)

lemma set_candidates: "set (candidates now limit rs) \<subseteq> {r \<in> set rs. claimable now r}"
  using set_take_subset [of limit "sort_key claim_key (filter (claimable now) rs)"]
  by (auto simp: candidates_def)

lemma claimed_events:
  assumes "\<And>ces. mset (arrange ces) = mset ces"
  shows "ce_event ` set (fst (claim_outbox arrange worker limit lease now d)) =
    or_event ` set (candidates now limit (outbox d))"
proof -
  have "set (arrange ces) = set ces" for ces :: "claimed_event list"
    using assms by (rule mset_eq_setD)
  then show ?thesis by (simp add: claim_outbox_def Let_def image_image)
qed

lemma leased_not_claimable:
  "leased_by eid worker r \<Longrightarrow> or_locked_until r = Some until \<Longrightarrow> now \<le> until \<Longrightarrow> \<not> claimable now r"
  by (simp add: claimable_def)

lemma claim_respects_lease:
  assumes o: "outbox_inv d" and l: "leased eid worker until d" and n: "now \<le> until"
  shows "leased eid worker until (snd (claim_outbox arrange other limit lease now d))"
    and "(\<And>ces. mset (arrange ces) = mset ces) \<Longrightarrow>
      ce \<in> set (fst (claim_outbox arrange other limit lease now d)) \<Longrightarrow> oe_id (ce_event ce) \<noteq> eid"
proof -
  have other: "oe_id (or_event c) \<noteq> eid" if c: "c \<in> set (candidates now limit (outbox d))" for c
  proof
    assume "oe_id (or_event c) = eid"
    moreover from l obtain r where r: "r \<in> set (outbox d)" "leased_by eid worker r" "or_locked_until r = Some until"
      by (auto simp: leased_def)
    moreover have cl: "c \<in> set (outbox d)" "claimable now c" using c set_candidates by blast+
    ultimately have "c = r" by (intro event_row_unique [OF o]) (auto simp: leased_by_def)
    with r n cl(2) show False using leased_not_claimable by blast
  qed
  show "leased eid worker until (snd (claim_outbox arrange other limit lease now d))"
    unfolding claim_outbox_def Let_def snd_conv
    by (rule leased_kept [OF l]) (auto simp: list_ex_iff leased_by_def dest: other)
  assume "\<And>ces. mset (arrange ces) = mset ces" "ce \<in> set (fst (claim_outbox arrange other limit lease now d))"
  then have "ce_event ce \<in> or_event ` set (candidates now limit (outbox d))"
    using claimed_events by blast
  then show "oe_id (ce_event ce) \<noteq> eid" using other by force
qed

lemma relay_event_respects_lease:
  assumes "leased eid worker until (fst st)" and "other \<noteq> worker"
  shows "leased eid worker until (fst (relay_event other a ce st))"
  using assms
  by (auto simp: relay_event_def Let_def release_outbox_def mark_outbox_published_def leased_by_def
      intro!: leased_kept)

lemma relay_events_respect_lease:
  "other \<noteq> worker \<Longrightarrow> leased eid worker until (fst st) \<Longrightarrow>
   leased eid worker until (fst (relay_events other as ces st))"
  by (induction other as ces st rule: relay_events.induct) (simp_all add: relay_event_respects_lease)

lemma relay_pass_respects_lease:
  assumes "outbox_inv (fst st)" and "leased eid worker until (fst st)" and "other \<noteq> worker" and "now \<le> until"
  shows "leased eid worker until (fst (relay_pass arrange other limit lease now as st))"
  using claim_respects_lease(1) [OF assms(1,2,4), of arrange other limit lease]
    relay_events_respect_lease [OF assms(3), of eid until "(_, snd st)"]
  by (cases "claim_outbox arrange other limit lease now (fst st)") (simp add: relay_pass_def)

lemma use_case_leased: "(db_step iso4217)\<^sup>*\<^sup>* d d' \<Longrightarrow> leased eid worker until d \<Longrightarrow> leased eid worker until d'"
  by (rule leased_appends [OF appends.run_below])

lemma meanwhile_keeps_lease:
  assumes "meanwhile sv worker until st st'" and inv: "system_inv sv st" and l: "leased eid worker until (fst st)"
  shows "leased eid worker until (fst st')"
proof -
  have d: "db_inv (sv_iso sv) (fst st)" "outbox_inv (fst st)" using inv by (simp_all add: system_inv_def db_inv_def)
  from assms(1) obtain q where q: "beside worker until q" "st' = serve sv q st" by (auto elim: meanwhileE)
  show ?thesis
    using q relay_pass_respects_lease [OF d(2) l]
      use_case_leased [OF create_run [OF d(1) surjective_pairing] l]
      use_case_leased [OF process_run [OF d(1) surjective_pairing] l]
      use_case_leased [OF resolve_run [OF d(1) surjective_pairing] l]
      use_case_leased [OF record_failure_run [OF d(1) surjective_pairing] l]
    by (cases q) auto
qed

lemma meanwhile_run:
  assumes "(meanwhile sv worker until)\<^sup>*\<^sup>* st st'" and "system_inv sv st" and "leased eid worker until (fst st)"
  shows "leased eid worker until (fst st') \<and> system_inv sv st'"
  using assms
proof (induction rule: rtranclp_induct)
  case (step st1 st2)
  then show ?case using meanwhile_keeps_lease served_runs(2) [OF meanwhile_served] by blast
qed simp

lemma claimed_is_leased:
  assumes o: "outbox_inv d" and "\<And>ces. mset (arrange ces) = mset ces"
    and ce: "ce \<in> set (fst (claim_outbox arrange worker limit lease now d))"
  shows "leased (oe_id (ce_event ce)) worker (time_add now lease)
    (snd (claim_outbox arrange worker limit lease now d))"
proof -
  from ce claimed_events [OF assms(2)]
  obtain c where c: "c \<in> set (candidates now limit (outbox d))" "ce_event ce = or_event c" by blast
  then have in_table: "c \<in> set (outbox d)" "or_published c = None"
    using set_candidates [of now limit "outbox d"] by (auto simp: claimable_def)
  let ?c = "c\<lparr>or_locked_by := Some worker, or_locked_until := Some (time_add now lease)\<rparr>"
  have "?c \<in> set (outbox (snd (claim_outbox arrange worker limit lease now d)))"
    using in_table(1) c(1) by (auto simp: claim_outbox_def Let_def set_update_where list_ex_iff)
  moreover have "leased_by (oe_id (ce_event ce)) worker ?c" "or_locked_until ?c = Some (time_add now lease)"
    using c(2) in_table(2) by (simp_all add: leased_by_def)
  ultimately show ?thesis unfolding leased_def by blast
qed

lemma leased_can_confirm:
  assumes o: "outbox_inv d" and "leased eid worker until d"
  shows "fst (mark_outbox_published eid worker t d) = Inr ()"
proof -
  from assms(2) obtain r where r: "r \<in> set (outbox d)" "leased_by eid worker r" by (auto simp: leased_def)
  have "q = r" if "leased_by eid worker q" "q \<in> set (outbox d)" for q
    using event_row_unique [OF o that(2) r(1)] that(1) r(2) by (simp add: leased_by_def)
  with r have "{q \<in> set (outbox d). leased_by eid worker q} = {r}" by blast
  then have "set (filter (leased_by eid worker) (outbox d)) = {r}" by simp
  moreover have "distinct (map oe_id (events d))" using o by (simp add: outbox_inv_def)
  then have "distinct (outbox d)" by (simp only: events_def distinct_map)
  ultimately have "length (filter (leased_by eid worker) (outbox d)) = 1"
    using distinct_card [of "filter (leased_by eid worker) (outbox d)"] by simp
  then show ?thesis by (simp add: mark_outbox_published_def count_where_def)
qed

section \<open>The lease is exclusive\<close>

text \<open>
  C17: The lease of the outbox is exclusive: once a worker has claimed an event in a reachable
  state, then until the lease ends, whatever requests are served and whatever the other workers
  do, no other worker claims the event, and its holder's confirmation succeeds.
\<close>

theorem lease_is_exclusive:
  assumes "reachable sv (d, ms)" and "\<And>ces. mset (arrange ces) = mset ces"
    and "claim_outbox arrange worker limit lease now d = (claimed, d1)" and "ce \<in> set claimed"
    and "(meanwhile sv worker (time_add now lease))\<^sup>*\<^sup>* (d1, ms) (d2, ms2)"
  shows "fst (mark_outbox_published (oe_id (ce_event ce)) worker t d2) = Inr () \<and>
    (now2 \<le> time_add now lease \<longrightarrow> (\<forall>ces. mset (arrange2 ces) = mset ces) \<longrightarrow>
       (\<forall>ce2 \<in> set (fst (claim_outbox arrange2 other limit2 lease2 now2 d2)).
          oe_id (ce_event ce2) \<noteq> oe_id (ce_event ce)))"
proof -
  have inv: "outbox_inv d" using reachable_db_inv [OF assms(1)] by (simp add: db_inv_def)
  let ?q = "RelayOutbox arrange worker limit lease now []"
  have "serve sv ?q (d, ms) = (d1, ms)" using assms(3) by (simp add: relay_pass_def)
  moreover have "admissible ?q" using assms(2) by simp
  ultimately have "reachable sv (d1, ms)" using reachable_serve [OF assms(1)] by blast
  from meanwhile_run [OF assms(5) reachable_inv [OF this]] claimed_is_leased [OF inv assms(2), of ce worker limit lease now]
  have l: "leased (oe_id (ce_event ce)) worker (time_add now lease) d2" and o: "outbox_inv d2"
    using assms(3,4) by (simp_all add: system_inv_def db_inv_def)
  from leased_can_confirm [OF o l] claim_respects_lease(2) [OF o l] show ?thesis by blast
qed

definition sample_claim :: "claimed_event list \<times> db" where
  "sample_claim = claim_outbox (\<lambda>ces. ces) ''wk'' 10 30000000000 9 db_opened"

lemma lease_is_exclusive_witness:
  "\<exists>ce \<in> set (fst sample_claim). fst (mark_outbox_published (oe_id (ce_event ce)) ''wk'' 10
     (snd (process sample_service (sample_call 6 [''t1'', ''l1'', ''e2'', ''e3'']) bet_cmd (snd sample_claim)))) = Inr ()"
proof -
  obtain ce where ce: "ce \<in> set (fst sample_claim)"
    by (simp add: sample_claim_def claim_outbox_def Let_def candidates_def claimable_def
        db_opened_def outbox_row_of_def claim_key_def) fastforce
  let ?q = "ProcessWager (sample_call 6 [''t1'', ''l1'', ''e2'', ''e3'']) bet_cmd"
  have "meanwhile sample_service ''wk'' (time_add 9 30000000000) (snd sample_claim, []) (serve sample_service ?q (snd sample_claim, []))"
    by (rule meanwhile.intros) simp_all
  then have "(meanwhile sample_service ''wk'' (time_add 9 30000000000))\<^sup>*\<^sup>* (snd sample_claim, [])
      (snd (process sample_service (sample_call 6 [''t1'', ''l1'', ''e2'', ''e3'']) bet_cmd (snd sample_claim)), [])"
    by simp
  from conjunct1 [OF lease_is_exclusive [where arrange = "\<lambda>ces. ces" and limit = 10, OF reachable_opened refl _ ce this]]
  have "fst (mark_outbox_published (oe_id (ce_event ce)) ''wk'' 10
      (snd (process sample_service (sample_call 6 [''t1'', ''l1'', ''e2'', ''e3'']) bet_cmd (snd sample_claim)))) = Inr ()"
    by (simp add: sample_claim_def)
  with ce show ?thesis by blast
qed

section \<open>Events of one aggregate can overtake each other\<close>

text \<open>
  The bet of the sample run leaves four events; the second is the opening credit of the wallet,
  the fourth the debit of the bet, both \<open>WalletBalanceChanged\<close> of the wallet \<open>w\<close>. The queue
  refuses the second once; the worker goes on with the batch and comes back to it later, so that
  the queue receives the two events of the wallet in the wrong order.
\<close>

definition sample_attempt :: "delivery \<Rightarrow> time \<Rightarrow> attempt" where
  "sample_attempt dl t = \<lparr>at_delivery = dl, at_now = t, at_reason = [], at_stored = True\<rparr>"

definition overtaken :: relay where
  "overtaken =
     relay_pass (\<lambda>ces. ces) ''wk'' 10 30000000000 2000000009 [sample_attempt Accepted 2000000010]
       (relay_pass (\<lambda>ces. ces) ''wk'' 10 30000000000 9
         (map (\<lambda>dl. sample_attempt dl 9) [Accepted, Refused, Accepted, Accepted]) (db_bet, []))"

lemma first_backoff: "time_add t (outbox_backoff 1) = t + 1000000000"
  using outbox_backoff_value [of 1] by (simp add: time_add_def capped_doubling_def)

lemma events_can_overtake:
  "map (\<lambda>m. (msg_dedup m, msg_group m)) (snd overtaken) =
     [(''e0'', ''t0''), (''e2'', ''t1''), (''e3'', ''w''), (''e1'', ''w'')]"
  by (simp add: overtaken_def relay_pass_def claim_outbox_def Let_def candidates_def claimable_def
      db_bet_def db_opened_def outbox_row_of_def claim_key_def update_where_def relay_event_def
      mark_outbox_published_def release_outbox_def leased_by_def sample_attempt_def first_backoff publish_def)

lemma reachable_overtaken: "reachable sample_service overtaken"
  unfolding overtaken_def
  by (rule reachable_serve [OF reachable_serve [OF reachable_bet]]; (rule serve.simps | simp))

end
