(* ===== verification/Lifecycle.thy ===== *)
theory Lifecycle
  imports Queues "HOL-Library.Sublist"
begin

text \<open>
  The composition of the service and its life (\<open>composition/module.go\<close>, the constructors it
  names and the hooks they append): which part needs which, what each hook does when the service
  starts, the goroutines of the workers, and the order of start and stop. The container, \<open>fx\<close>,
  is not part of the program: what it documents about the order of constructors and hooks are
  the predicates \<open>constructed\<close> and \<open>fx_run\<close>, hypotheses of the theorems.
\<close>

section \<open>The module\<close>

datatype part =
    ConfigPart | LoggerPart | ValidatorPart | MetricsPart | TracingPart | ApplicationMetricsPart
  | MetricsHandlerPart | PoolPart | StorePart | ReferencePolicyPart | WalletServicePart
  | WagerServicePart | QueryServicePart | AuthenticatorPart | IdentityReadinessPart | SqsClientPart
  | QueuesPart | SqsReadinessPart | HandlerPart | ServerPart

datatype node = Built part | RegisterConsumer | RegisterOutboxWorker | RegisterReferenceWorker | InvokeServer

record fx_module =
  fm_name :: string
  fm_provide :: "part list"
  fm_invoke :: "node list"

definition wagering_module :: "fx_module list" where
  "wagering_module =
     [\<lparr>fm_name = ''foundation'',
        fm_provide = [ConfigPart, LoggerPart, ValidatorPart, MetricsPart, TracingPart,
          ApplicationMetricsPart, MetricsHandlerPart], fm_invoke = []\<rparr>,
      \<lparr>fm_name = ''persistence'', fm_provide = [PoolPart, StorePart], fm_invoke = []\<rparr>,
      \<lparr>fm_name = ''application'',
        fm_provide = [ReferencePolicyPart, WalletServicePart, WagerServicePart, QueryServicePart], fm_invoke = []\<rparr>,
      \<lparr>fm_name = ''identity'', fm_provide = [AuthenticatorPart, IdentityReadinessPart], fm_invoke = []\<rparr>,
      \<lparr>fm_name = ''messaging'', fm_provide = [SqsClientPart, QueuesPart, SqsReadinessPart],
        fm_invoke = [RegisterConsumer, RegisterOutboxWorker, RegisterReferenceWorker]\<rparr>,
      \<lparr>fm_name = ''http'', fm_provide = [HandlerPart, ServerPart], fm_invoke = [InvokeServer]\<rparr>]"

text \<open>
  The parameters of the constructors and of the invoked functions, in their order; the
  \<open>fx.Lifecycle\<close> that the container supplies itself is left out.
\<close>

fun part_needs :: "part \<Rightarrow> part list" where
  "part_needs ConfigPart = []"
| "part_needs LoggerPart = []"
| "part_needs ValidatorPart = []"
| "part_needs MetricsPart = []"
| "part_needs TracingPart = [ConfigPart, LoggerPart]"
| "part_needs ApplicationMetricsPart = [MetricsPart]"
| "part_needs MetricsHandlerPart = [MetricsPart]"
| "part_needs PoolPart = [ConfigPart, TracingPart, LoggerPart]"
| "part_needs StorePart = [PoolPart]"
| "part_needs ReferencePolicyPart = [ConfigPart]"
| "part_needs WalletServicePart = [StorePart, ValidatorPart, ApplicationMetricsPart, LoggerPart]"
| "part_needs WagerServicePart =
     [StorePart, ValidatorPart, ApplicationMetricsPart, LoggerPart, ReferencePolicyPart]"
| "part_needs QueryServicePart = [StorePart]"
| "part_needs AuthenticatorPart = [ConfigPart]"
| "part_needs IdentityReadinessPart = [AuthenticatorPart]"
| "part_needs SqsClientPart = [ConfigPart, TracingPart]"
| "part_needs QueuesPart = [SqsClientPart, ConfigPart, LoggerPart]"
| "part_needs SqsReadinessPart = [QueuesPart]"
| "part_needs HandlerPart =
     [WalletServicePart, WagerServicePart, QueryServicePart, StorePart, SqsReadinessPart,
      IdentityReadinessPart, MetricsHandlerPart, ValidatorPart, LoggerPart]"
| "part_needs ServerPart = [ConfigPart, HandlerPart, AuthenticatorPart, TracingPart, LoggerPart]"

fun needs :: "node \<Rightarrow> part list" where
  "needs (Built p) = part_needs p"
| "needs RegisterConsumer =
     [QueuesPart, WagerServicePart, ValidatorPart, ApplicationMetricsPart, ConfigPart, LoggerPart]"
| "needs RegisterOutboxWorker = [StorePart, QueuesPart, ApplicationMetricsPart, ConfigPart, LoggerPart]"
| "needs RegisterReferenceWorker = [StorePart, WagerServicePart, ConfigPart, LoggerPart]"
| "needs InvokeServer = [ServerPart]"

definition provided :: "part list" where
  "provided = concat (map fm_provide wagering_module)"

definition invoked :: "node list" where
  "invoked = concat (map fm_invoke wagering_module)"

section \<open>The hooks\<close>

text \<open>Which constructor or invoked function appends a hook to the lifecycle.\<close>

fun appends_hook :: "config \<Rightarrow> node \<Rightarrow> bool" where
  "appends_hook cfg (Built p) \<longleftrightarrow> p \<in> {TracingPart, PoolPart, AuthenticatorPart, QueuesPart, ServerPart}"
| "appends_hook cfg InvokeServer \<longleftrightarrow> False"
| "appends_hook cfg _ \<longleftrightarrow> cw_enabled (cf_workers cfg)"

text \<open>
  What the world answers at the start: the database to a ping, the identity provider to its
  discovery, SQS, and the system to the request to listen on an address.
\<close>

record world =
  wo_ping :: bool
  wo_discover :: "string \<Rightarrow> (string \<Rightarrow> id_token option) option"
  wo_sqs :: sqs_service
  wo_urls :: url_library
  wo_calls :: "sqs_call list"
  wo_listen :: "string \<Rightarrow> bool"

datatype start_error =
    DatabaseNotReady
  | ProviderNotDiscovered
  | QueuesNotPrepared prepare_error
  | ListenFailed

definition ping_hook :: "world \<Rightarrow> start_error option" where
  "ping_hook wo = (if wo_ping wo then None else Some DatabaseNotReady)"

definition configured_authenticator :: "config \<Rightarrow> authenticator \<Rightarrow> authenticator" where
  "configured_authenticator cfg au =
     au\<lparr>au_issuer := ci_issuer (cf_oidc cfg), au_discovery := ci_discovery (cf_oidc cfg),
        au_provider_claim := ci_provider_claim (cf_oidc cfg),
        au_internal_role := ci_internal_role (cf_oidc cfg), au_verifier := None\<rparr>"

definition discovery_hook :: "config \<Rightarrow> world \<Rightarrow> authenticator \<Rightarrow> start_error option \<times> authenticator" where
  "discovery_hook cfg wo au =
     (case start_authenticator (wo_discover wo) au of
        None \<Rightarrow> (Some ProviderNotDiscovered, au)
      | Some au' \<Rightarrow> (None, au'))"

definition new_queues :: queues where
  "new_queues = \<lparr>qu_input = [], qu_input_dlq = [], qu_event = [], qu_event_dlq = []\<rparr>"

definition queues_hook :: "config \<Rightarrow> world \<Rightarrow> queues \<Rightarrow> start_error option \<times> queues" where
  "queues_hook cfg wo qs =
     (case fst (prepare (wo_sqs wo) (wo_urls wo) (cf_aws cfg) qs (wo_calls wo)) of
        (None, qs') \<Rightarrow> (None, qs')
      | (Some e, qs') \<Rightarrow> (Some (QueuesNotPrepared e), qs'))"

definition listen_hook :: "config \<Rightarrow> world \<Rightarrow> start_error option" where
  "listen_hook cfg wo = (if wo_listen wo (ch_address (cf_http cfg)) then None else Some ListenFailed)"

text \<open>The error of a hook's \<open>OnStart\<close>; the hooks of tracing and of the workers have none.\<close>

fun on_start :: "config \<Rightarrow> world \<Rightarrow> authenticator \<Rightarrow> node \<Rightarrow> start_error option" where
  "on_start cfg wo au (Built PoolPart) = ping_hook wo"
| "on_start cfg wo au (Built AuthenticatorPart) =
     fst (discovery_hook cfg wo (configured_authenticator cfg au))"
| "on_start cfg wo au (Built QueuesPart) = fst (queues_hook cfg wo new_queues)"
| "on_start cfg wo au (Built ServerPart) = listen_hook cfg wo"
| "on_start cfg wo au _ = None"

section \<open>The goroutines of the workers\<close>

text \<open>
  The state of the hook that \<open>RegisterConsumer\<close>, \<open>RegisterOutboxWorker\<close> or
  \<open>RegisterReferenceWorker\<close> appends, with the count of its wait group: before \<open>OnStart\<close>, after it,
  in \<open>OnStop\<close> once the context is cancelled, and after \<open>OnStop\<close> has returned without or with the
  error of its own context.
\<close>

datatype phase = Idle | Running nat | Stopping nat | Answered bool nat

fun goroutines :: "phase \<Rightarrow> nat" where
  "goroutines Idle = 0"
| "goroutines (Running k) = k"
| "goroutines (Stopping k) = k"
| "goroutines (Answered answer k) = k"

text \<open>The loop of \<open>RegisterConsumer\<close>: the indices of the goroutines it starts.\<close>

function spawn :: "int \<Rightarrow> int \<Rightarrow> int list" where
  "spawn index concurrency = (if index < concurrency then index # spawn (index + 1) concurrency else [])"
  by pat_completeness auto
termination
  by (relation "measure (\<lambda>(index, concurrency). nat (concurrency - index))") auto

declare spawn.simps [simp del]

lemma spawn_upto: "spawn index concurrency = [index..concurrency - 1]"
  by (induction index concurrency rule: spawn.induct)
    (subst spawn.simps, simp add: upto.simps [of index for index])

fun workers_of :: "config \<Rightarrow> node \<Rightarrow> nat" where
  "workers_of cfg RegisterConsumer = length (spawn 0 (cw_concurrency (cf_workers cfg)))"
| "workers_of cfg _ = 1"

text \<open>
  The steps of a hook that starts \<open>n\<close> goroutines, with what the container sees of them: that
  \<open>OnStart\<close> has returned, and whether \<open>OnStop\<close> has answered \<open>nil\<close>. The loop of a worker ends
  only when its context is cancelled, so a goroutine returns only after \<open>OnStop\<close> was called.
  \<open>OnStop\<close> answers \<open>nil\<close> once the wait group is empty, or the error of its context when that ends
  first; it may be called on a hook that was never started, where \<open>cancel\<close> is \<open>nil\<close>.
\<close>

datatype signal = Silent | Starts | Answers bool

inductive worker_step :: "nat \<Rightarrow> phase \<Rightarrow> signal \<Rightarrow> phase \<Rightarrow> bool" for n where
  start: "worker_step n Idle Starts (Running n)"
| stop: "worker_step n (Running k) Silent (Stopping k)"
| stop_idle: "worker_step n Idle Silent (Stopping 0)"
| finish: "worker_step n (Stopping (Suc k)) Silent (Stopping k)"
| finish_late: "worker_step n (Answered answer (Suc k)) Silent (Answered answer k)"
| in_time: "worker_step n (Stopping 0) (Answers True) (Answered True 0)"
| late: "worker_step n (Stopping k) (Answers False) (Answered False k)"

inductive_cases worker_stepE: "worker_step n p a q"

definition worker_moves :: "nat \<Rightarrow> phase \<Rightarrow> phase \<Rightarrow> bool" where
  "worker_moves n p q \<longleftrightarrow> (\<exists>a. worker_step n p a q)"

interpretation worker: lifecycle "worker_moves n" "\<lambda>p. goroutines p \<le> n" "\<lambda>p. \<exists>answer. p = Answered answer 0"
  for n
  by unfold_locales (auto simp: worker_moves_def elim!: worker_stepE)

text \<open>Whatever has been stopped, its goroutines can all return, and then \<open>OnStop\<close> answers \<open>nil\<close>.\<close>

lemma stopping_ends: "(worker_moves n)\<^sup>*\<^sup>* (Stopping k) (Answered True 0)"
proof (induction k)
  case 0
  show ?case using in_time [of n] by (auto simp: worker_moves_def)
next
  case (Suc k)
  have "worker_moves n (Stopping (Suc k)) (Stopping k)" using finish [of n k] by (auto simp: worker_moves_def)
  then show ?case using Suc by (rule converse_rtranclp_into_rtranclp)
qed

section \<open>What the container promises\<close>

text \<open>
  A constructor runs once, after the constructors of all its parameters; the invoked functions
  run in the order of the modules.
\<close>

fun constructed_after :: "node list \<Rightarrow> node list \<Rightarrow> bool" where
  "constructed_after built [] \<longleftrightarrow> True"
| "constructed_after built (n # ns) \<longleftrightarrow>
     n \<notin> set built \<and> list_all (\<lambda>p. Built p \<in> set built) (needs n) \<and> constructed_after (n # built) ns"

definition constructed :: "node list \<Rightarrow> bool" where
  "constructed ns \<longleftrightarrow> constructed_after [] ns \<and> filter (\<lambda>n. n \<in> set invoked) ns = invoked"

text \<open>
  The hooks start in the order in which they were appended, until one fails; those that have
  started are stopped in the reverse order, also when a stop answers an error. A run may be cut
  off at any point. A stop carries whether it answered \<open>nil\<close>.
\<close>

datatype event = Started node | StartFailed node | Stopped node bool

definition fx_run :: "(node \<Rightarrow> bool) \<Rightarrow> node list \<Rightarrow> event list \<Rightarrow> bool" where
  "fx_run ok hooks tr \<longleftrightarrow>
     (\<exists>answers. prefix tr
        (map Started (takeWhile ok hooks) @ map StartFailed (take 1 (dropWhile ok hooks)) @
         map2 Stopped (rev (takeWhile ok hooks)) answers))"

definition live :: "event list \<Rightarrow> node \<Rightarrow> bool" where
  "live tr n \<longleftrightarrow> Started n \<in> set tr \<and> (\<forall>answer. Stopped n answer \<notin> set tr)"

section \<open>The module is complete\<close>

definition depends :: "node \<Rightarrow> node \<Rightarrow> bool" where
  "depends n m \<longleftrightarrow> (\<exists>p \<in> set (needs n). m = Built p)"

lemma depends_Built [simp]: "depends n (Built p) \<longleftrightarrow> p \<in> set (needs n)"
  by (auto simp: depends_def)

lemma constructed_before:
  "constructed_after built (xs @ n # ys) \<Longrightarrow> depends n m \<Longrightarrow> m \<in> set built \<union> set xs"
  by (induction xs arbitrary: built) (fastforce simp: depends_def list_all_iff)+

lemma constructed_before_all:
  assumes "constructed_after [] ns" and "depends\<^sup>+\<^sup>+ n m" and "ns = xs @ n # ys"
  shows "m \<in> set xs"
  using assms(2,1,3)
proof (induction arbitrary: xs ys rule: converse_tranclp_induct)
  case (base n)
  then show ?case using constructed_before [of "[]" xs n ys m] by simp
next
  case (step n n1)
  from constructed_before [of "[]" xs n ys n1] step.hyps(1) step.prems have "n1 \<in> set xs" by simp
  then obtain xs1 xs2 where xs: "xs = xs1 @ n1 # xs2" by (meson split_list)
  with step.IH [OF step.prems(1), of xs1 "xs2 @ n # ys"] step.prems(2) show ?case by simp
qed

lemma constructed_distinct: "constructed_after built ns \<Longrightarrow> distinct ns \<and> set ns \<inter> set built = {}"
  by (induction built ns rule: constructed_after.induct) auto

definition build_order :: "node list" where
  "build_order =
     map Built [ConfigPart, LoggerPart, TracingPart, SqsClientPart, QueuesPart, PoolPart, StorePart, ValidatorPart,
       MetricsPart, ApplicationMetricsPart, ReferencePolicyPart, WagerServicePart] @
     [RegisterConsumer, RegisterOutboxWorker, RegisterReferenceWorker] @
     map Built [WalletServicePart, QueryServicePart, SqsReadinessPart, AuthenticatorPart, IdentityReadinessPart,
       MetricsHandlerPart, HandlerPart, ServerPart] @ [InvokeServer]"

lemma build_order_constructed: "constructed build_order"
  by (simp add: constructed_def build_order_def invoked_def wagering_module_def)

lemma part_in_build_order: "Built p \<in> set build_order"
  by (cases p) (simp_all add: build_order_def)

lemma depends_acyclic: "\<not> depends\<^sup>+\<^sup>+ n n"
proof
  assume d: "depends\<^sup>+\<^sup>+ n n"
  have "n \<in> set build_order"
    using part_in_build_order by (cases n) (auto simp: build_order_def)
  then obtain xs ys where "build_order = xs @ n # ys" by (meson split_list)
  then have ns: "constructed_after [] (xs @ n # ys)" using build_order_constructed by (simp add: constructed_def)
  from constructed_before_all [OF ns d refl] constructed_distinct [OF ns] show False by simp
qed

lemma needs_step: "depends\<^sup>+\<^sup>+ n (Built p) \<Longrightarrow> q \<in> set (part_needs p) \<Longrightarrow> depends\<^sup>+\<^sup>+ n (Built q)"
  by (erule tranclp.trancl_into_trancl) simp

lemma server_needs: "depends\<^sup>+\<^sup>+ InvokeServer (Built p)"
proof -
  have server: "depends\<^sup>+\<^sup>+ InvokeServer (Built ServerPart)" by (rule tranclp.r_into_trancl) simp
  from needs_step [OF server] have handler: "depends\<^sup>+\<^sup>+ InvokeServer (Built HandlerPart)" by simp
  note direct = needs_step [OF server] needs_step [OF handler]
  from direct have wagers: "depends\<^sup>+\<^sup>+ InvokeServer (Built WagerServicePart)"
    and store: "depends\<^sup>+\<^sup>+ InvokeServer (Built StorePart)"
    and ready: "depends\<^sup>+\<^sup>+ InvokeServer (Built SqsReadinessPart)"
    and scrape: "depends\<^sup>+\<^sup>+ InvokeServer (Built MetricsHandlerPart)" by simp_all
  from needs_step [OF ready] have queues: "depends\<^sup>+\<^sup>+ InvokeServer (Built QueuesPart)" by simp
  note steps = direct needs_step [OF wagers] needs_step [OF store] needs_step [OF queues] needs_step [OF scrape]
  show ?thesis by (cases p) (simp_all add: server queues steps)
qed

text \<open>
  The module is complete: every parameter of a constructor or of an invoked function is
  provided by exactly one constructor, no part depends on itself, an order of construction
  exists, and every provided part is needed for something that is invoked.
\<close>

lemma module_is_complete:
  "distinct provided \<and> (\<forall>n. set (needs n) \<subseteq> set provided) \<and> (\<forall>n. \<not> depends\<^sup>+\<^sup>+ n n) \<and>
   (\<exists>ns. constructed ns) \<and> (\<forall>p. \<exists>n \<in> set invoked. depends\<^sup>+\<^sup>+ n (Built p))"
proof (intro conjI allI)
  show "distinct provided" by (simp add: provided_def wagering_module_def)
  show "set (needs n) \<subseteq> set provided" for n
  proof
    fix p show "p \<in> set provided" by (cases p) (simp_all add: provided_def wagering_module_def)
  qed
  show "\<not> depends\<^sup>+\<^sup>+ n n" for n by (rule depends_acyclic)
  show "\<exists>ns. constructed ns" using build_order_constructed by blast
  show "\<exists>n \<in> set invoked. depends\<^sup>+\<^sup>+ n (Built p)" for p
    using server_needs [of p] by (rule bexI) (simp add: invoked_def wagering_module_def)
qed

section \<open>Runs\<close>

lemma prefix_reaches:
  "prefix tr (as @ x # bs) \<Longrightarrow> y \<in> set tr \<Longrightarrow> y \<notin> set as \<Longrightarrow> x = y \<or> x \<in> set tr"
  by (induction as arbitrary: tr) (auto simp: prefix_Cons, blast)

lemma takeWhile_split:
  "distinct hooks \<Longrightarrow> hooks = as @ n # bs \<Longrightarrow> n \<in> set (takeWhile ok hooks) \<Longrightarrow>
   takeWhile ok hooks = as @ n # takeWhile ok bs"
  by (auto simp: takeWhile_append dest: set_takeWhileD split: if_splits)

lemma fx_run_started:
  assumes "fx_run ok hooks tr" and "Started n \<in> set tr"
  shows "n \<in> set hooks" and "ok n" and "n \<in> set (takeWhile ok hooks)"
proof -
  from assms(1) obtain answers where "prefix tr
        (map Started (takeWhile ok hooks) @ map StartFailed (take 1 (dropWhile ok hooks)) @
         map2 Stopped (rev (takeWhile ok hooks)) answers)" unfolding fx_run_def by blast
  from set_mono_prefix [OF this] assms(2) show t: "n \<in> set (takeWhile ok hooks)"
    by (auto dest: set_zip_leftD)
  then show "n \<in> set hooks" "ok n" by (auto dest: set_takeWhileD)
qed

lemma fx_run_order:
  assumes run: "fx_run ok hooks tr" and "distinct hooks" and hooks: "hooks = as @ n # bs" and m: "m \<in> set as"
    and n: "Started n \<in> set tr"
  shows "Started m \<in> set tr" and "Stopped m answer \<in> set tr \<Longrightarrow> \<exists>answer. Stopped n answer \<in> set tr"
proof -
  let ?up = "takeWhile ok hooks" let ?failed = "map StartFailed (take 1 (dropWhile ok hooks))"
  from run obtain answers where tr: "prefix tr (map Started ?up @ ?failed @ map2 Stopped (rev ?up) answers)"
    unfolding fx_run_def by blast
  have up: "?up = as @ n # takeWhile ok bs"
    using takeWhile_split [OF assms(2) hooks] fx_run_started(3) [OF run n] by simp
  from m obtain as1 as2 where as: "as = as1 @ m # as2" by (meson split_list)
  have dist: "distinct (as1 @ m # as2 @ n # bs)" using assms(2) hooks as by simp
  show "Started m \<in> set tr"
    using prefix_reaches [of tr "map Started as1" "Started m" _ "Started n"] tr n dist unfolding up as by auto
  assume s: "Stopped m answer \<in> set tr"
  define later where "later = rev (takeWhile ok bs)"
  have later: "rev ?up = later @ n # rev as" by (simp add: up later_def)
  have l: "m \<notin> set later" using dist by (auto simp: later_def dest: set_takeWhileD)
  have "Stopped m answer \<in> set (map2 Stopped (rev ?up) answers)" using set_mono_prefix [OF tr] s by auto
  then have len: "length later < length answers"
    using l unfolding later by (cases "length later < length answers") (auto simp: zip_append1 dest!: set_zip_leftD)
  define x where "x = Stopped n (answers ! length later)"
  have "map2 Stopped (rev ?up) answers =
      map2 Stopped later (take (length later) answers) @ x # map2 Stopped (rev as) (drop (Suc (length later)) answers)"
    using len by (simp add: later zip_append1 x_def Cons_nth_drop_Suc [symmetric])
  then have "prefix tr ((map Started ?up @ ?failed @ map2 Stopped later (take (length later) answers)) @
      x # map2 Stopped (rev as) (drop (Suc (length later)) answers))" using tr by simp
  moreover have "Stopped m answer \<notin> set (map Started ?up @ ?failed @ map2 Stopped later (take (length later) answers))"
    using l by (auto dest: set_zip_leftD)
  ultimately have "x = Stopped m answer \<or> x \<in> set tr" by (rule prefix_reaches [OF _ s])
  then show "\<exists>answer. Stopped n answer \<in> set tr" using dist by (auto simp: x_def as)
qed

lemma live_order:
  assumes "fx_run ok hooks tr" and "distinct hooks" and "hooks = as @ n # bs" and "m \<in> set as"
    and "Started n \<in> set tr" and "\<forall>answer. Stopped n answer \<notin> set tr"
  shows "live tr m \<and> ok m"
  using fx_run_order [OF assms(1-5)] assms(6) fx_run_started(2) [OF assms(1)] by (auto simp: live_def)

text \<open>A hook that is live has every hook of the parts it depends on live, and started well.\<close>

lemma live_depends:
  assumes c: "constructed ns" and run: "fx_run ok (filter (appends_hook cfg) ns) tr"
    and d: "depends\<^sup>+\<^sup>+ n m" and m: "appends_hook cfg m" and n: "live tr n"
  shows "live tr m \<and> ok m"
proof -
  have ns: "constructed_after [] ns" using c by (simp add: constructed_def)
  have "n \<in> set (filter (appends_hook cfg) ns)" using fx_run_started(1) [OF run] n by (simp add: live_def)
  then obtain as bs where split: "ns = as @ n # bs" and "appends_hook cfg n" by (auto dest: split_list)
  then have hooks: "filter (appends_hook cfg) ns = filter (appends_hook cfg) as @ n # filter (appends_hook cfg) bs"
    by simp
  from constructed_before_all [OF ns d split] m have "m \<in> set (filter (appends_hook cfg) as)" by simp
  from live_order [OF run _ hooks this] n constructed_distinct [OF ns] show ?thesis by (simp add: live_def)
qed

text \<open>
  A hook in a run of the container: what the container sees of the steps of the hook are the
  events of its node, in their order, and the other events do not concern it.
\<close>

fun about :: "event \<Rightarrow> node" where
  "about (Started n) = n"
| "about (StartFailed n) = n"
| "about (Stopped n answer) = n"

inductive worker_run :: "config \<Rightarrow> node \<Rightarrow> event list \<Rightarrow> phase \<Rightarrow> bool" for cfg n where
  begin_run: "worker_run cfg n [] Idle"
| elsewhere: "worker_run cfg n tr p \<Longrightarrow> about e \<noteq> n \<Longrightarrow> worker_run cfg n (tr @ [e]) p"
| silent: "worker_run cfg n tr p \<Longrightarrow> worker_step (workers_of cfg n) p Silent q \<Longrightarrow> worker_run cfg n tr q"
| started: "worker_run cfg n tr p \<Longrightarrow> worker_step (workers_of cfg n) p Starts q \<Longrightarrow>
    worker_run cfg n (tr @ [Started n]) q"
| answered: "worker_run cfg n tr p \<Longrightarrow> worker_step (workers_of cfg n) p (Answers answer) q \<Longrightarrow>
    worker_run cfg n (tr @ [Stopped n answer]) q"

text \<open>Goroutines were started, and a stop that answered \<open>nil\<close> has waited for all of them.\<close>

lemma worker_run_events:
  "worker_run cfg n tr p \<Longrightarrow>
   (goroutines p \<noteq> 0 \<longrightarrow> Started n \<in> set tr) \<and> (Stopped n True \<in> set tr \<longrightarrow> p = Answered True 0)"
proof (induction rule: worker_run.induct)
  case (elsewhere tr p e)
  then show ?case by auto
next
  case (silent tr p q)
  from silent.hyps(2) silent.IH show ?case by cases auto
next
  case (started tr p q)
  from started.hyps(2) started.IH show ?case by cases auto
next
  case (answered tr p answer q)
  from answered.hyps(2) answered.IH show ?case by cases auto
qed simp

lemma worker_run_elsewhere:
  "worker_run cfg n tr p \<Longrightarrow> n \<notin> about ` set es \<Longrightarrow> worker_run cfg n (tr @ es) p"
  by (induction es rule: rev_induct) (auto intro: elsewhere simp flip: append_assoc)

definition is_worker :: "node \<Rightarrow> bool" where
  "is_worker n \<longleftrightarrow> n \<in> {RegisterConsumer, RegisterOutboxWorker, RegisterReferenceWorker}"

lemma worker_live:
  assumes "worker_run cfg n tr p" and "goroutines p \<noteq> 0" and "Stopped n False \<notin> set tr"
  shows "live tr n"
  unfolding live_def
proof (intro conjI allI)
  show "Started n \<in> set tr" using worker_run_events [OF assms(1)] assms(2) by blast
  show "Stopped n answer \<notin> set tr" for answer
    using worker_run_events [OF assms(1)] assms(2,3) by (cases answer) auto
qed

lemma worker_needs:
  assumes "is_worker n"
  shows "depends\<^sup>+\<^sup>+ n (Built TracingPart)" and "depends\<^sup>+\<^sup>+ n (Built PoolPart)"
    and "n \<noteq> RegisterReferenceWorker \<Longrightarrow> depends\<^sup>+\<^sup>+ n (Built QueuesPart)"
proof -
  have "depends\<^sup>+\<^sup>+ n (Built StorePart)"
  proof (cases "n = RegisterConsumer")
    case True
    then have "depends\<^sup>+\<^sup>+ n (Built WagerServicePart)" by (intro tranclp.r_into_trancl) simp
    then show ?thesis by (rule needs_step) simp
  next
    case False
    with assms show ?thesis by (intro tranclp.r_into_trancl) (auto simp: is_worker_def)
  qed
  then show pool: "depends\<^sup>+\<^sup>+ n (Built PoolPart)" by (rule needs_step) simp
  then show "depends\<^sup>+\<^sup>+ n (Built TracingPart)" by (rule needs_step) simp
  show "depends\<^sup>+\<^sup>+ n (Built QueuesPart)" if "n \<noteq> RegisterReferenceWorker"
    using that assms by (intro tranclp.r_into_trancl) (auto simp: is_worker_def)
qed

text \<open>
  C18: Workers live inside the parts they use. At every point of a run of the container, as
  long as a goroutine of a worker runs and the stop of its hook has not run out of time, the
  pool has answered its ping and is not closed and tracing is not shut down; and a goroutine of
  the consumer or the outbox worker runs only after the queues were prepared without an error.
  The container starts the hooks in the order of the constructors, as it documents; that a stop
  which answers \<open>nil\<close> has waited for all goroutines is what the steps of the hook say.
\<close>

theorem workers_live_inside_their_parts:
  assumes "constructed ns" and "fx_run (\<lambda>n. on_start cfg wo au n = None) (filter (appends_hook cfg) ns) tr"
    and "is_worker n" and "worker_run cfg n tr p" and "goroutines p \<noteq> 0" and "Stopped n False \<notin> set tr"
  shows "live tr (Built TracingPart) \<and> live tr (Built PoolPart) \<and> wo_ping wo \<and>
    (n \<noteq> RegisterReferenceWorker \<longrightarrow> live tr (Built QueuesPart) \<and> fst (queues_hook cfg wo new_queues) = None)"
proof -
  note d = live_depends [OF assms(1,2) _ _ worker_live [OF assms(4-6)]]
  show ?thesis
    using d [OF worker_needs(1)] d [OF worker_needs(2)] d [OF worker_needs(3)] assms(3)
    by (auto simp: ping_hook_def split: if_splits)
qed

section \<open>A run\<close>

definition sample_world :: world where
  "sample_world =
     \<lparr>wo_ping = True, wo_discover = (\<lambda>_. Some (\<lambda>_. None)), wo_sqs = sample_sqs, wo_urls = sample_urls,
      wo_calls = [], wo_listen = (\<lambda>_. True)\<rparr>"

definition sample_authenticator :: authenticator where
  "sample_authenticator =
     \<lparr>au_issuer = [], au_discovery = [], au_provider_claim = [], au_internal_role = [], au_verifier = None,
      au_string = Some, au_roles = (\<lambda>_. Some [])\<rparr>"

lemma sample_hooks:
  "filter (appends_hook default_config) build_order =
     [Built TracingPart, Built QueuesPart, Built PoolPart, RegisterConsumer, RegisterOutboxWorker,
      RegisterReferenceWorker, Built AuthenticatorPart, Built ServerPart]"
  by (simp add: build_order_def default_values)

lemma sample_starts: "on_start default_config sample_world sample_authenticator n = None"
proof -
  obtain h' where "prepare sample_sqs sample_urls sample_aws new_queues [] =
     ((None, \<lparr>qu_input = ''u:wager-transactions.fifo'', qu_input_dlq = ''u:wager-transactions-dlq.fifo'',
             qu_event = ''u:wager-events.fifo'', qu_event_dlq = ''u:wager-events-dlq.fifo''\<rparr>), h')"
    using sample_prepared by blast
  then show ?thesis
    by (cases "(default_config, sample_world, sample_authenticator, n)" rule: on_start.cases)
      (simp_all add: ping_hook_def listen_hook_def discovery_hook_def queues_hook_def start_authenticator_def
        sample_world_def flip: sample_aws_def)
qed

definition sample_events :: "event list" where
  "sample_events = map Started (filter (appends_hook default_config) build_order)"

lemma sample_run:
  "fx_run (\<lambda>n. on_start default_config sample_world sample_authenticator n = None)
     (filter (appends_hook default_config) build_order) sample_events"
  unfolding fx_run_def by (rule exI [of _ "[]"]) (simp add: sample_starts sample_events_def sample_hooks)

lemma discovered_verifies: "discovery_hook cfg wo au = (None, au') \<Longrightarrow> au_verifier au' \<noteq> None"
  by (auto simp: discovery_hook_def start_authenticator_def split: option.splits)

text \<open>
  C40: The server listens only when everything is ready: as long as its hook is live, tracing
  and the pool are live, the queues were prepared without an error and the identity provider
  was discovered, so that no request is answered with \<open>IDENTITY_UNAVAILABLE\<close>.
\<close>

theorem server_listens_when_ready:
  assumes "constructed ns" and "fx_run (\<lambda>n. on_start cfg wo au n = None) (filter (appends_hook cfg) ns) tr"
    and "live tr (Built ServerPart)"
  shows "(\<forall>part \<in> {TracingPart, PoolPart, QueuesPart, AuthenticatorPart}. live tr (Built part)) \<and>
    wo_ping wo \<and> fst (queues_hook cfg wo new_queues) = None \<and>
    (\<exists>au'. discovery_hook cfg wo (configured_authenticator cfg au) = (None, au') \<and>
       (\<forall>header. authenticate au' header \<noteq> Inl (503, ''IDENTITY_UNAVAILABLE'')))"
proof -
  note server = needs_step [of "Built ServerPart", OF needs_step [of "Built ServerPart", OF tranclp.r_into_trancl]]
  have auth: "depends\<^sup>+\<^sup>+ (Built ServerPart) (Built AuthenticatorPart)"
    and trace: "depends\<^sup>+\<^sup>+ (Built ServerPart) (Built TracingPart)" by (auto intro: tranclp.r_into_trancl)
  have pool: "depends\<^sup>+\<^sup>+ (Built ServerPart) (Built PoolPart)"
    by (rule server [of HandlerPart StorePart]) simp_all
  have queues: "depends\<^sup>+\<^sup>+ (Built ServerPart) (Built QueuesPart)"
    by (rule server [of HandlerPart SqsReadinessPart]) simp_all
  note d = live_depends [OF assms(1,2) _ _ assms(3)]
  from d [OF auth] obtain au' where au': "discovery_hook cfg wo (configured_authenticator cfg au) = (None, au')"
    by (cases "discovery_hook cfg wo (configured_authenticator cfg au)") auto
  have "authenticate au' header \<noteq> Inl (503, ''IDENTITY_UNAVAILABLE'')" for header
    using discovered_verifies [OF au'] by (auto simp: authenticate_def split: list.splits option.splits)
  with au' d [OF auth] d [OF trace] d [OF pool] d [OF queues] show ?thesis
    by (auto simp: ping_hook_def split: if_splits)
qed

lemma workers_live_inside_their_parts_witness:
  "live sample_events (Built PoolPart) \<and> live sample_events (Built QueuesPart) \<and> wo_ping sample_world"
proof -
  let ?before = "[Started (Built TracingPart), Started (Built QueuesPart), Started (Built PoolPart), Started RegisterConsumer]"
    and ?after = "[Started RegisterReferenceWorker, Started (Built AuthenticatorPart), Started (Built ServerPart)]"
  have "worker_run default_config RegisterOutboxWorker ([] @ ?before) Idle"
    by (rule worker_run_elsewhere [OF begin_run]) simp
  moreover have "worker_step (workers_of default_config RegisterOutboxWorker) Idle Starts (Running 1)"
    using worker_step.start [of 1] by simp
  ultimately have "worker_run default_config RegisterOutboxWorker (([] @ ?before) @ [Started RegisterOutboxWorker]) (Running 1)"
    by (rule worker_run.started)
  then have "worker_run default_config RegisterOutboxWorker
      ((([] @ ?before) @ [Started RegisterOutboxWorker]) @ ?after) (Running 1)"
    by (rule worker_run_elsewhere) simp
  then have "worker_run default_config RegisterOutboxWorker sample_events (Running 1)"
    by (simp add: sample_events_def sample_hooks)
  from workers_live_inside_their_parts [OF build_order_constructed sample_run _ this] show ?thesis
    by (simp add: is_worker_def sample_events_def sample_hooks)
qed

lemma server_listens_when_ready_witness:
  "live sample_events (Built AuthenticatorPart) \<and>
   fst (discovery_hook default_config sample_world (configured_authenticator default_config sample_authenticator)) = None"
proof -
  have "live sample_events (Built ServerPart)" by (simp add: live_def sample_events_def sample_hooks)
  from server_listens_when_ready [OF build_order_constructed sample_run this] show ?thesis by auto
qed

end
