(* ===== verification/Tracing.thy ===== *)
theory Tracing
  imports Lifecycle
begin

text \<open>
  The set-up of the clients and of the telemetry: the trace provider
  (\<open>observability/tracing.go\<close>), the log handler that adds the ids of the span
  (\<open>observability/logging.go\<close>), the connection pool (\<open>postgres/pool.go\<close>), the SQS client
  (\<open>NewSQSClient\<close>), the HTTP server and the log of a request. The libraries behind them, their
  failures included, are parameters.
\<close>

section \<open>The trace provider\<close>

datatype exporter_option = WithEndpoint string | WithInsecure

datatype sampler = NeverSample | ParentBasedRatio float64

datatype ('e, 'r) provider_option = WithSampler sampler | WithBatcher 'e | WithResource 'r

datatype propagator = TraceContext | Baggage

datatype tracing_error = ExporterNotCreated string | ResourceNotCreated string

record ('e, 'r) tracing =
  tc_options :: "('e, 'r) provider_option list"
  tc_propagators :: "propagator list"

definition exporter_options :: "observability_config \<Rightarrow> exporter_option list" where
  "exporter_options ob = WithEndpoint (ob_otlp ob) # (if ob_insecure ob then [WithInsecure] else [])"

definition service_attributes :: "observability_config \<Rightarrow> (string \<times> string) list" where
  "service_attributes ob =
     [(''service.name'', ob_service ob), (''service.version'', ob_version ob),
      (''deployment.environment.name'', ob_environment ob)]"

definition new_tracing ::
    "(exporter_option list \<Rightarrow> string + 'e) \<Rightarrow> ((string \<times> string) list \<Rightarrow> string + 'r) \<Rightarrow>
     observability_config \<Rightarrow> tracing_error + ('e, 'r) tracing" where
  "new_tracing new_exporter merge_resource ob =
     (if \<not> ob_tracing ob
      then Inr \<lparr>tc_options = [WithSampler NeverSample], tc_propagators = [TraceContext, Baggage]\<rparr>
      else case new_exporter (exporter_options ob) of
        Inl e \<Rightarrow> Inl (ExporterNotCreated e)
      | Inr exporter \<Rightarrow>
          (case merge_resource (service_attributes ob) of
             Inl e \<Rightarrow> Inl (ResourceNotCreated e)
           | Inr resource \<Rightarrow>
               Inr \<lparr>tc_options = [WithBatcher exporter, WithResource resource,
                      WithSampler (ParentBasedRatio (ob_sample ob))],
                    tc_propagators = [TraceContext, Baggage]\<rparr>))"

text \<open>Without tracing the start cannot fail here, and no library but the provider is used.\<close>

lemma tracing_off:
  "\<not> ob_tracing ob \<Longrightarrow> new_tracing f g ob = new_tracing f' g' ob \<and> \<not> isl (new_tracing f g ob)"
  by (simp add: new_tracing_def)

text \<open>The headers that travel between the services are the same with and without tracing.\<close>

lemma propagators_fixed: "new_tracing f g ob = Inr tc \<Longrightarrow> tc_propagators tc = [TraceContext, Baggage]"
  by (auto simp: new_tracing_def split: if_splits sum.splits)

section \<open>The log handler\<close>

text \<open>
  The span of a context, \<open>None\<close> when it is not valid; the handlers of \<open>slog\<close> are a type with
  its operations.
\<close>

record span_context =
  sp_trace :: string
  sp_span :: string

record log_record =
  lr_message :: string
  lr_attributes :: "(string \<times> string) list"

record ('h, 'o) slog =
  sl_handle :: "'h \<Rightarrow> span_context option \<Rightarrow> log_record \<Rightarrow> 'o"
  sl_with_attrs :: "(string \<times> string) list \<Rightarrow> 'h \<Rightarrow> 'h"
  sl_with_group :: "string \<Rightarrow> 'h \<Rightarrow> 'h"

definition with_span :: "span_context option \<Rightarrow> log_record \<Rightarrow> log_record" where
  "with_span ctx r =
     (case ctx of
        None \<Rightarrow> r
      | Some sp \<Rightarrow> r\<lparr>lr_attributes := lr_attributes r @ [(''traceId'', sp_trace sp), (''spanId'', sp_span sp)]\<rparr>)"

text \<open>A \<open>traceLogHandler\<close> is the handler it embeds, under these operations.\<close>

definition with_trace_context :: "('h, 'o) slog \<Rightarrow> ('h, 'o) slog" where
  "with_trace_context sl =
     \<lparr>sl_handle = (\<lambda>h ctx r. sl_handle sl h ctx (with_span ctx r)),
      sl_with_attrs = (\<lambda>attrs h. sl_with_attrs sl attrs h),
      sl_with_group = (\<lambda>name h. sl_with_group sl name h)\<rparr>"

datatype derivation = WithAttrs "(string \<times> string) list" | WithGroup string

fun derive_logger :: "('h, 'o) slog \<Rightarrow> derivation list \<Rightarrow> 'h \<Rightarrow> 'h" where
  "derive_logger sl [] h = h"
| "derive_logger sl (WithAttrs attrs # ds) h = derive_logger sl ds (sl_with_attrs sl attrs h)"
| "derive_logger sl (WithGroup name # ds) h = derive_logger sl ds (sl_with_group sl name h)"

text \<open>However a logger was derived, it writes what the plain one would, with the ids of the span, once.\<close>

lemma derived_logger_traces:
  "sl_handle (with_trace_context sl) (derive_logger (with_trace_context sl) ds h) ctx r =
     sl_handle sl (derive_logger sl ds h) ctx (with_span ctx r)"
  by (induction sl ds h rule: derive_logger.induct) (simp_all add: with_trace_context_def)

section \<open>The pool\<close>

datatype pool_error = DatabaseUrlInvalid string | PoolNotCreated string

record 'p pool_settings =
  ps_parsed :: 'p
  ps_max_connections :: int32

definition new_pool ::
    "(string \<Rightarrow> string + 'p) \<Rightarrow> ('p pool_settings \<Rightarrow> string + 'q) \<Rightarrow> database_config \<Rightarrow> pool_error + 'q" where
  "new_pool parse_url connect db =
     (case parse_url (cd_url db) of
        Inl e \<Rightarrow> Inl (DatabaseUrlInvalid e)
      | Inr pc \<Rightarrow>
          (case connect \<lparr>ps_parsed = pc, ps_max_connections = cd_max_connections db\<rparr> of
             Inl e \<Rightarrow> Inl (PoolNotCreated e)
           | Inr pool \<Rightarrow> Inr pool))"

section \<open>The SQS client\<close>

record sqs_client =
  sc_region :: string
  sc_credentials :: "(string \<times> string) option"
  sc_endpoint :: "string option"
  sc_checksum_off :: bool

text \<open>\<open>LoadDefaultConfig\<close> reads what the options leave open from its environment and may fail.\<close>

definition new_sqs_client ::
    "(string \<Rightarrow> (string \<times> string) option \<Rightarrow> string option) \<Rightarrow> aws_config \<Rightarrow> string + sqs_client" where
  "new_sqs_client load_failure aws =
     (let credentials =
        (if ca_access_key aws \<noteq> [] \<and> ca_secret_key aws \<noteq> [] then Some (ca_access_key aws, ca_secret_key aws) else None)
      in case load_failure (ca_region aws) credentials of
        Some e \<Rightarrow> Inl e
      | None \<Rightarrow>
          Inr \<lparr>sc_region = ca_region aws, sc_credentials = credentials,
               sc_endpoint = (if ca_endpoint aws \<noteq> [] then Some (ca_endpoint aws) else None),
               sc_checksum_off = ca_checksum_off aws\<rparr>)"

text \<open>
  An accepted configuration names both parts of the credentials or neither, so that the client
  never drops one that was given.
\<close>

lemma credentials_kept:
  assumes "load cx e = Inr cfg" and "new_sqs_client f (cf_aws cfg) = Inr client"
    and "ca_access_key (cf_aws cfg) \<noteq> [] \<or> ca_secret_key (cf_aws cfg) \<noteq> []"
  shows "sc_credentials client = Some (ca_access_key (cf_aws cfg), ca_secret_key (cf_aws cfg))"
  using assms by (auto simp: load_eq validate_config_def new_sqs_client_def Let_def split: if_splits option.splits)

section \<open>The HTTP server\<close>

record http_server =
  hs_address :: string
  hs_read_timeout :: duration
  hs_write_timeout :: duration
  hs_traced :: "string \<Rightarrow> bool"

definition new_server :: "http_config \<Rightarrow> http_server" where
  "new_server ch =
     \<lparr>hs_address = ch_address ch, hs_read_timeout = ch_read_timeout ch, hs_write_timeout = ch_write_timeout ch,
      hs_traced = (\<lambda>path. path \<noteq> ''/health/live'' \<and> path \<noteq> ''/health/ready'' \<and> path \<noteq> ''/metrics'')\<rparr>"

text \<open>The deadline of \<open>Shutdown\<close>: the earlier of the container's and the configured timeout.\<close>

definition shutdown_deadline :: "http_config \<Rightarrow> time option \<Rightarrow> time \<Rightarrow> time" where
  "shutdown_deadline ch parent now =
     (let own = time_add now (ch_shutdown_timeout ch)
      in case parent of None \<Rightarrow> own | Some t \<Rightarrow> min t own)"

end
