(* ===== verification/Json.thy ===== *)
theory Json
  imports Metrics
begin

text \<open>
  The JSON of the answers and of the requests: the field names and the \<open>omitempty\<close> options of
  the tags in \<open>application/contracts.go\<close>, \<open>httpapi/dto_response.go\<close> and
  \<open>httpapi/dto_request.go\<close>. A JSON text is kept as its value; instants are RFC 3339 texts.
\<close>

datatype json =
    JString string
  | JNumber int
  | JBool bool
  | JArray "json list"
  | JObject "(string \<times> json) list"

text \<open>A field that is left out when its text is empty, and one that is left out when its pointer is \<open>nil\<close>.\<close>

definition text_field :: "string \<Rightarrow> string \<Rightarrow> (string \<times> json) list" where
  "text_field name s = (if s = [] then [] else [(name, JString s)])"

definition pointer_field :: "string \<Rightarrow> ('a \<Rightarrow> json) \<Rightarrow> 'a option \<Rightarrow> (string \<times> json) list" where
  "pointer_field name f x = (case x of None \<Rightarrow> [] | Some y \<Rightarrow> [(name, f y)])"

definition time_json :: "time \<Rightarrow> json" where
  "time_json t = JString (format_rfc3339 t)"

fun string_of_direction :: "direction \<Rightarrow> string" where
  "string_of_direction DirectionDebit = ''DEBIT''"
| "string_of_direction DirectionCredit = ''CREDIT''"
| "string_of_direction (DirectionOther s) = s"

section \<open>Answers\<close>

definition money_json :: "money_view \<Rightarrow> json" where
  "money_json m = JObject [(''amount'', JString (mv_amount m)), (''currency'', JString (mv_currency m))]"

text \<open>\<open>omitempty\<close> has no effect on a \<open>time.Time\<close>, which is a struct.\<close>

definition wallet_json :: "wallet_view \<Rightarrow> json" where
  "wallet_json v =
     JObject [(''id'', JString (wv_id v)), (''playerId'', JString (wv_player v)),
       (''balance'', money_json (wv_balance v)), (''version'', JNumber (sint (wv_version v))),
       (''createdAt'', time_json (wv_created v)), (''updatedAt'', time_json (wv_updated v))]"

definition result_json :: "process_result \<Rightarrow> json" where
  "result_json r =
     JObject ([(''transactionId'', JString (pr_transaction r)),
        (''status'', JString (string_of_status (pr_status r))), (''balance'', money_json (pr_balance r))] @
       text_field ''failureCode'' (pr_failure r) @ [(''idempotentReplay'', JBool (pr_replay r))])"

definition transaction_json :: "transaction_view \<Rightarrow> json" where
  "transaction_json v =
     JObject ([(''id'', JString (tv_id v))] @ text_field ''providerId'' (tv_provider v) @
       text_field ''externalTransactionId'' (tv_external v) @
       [(''walletId'', JString (tv_wallet v)), (''playerId'', JString (tv_player v))] @
       text_field ''roundId'' (tv_round v) @ text_field ''gameId'' (tv_game v) @
       [(''kind'', JString (string_of_kind (tv_kind v))), (''money'', money_json (tv_money v))] @
       text_field ''referenceExternalTransactionId'' (tv_ref_external v) @
       text_field ''referenceTransactionId'' (tv_ref_id v) @
       [(''status'', JString (string_of_status (tv_status v)))] @ text_field ''failureCode'' (tv_failure v) @
       pointer_field ''resultBalance'' money_json (tv_result v) @ [(''attemptCount'', JNumber (tv_attempts v))] @
       pointer_field ''nextAttemptAt'' time_json (tv_next v) @
       [(''createdAt'', time_json (tv_created v)), (''updatedAt'', time_json (tv_updated v))])"

definition entry_json :: "ledger_entry_view \<Rightarrow> json" where
  "entry_json v =
     JObject [(''id'', JString (lv_id v)), (''transactionId'', JString (lv_transaction v)),
       (''direction'', JString (string_of_direction (lv_direction v))), (''money'', money_json (lv_money v)),
       (''balanceBefore'', money_json (lv_before v)), (''balanceAfter'', money_json (lv_after v)),
       (''createdAt'', time_json (lv_created v))]"

definition page_json :: "ledger_page \<Rightarrow> json" where
  "page_json p = JObject ([(''items'', JArray (map entry_json (page_items p)))] @ text_field ''nextCursor'' (page_next p))"

definition reconciliation_json :: "reconciliation_view \<Rightarrow> json" where
  "reconciliation_json v =
     JObject [(''walletId'', JString (rv_wallet v)), (''storedBalance'', money_json (rv_stored v)),
       (''calculatedBalance'', money_json (rv_calculated v)), (''difference'', money_json (rv_difference v)),
       (''consistent'', JBool (rv_consistent v)), (''checkedEntries'', JNumber (sint (rv_entries v)))]"

definition problem_json :: "string \<Rightarrow> string \<Rightarrow> json" where
  "problem_json code message =
     JObject [(''error'', JObject [(''code'', JString code), (''message'', JString message)])]"

text \<open>The body of an answer; \<open>message\<close> is the text of a problem.\<close>

fun body_json :: "string \<Rightarrow> answer_body \<Rightarrow> json" where
  "body_json message (ProblemBody code) = problem_json code message"
| "body_json message (WagerBody r) = result_json r"
| "body_json message (TransactionBody v) = transaction_json v"
| "body_json message (WalletBody v) = wallet_json v"
| "body_json message (LedgerBody p) = page_json p"
| "body_json message (ReconciliationBody v) = reconciliation_json v"

section \<open>Health\<close>

definition check_json :: "health_check \<Rightarrow> json" where
  "check_json c =
     JObject ([(''status'', JString (hk_status c)), (''latencyMs'', JNumber (hk_latency c))] @
       text_field ''message'' (hk_message c))"

text \<open>\<open>names\<close> are the keys of the map in the order of the encoder.\<close>

definition health_json :: "string list \<Rightarrow> health_response \<Rightarrow> json" where
  "health_json names r =
     JObject [(''status'', JString (hr_status r)), (''checkedAt'', time_json (hr_checked_at r)),
       (''checks'', JObject (List.map_filter (\<lambda>n. map_option (\<lambda>c. (n, check_json c)) (hr_checks r n)) names))]"

section \<open>Requests\<close>

definition money_request_json :: "money_request \<Rightarrow> json" where
  "money_request_json m = JObject [(''amount'', JString (mq_amount m)), (''currency'', JString (mq_currency m))]"

definition wallet_request_json :: "wallet_request \<Rightarrow> json" where
  "wallet_request_json w =
     JObject [(''initialBalance'', money_request_json (wq_initial w)), (''playerId'', JString (wq_player w))]"

definition wager_request_json :: "wager_request \<Rightarrow> json" where
  "wager_request_json g =
     JObject [(''externalTransactionId'', JString (gq_external g)), (''gameId'', JString (gq_game g)),
       (''kind'', JString (gq_kind g)), (''money'', money_request_json (gq_money g)),
       (''playerId'', JString (gq_player g)), (''providerId'', JString (gq_provider g)),
       (''referenceExternalTransactionId'', JString (gq_ref_external g)), (''roundId'', JString (gq_round g)),
       (''walletId'', JString (gq_wallet g))]"

end
