(* ===== verification/Swagger.thy ===== *)
theory Swagger
  imports Json Lifecycle
begin

text \<open>
  The description of the API that the service publishes (\<open>docs/swagger/docs.go\<close>): its paths with
  their parameters and answers, and its schemas. The human texts (summaries, descriptions, tags,
  examples) are left out. Proved here: every answer of the handlers is an instance of the
  schema documented for its status, up to the statuses that the description does not
  list; every request that passes validation is an instance of its schema; the paths and their
  security are those of the router.
\<close>

section \<open>Schemas\<close>

text \<open>
  \<open>StringSchema format enum maxLength\<close>, \<open>IntegerSchema minimum maximum default\<close>,
  \<open>MapSchema additionalProperties\<close>, \<open>ObjectSchema required properties\<close>; an empty \<open>enum\<close>
  is none.
\<close>

datatype schema =
    Ref string
  | StringSchema "string option" "string list" "nat option"
  | IntegerSchema "int option" "int option" "int option"
  | BooleanSchema
  | ArraySchema schema
  | MapSchema schema
  | ObjectSchema "string list" "(string \<times> schema) list"

datatype place = InPath | InQuery | InHeader | InBody

record parameter =
  pa_name :: string
  pa_in :: place
  pa_required :: bool
  pa_schema :: schema

record operation =
  op_security :: "string list"
  op_consumes :: "string list"
  op_produces :: "string list"
  op_parameters :: "parameter list"
  op_responses :: "(nat \<times> string) list"

section \<open>The operations\<close>

definition live_operation :: operation where
  "live_operation =
     \<lparr>op_security = [],
      op_consumes = [], op_produces = [''application/json''],
      op_parameters =
       [],
      op_responses =
       [(200, ''httpapi.HealthResponse'')]\<rparr>"

definition ready_operation :: operation where
  "ready_operation =
     \<lparr>op_security = [],
      op_consumes = [], op_produces = [''application/json''],
      op_parameters =
       [],
      op_responses =
       [(200, ''httpapi.HealthResponse''),
        (503, ''httpapi.HealthResponse'')]\<rparr>"

definition provider_transaction_operation :: operation where
  "provider_transaction_operation =
     \<lparr>op_security = [''ProviderOAuth''],
      op_consumes = [], op_produces = [''application/json''],
      op_parameters =
       [\<lparr>pa_name = ''providerId'', pa_in = InPath, pa_required = True, pa_schema = StringSchema None [] None\<rparr>,
        \<lparr>pa_name = ''externalTransactionId'', pa_in = InPath, pa_required = True, pa_schema = StringSchema None [] None\<rparr>],
      op_responses =
       [(200, ''application.TransactionView''),
        (400, ''httpapi.ProblemResponse''),
        (401, ''httpapi.ProblemResponse''),
        (403, ''httpapi.ProblemResponse''),
        (404, ''httpapi.ProblemResponse'')]\<rparr>"

definition process_wager_operation :: operation where
  "process_wager_operation =
     \<lparr>op_security = [''ProviderOAuth''],
      op_consumes = [''application/json''], op_produces = [''application/json''],
      op_parameters =
       [\<lparr>pa_name = ''Idempotency-Key'', pa_in = InHeader, pa_required = True, pa_schema = StringSchema None [] None\<rparr>,
        \<lparr>pa_name = ''X-Correlation-ID'', pa_in = InHeader, pa_required = False, pa_schema = StringSchema None [] None\<rparr>,
        \<lparr>pa_name = ''payload'', pa_in = InBody, pa_required = True, pa_schema = Ref ''httpapi.WagerRequest''\<rparr>],
      op_responses =
       [(200, ''application.ProcessWagerResult''),
        (202, ''application.ProcessWagerResult''),
        (400, ''httpapi.ProblemResponse''),
        (401, ''httpapi.ProblemResponse''),
        (403, ''httpapi.ProblemResponse''),
        (409, ''httpapi.ProblemResponse''),
        (422, ''application.ProcessWagerResult''),
        (500, ''application.ProcessWagerResult''),
        (503, ''httpapi.ProblemResponse'')]\<rparr>"

definition transaction_operation :: operation where
  "transaction_operation =
     \<lparr>op_security = [''InternalOAuth''],
      op_consumes = [], op_produces = [''application/json''],
      op_parameters =
       [\<lparr>pa_name = ''transactionId'', pa_in = InPath, pa_required = True, pa_schema = StringSchema (Some ''uuid'') [] None\<rparr>],
      op_responses =
       [(200, ''application.TransactionView''),
        (400, ''httpapi.ProblemResponse''),
        (401, ''httpapi.ProblemResponse''),
        (403, ''httpapi.ProblemResponse''),
        (404, ''httpapi.ProblemResponse'')]\<rparr>"

definition create_wallet_operation :: operation where
  "create_wallet_operation =
     \<lparr>op_security = [''InternalOAuth''],
      op_consumes = [''application/json''], op_produces = [''application/json''],
      op_parameters =
       [\<lparr>pa_name = ''payload'', pa_in = InBody, pa_required = True, pa_schema = Ref ''httpapi.CreateWalletRequest''\<rparr>],
      op_responses =
       [(201, ''application.WalletView''),
        (400, ''httpapi.ProblemResponse''),
        (401, ''httpapi.ProblemResponse''),
        (403, ''httpapi.ProblemResponse''),
        (409, ''httpapi.ProblemResponse''),
        (503, ''httpapi.ProblemResponse'')]\<rparr>"

definition wallet_operation :: operation where
  "wallet_operation =
     \<lparr>op_security = [''InternalOAuth''],
      op_consumes = [], op_produces = [''application/json''],
      op_parameters =
       [\<lparr>pa_name = ''walletId'', pa_in = InPath, pa_required = True, pa_schema = StringSchema (Some ''uuid'') [] None\<rparr>],
      op_responses =
       [(200, ''application.WalletView''),
        (400, ''httpapi.ProblemResponse''),
        (401, ''httpapi.ProblemResponse''),
        (403, ''httpapi.ProblemResponse''),
        (404, ''httpapi.ProblemResponse'')]\<rparr>"

definition ledger_operation :: operation where
  "ledger_operation =
     \<lparr>op_security = [''InternalOAuth''],
      op_consumes = [], op_produces = [''application/json''],
      op_parameters =
       [\<lparr>pa_name = ''walletId'', pa_in = InPath, pa_required = True, pa_schema = StringSchema (Some ''uuid'') [] None\<rparr>,
        \<lparr>pa_name = ''cursor'', pa_in = InQuery, pa_required = False, pa_schema = StringSchema None [] None\<rparr>,
        \<lparr>pa_name = ''limit'', pa_in = InQuery, pa_required = False, pa_schema = IntegerSchema (Some 1) (Some 100) (Some 50)\<rparr>],
      op_responses =
       [(200, ''application.LedgerPage''),
        (400, ''httpapi.ProblemResponse''),
        (401, ''httpapi.ProblemResponse''),
        (403, ''httpapi.ProblemResponse''),
        (404, ''httpapi.ProblemResponse'')]\<rparr>"

definition reconciliation_operation :: operation where
  "reconciliation_operation =
     \<lparr>op_security = [''InternalOAuth''],
      op_consumes = [], op_produces = [''application/json''],
      op_parameters =
       [\<lparr>pa_name = ''walletId'', pa_in = InPath, pa_required = True, pa_schema = StringSchema (Some ''uuid'') [] None\<rparr>],
      op_responses =
       [(200, ''application.ReconciliationView''),
        (400, ''httpapi.ProblemResponse''),
        (401, ''httpapi.ProblemResponse''),
        (403, ''httpapi.ProblemResponse''),
        (404, ''httpapi.ProblemResponse'')]\<rparr>"

definition documented_operations :: "(string \<times> string \<times> operation) list" where
  "documented_operations =
     [(''/health/live'', ''get'', live_operation),
      (''/health/ready'', ''get'', ready_operation),
      (''/providers/{providerId}/wagering/transactions/{externalTransactionId}'', ''get'', provider_transaction_operation),
      (''/wagering/transactions'', ''post'', process_wager_operation),
      (''/wagering/transactions/{transactionId}'', ''get'', transaction_operation),
      (''/wallets'', ''post'', create_wallet_operation),
      (''/wallets/{walletId}'', ''get'', wallet_operation),
      (''/wallets/{walletId}/ledger'', ''get'', ledger_operation),
      (''/wallets/{walletId}/reconciliation'', ''post'', reconciliation_operation)]"

section \<open>The definitions\<close>

definition ledger_entry_view_schema :: schema where
  "ledger_entry_view_schema =
     ObjectSchema []
       [(''balanceAfter'', Ref ''application.MoneyView''),
        (''balanceBefore'', Ref ''application.MoneyView''),
        (''createdAt'', StringSchema None [] None),
        (''direction'', Ref ''domain.LedgerDirection''),
        (''id'', StringSchema None [] None),
        (''money'', Ref ''application.MoneyView''),
        (''transactionId'', StringSchema None [] None)]"

definition ledger_page_schema :: schema where
  "ledger_page_schema =
     ObjectSchema []
       [(''items'', ArraySchema (Ref ''application.LedgerEntryView'')),
        (''nextCursor'', StringSchema None [] None)]"

definition money_view_schema :: schema where
  "money_view_schema =
     ObjectSchema []
       [(''amount'', StringSchema None [] None),
        (''currency'', StringSchema None [] None)]"

definition process_wager_result_schema :: schema where
  "process_wager_result_schema =
     ObjectSchema []
       [(''balance'', Ref ''application.MoneyView''),
        (''failureCode'', StringSchema None [] None),
        (''idempotentReplay'', BooleanSchema),
        (''status'', Ref ''domain.TransactionStatus''),
        (''transactionId'', StringSchema None [] None)]"

definition reconciliation_view_schema :: schema where
  "reconciliation_view_schema =
     ObjectSchema []
       [(''calculatedBalance'', Ref ''application.MoneyView''),
        (''checkedEntries'', IntegerSchema None None None),
        (''consistent'', BooleanSchema),
        (''difference'', Ref ''application.MoneyView''),
        (''storedBalance'', Ref ''application.MoneyView''),
        (''walletId'', StringSchema None [] None)]"

definition transaction_view_schema :: schema where
  "transaction_view_schema =
     ObjectSchema []
       [(''attemptCount'', IntegerSchema None None None),
        (''createdAt'', StringSchema None [] None),
        (''externalTransactionId'', StringSchema None [] None),
        (''failureCode'', StringSchema None [] None),
        (''gameId'', StringSchema None [] None),
        (''id'', StringSchema None [] None),
        (''kind'', Ref ''domain.TransactionKind''),
        (''money'', Ref ''application.MoneyView''),
        (''nextAttemptAt'', StringSchema None [] None),
        (''playerId'', StringSchema None [] None),
        (''providerId'', StringSchema None [] None),
        (''referenceExternalTransactionId'', StringSchema None [] None),
        (''referenceTransactionId'', StringSchema None [] None),
        (''resultBalance'', Ref ''application.MoneyView''),
        (''roundId'', StringSchema None [] None),
        (''status'', Ref ''domain.TransactionStatus''),
        (''updatedAt'', StringSchema None [] None),
        (''walletId'', StringSchema None [] None)]"

definition wallet_view_schema :: schema where
  "wallet_view_schema =
     ObjectSchema []
       [(''balance'', Ref ''application.MoneyView''),
        (''createdAt'', StringSchema None [] None),
        (''id'', StringSchema None [] None),
        (''playerId'', StringSchema None [] None),
        (''updatedAt'', StringSchema None [] None),
        (''version'', IntegerSchema None None None)]"

definition ledger_direction_schema :: schema where
  "ledger_direction_schema =
     StringSchema None [''DEBIT'', ''CREDIT''] None"

definition transaction_kind_schema :: schema where
  "transaction_kind_schema =
     StringSchema None [''OPENING'', ''BET'', ''WIN'', ''LOSS'', ''REFUND'', ''ROLLBACK''] None"

definition transaction_status_schema :: schema where
  "transaction_status_schema =
     StringSchema None [''PENDING'', ''PENDING_REFERENCE'', ''PROCESSED'', ''REJECTED'', ''FAILED''] None"

definition create_wallet_request_schema :: schema where
  "create_wallet_request_schema =
     ObjectSchema [''initialBalance'', ''playerId'']
       [(''initialBalance'', Ref ''httpapi.MoneyRequest''),
        (''playerId'', StringSchema None [] None)]"

definition health_check_schema :: schema where
  "health_check_schema =
     ObjectSchema []
       [(''latencyMs'', IntegerSchema None None None),
        (''message'', StringSchema None [] None),
        (''status'', StringSchema None [] None)]"

definition health_response_schema :: schema where
  "health_response_schema =
     ObjectSchema []
       [(''checkedAt'', StringSchema (Some ''date-time'') [] None),
        (''checks'', MapSchema (Ref ''httpapi.HealthCheck'')),
        (''status'', StringSchema None [] None)]"

definition money_request_schema :: schema where
  "money_request_schema =
     ObjectSchema [''amount'', ''currency'']
       [(''amount'', StringSchema None [] None),
        (''currency'', StringSchema None [] None)]"

definition problem_detail_schema :: schema where
  "problem_detail_schema =
     ObjectSchema []
       [(''code'', StringSchema None [] None),
        (''message'', StringSchema None [] None)]"

definition problem_response_schema :: schema where
  "problem_response_schema =
     ObjectSchema []
       [(''error'', Ref ''httpapi.ProblemDetail'')]"

definition wager_request_schema :: schema where
  "wager_request_schema =
     ObjectSchema [''kind'', ''money'', ''playerId'', ''walletId'']
       [(''externalTransactionId'', StringSchema None [] (Some 256)),
        (''gameId'', StringSchema None [] (Some 256)),
        (''kind'', StringSchema None [''BET'', ''WIN'', ''LOSS'', ''REFUND'', ''ROLLBACK''] None),
        (''money'', Ref ''httpapi.MoneyRequest''),
        (''playerId'', StringSchema None [] None),
        (''providerId'', StringSchema None [] (Some 128)),
        (''referenceExternalTransactionId'', StringSchema None [] (Some 256)),
        (''roundId'', StringSchema None [] (Some 256)),
        (''walletId'', StringSchema None [] None)]"

definition swagger_definitions :: "(string \<times> schema) list" where
  "swagger_definitions =
     [(''application.LedgerEntryView'', ledger_entry_view_schema),
      (''application.LedgerPage'', ledger_page_schema),
      (''application.MoneyView'', money_view_schema),
      (''application.ProcessWagerResult'', process_wager_result_schema),
      (''application.ReconciliationView'', reconciliation_view_schema),
      (''application.TransactionView'', transaction_view_schema),
      (''application.WalletView'', wallet_view_schema),
      (''domain.LedgerDirection'', ledger_direction_schema),
      (''domain.TransactionKind'', transaction_kind_schema),
      (''domain.TransactionStatus'', transaction_status_schema),
      (''httpapi.CreateWalletRequest'', create_wallet_request_schema),
      (''httpapi.HealthCheck'', health_check_schema),
      (''httpapi.HealthResponse'', health_response_schema),
      (''httpapi.MoneyRequest'', money_request_schema),
      (''httpapi.ProblemDetail'', problem_detail_schema),
      (''httpapi.ProblemResponse'', problem_response_schema),
      (''httpapi.WagerRequest'', wager_request_schema)]"

record security_scheme =
  ss_flow :: string
  ss_authorization :: string
  ss_token :: string

definition security_definitions :: "(string \<times> security_scheme) list" where
  "security_definitions =
     [(''InternalOAuth'', \<lparr>ss_flow = ''accessCode'',
        ss_authorization = ''http://localhost:8081/realms/gaming/protocol/openid-connect/auth'',
        ss_token = ''http://localhost:8081/realms/gaming/protocol/openid-connect/token''\<rparr>),
      (''ProviderOAuth'', \<lparr>ss_flow = ''accessCode'',
        ss_authorization = ''http://localhost:8081/realms/gaming/protocol/openid-connect/auth'',
        ss_token = ''http://localhost:8081/realms/gaming/protocol/openid-connect/token''\<rparr>)]"

record swagger_spec =
  si_version :: string
  si_host :: string
  si_base_path :: string
  si_schemes :: "string list"
  si_title :: string

definition swagger_info :: swagger_spec where
  "swagger_info =
     \<lparr>si_version = ''1.0.0'', si_host = ''localhost:8080'', si_base_path = ''/'', si_schemes = [''http''],
      si_title = ''Distributed Wagering API''\<rparr>"

section \<open>Instances of a schema\<close>

text \<open>
  Whether a value is an instance of a schema, where an object may have no other properties than
  the listed ones. The references are followed to a depth that is the fuel; a value that needs
  more is no instance. \<open>runes\<close> counts the characters of a text; \<open>format\<close> is an annotation.
\<close>

fun conforms :: "(string \<Rightarrow> nat) \<Rightarrow> nat \<Rightarrow> schema \<Rightarrow> json \<Rightarrow> bool" where
  "conforms runes 0 sc v \<longleftrightarrow> False"
| "conforms runes (Suc n) (Ref r) v \<longleftrightarrow>
     (case map_of swagger_definitions r of None \<Rightarrow> False | Some sc \<Rightarrow> conforms runes n sc v)"
| "conforms runes (Suc n) (StringSchema fmt enum len) v \<longleftrightarrow>
     (case v of
        JString s \<Rightarrow> (enum \<noteq> [] \<longrightarrow> s \<in> set enum) \<and> (case len of None \<Rightarrow> True | Some k \<Rightarrow> runes s \<le> k)
      | _ \<Rightarrow> False)"
| "conforms runes (Suc n) (IntegerSchema lo hi dflt) v \<longleftrightarrow>
     (case v of
        JNumber k \<Rightarrow> (case lo of None \<Rightarrow> True | Some l \<Rightarrow> l \<le> k) \<and> (case hi of None \<Rightarrow> True | Some h \<Rightarrow> k \<le> h)
      | _ \<Rightarrow> False)"
| "conforms runes (Suc n) BooleanSchema v \<longleftrightarrow> (case v of JBool b \<Rightarrow> True | _ \<Rightarrow> False)"
| "conforms runes (Suc n) (ArraySchema sc) v \<longleftrightarrow>
     (case v of JArray vs \<Rightarrow> list_all (conforms runes n sc) vs | _ \<Rightarrow> False)"
| "conforms runes (Suc n) (MapSchema sc) v \<longleftrightarrow>
     (case v of JObject fs \<Rightarrow> distinct (map fst fs) \<and> list_all (\<lambda>(k, x). conforms runes n sc x) fs | _ \<Rightarrow> False)"
| "conforms runes (Suc n) (ObjectSchema req props) v \<longleftrightarrow>
     (case v of
        JObject fs \<Rightarrow>
          distinct (map fst fs) \<and> set req \<subseteq> set (map fst fs) \<and>
          list_all (\<lambda>(k, x). case map_of props k of None \<Rightarrow> False | Some sc \<Rightarrow> conforms runes n sc x) fs
      | _ \<Rightarrow> False)"

definition instance_of :: "(string \<Rightarrow> nat) \<Rightarrow> string \<Rightarrow> json \<Rightarrow> bool" where
  "instance_of runes name v \<longleftrightarrow> conforms runes 8 (Ref name) v"

section \<open>The answers are instances\<close>

lemma schema_lookup [simp]:
  "map_of swagger_definitions ''application.LedgerEntryView'' = Some ledger_entry_view_schema"
  "map_of swagger_definitions ''application.LedgerPage'' = Some ledger_page_schema"
  "map_of swagger_definitions ''application.MoneyView'' = Some money_view_schema"
  "map_of swagger_definitions ''application.ProcessWagerResult'' = Some process_wager_result_schema"
  "map_of swagger_definitions ''application.ReconciliationView'' = Some reconciliation_view_schema"
  "map_of swagger_definitions ''application.TransactionView'' = Some transaction_view_schema"
  "map_of swagger_definitions ''application.WalletView'' = Some wallet_view_schema"
  "map_of swagger_definitions ''domain.LedgerDirection'' = Some ledger_direction_schema"
  "map_of swagger_definitions ''domain.TransactionKind'' = Some transaction_kind_schema"
  "map_of swagger_definitions ''domain.TransactionStatus'' = Some transaction_status_schema"
  "map_of swagger_definitions ''httpapi.CreateWalletRequest'' = Some create_wallet_request_schema"
  "map_of swagger_definitions ''httpapi.HealthCheck'' = Some health_check_schema"
  "map_of swagger_definitions ''httpapi.HealthResponse'' = Some health_response_schema"
  "map_of swagger_definitions ''httpapi.MoneyRequest'' = Some money_request_schema"
  "map_of swagger_definitions ''httpapi.ProblemDetail'' = Some problem_detail_schema"
  "map_of swagger_definitions ''httpapi.ProblemResponse'' = Some problem_response_schema"
  "map_of swagger_definitions ''httpapi.WagerRequest'' = Some wager_request_schema"
  by (simp_all add: swagger_definitions_def)

named_theorems instances

lemma money_instance [instances]:
  "conforms runes (Suc (Suc n)) money_view_schema (money_json m)"
  by (simp add: money_view_schema_def money_json_def)

lemma text_field_all [simp]:
  "list_all P (text_field name s) \<longleftrightarrow> s = [] \<or> P (name, JString s)"
  "fst ` set (text_field name s) = (if s = [] then {} else {name})"
  "distinct (map fst (text_field name s))"
  by (simp_all add: text_field_def)

lemma pointer_field_all [simp]:
  "list_all P (pointer_field name f x) \<longleftrightarrow> (\<forall>y. x = Some y \<longrightarrow> P (name, f y))"
  "fst ` set (pointer_field name f x) = (if x = None then {} else {name})"
  "distinct (map fst (pointer_field name f x))"
  by (cases x; simp add: pointer_field_def)+

lemma problem_instance [instances]:
  "conforms runes (Suc (Suc (Suc (Suc n)))) problem_response_schema (problem_json code message)"
  by (simp add: problem_response_schema_def problem_detail_schema_def problem_json_def)

lemma wallet_instance [instances]:
  "conforms runes (Suc (Suc (Suc (Suc n)))) wallet_view_schema (wallet_json v)"
  by (simp add: wallet_view_schema_def wallet_json_def time_json_def instances)

definition known_status :: "status \<Rightarrow> bool" where
  "known_status st \<longleftrightarrow> (\<forall>s. st \<noteq> StatusOther s)"

definition known_kind :: "kind \<Rightarrow> bool" where
  "known_kind k \<longleftrightarrow> (\<forall>s. k \<noteq> KindOther s)"

definition known_direction :: "direction \<Rightarrow> bool" where
  "known_direction dir \<longleftrightarrow> dir = DirectionDebit \<or> dir = DirectionCredit"

lemma status_instance [instances]:
  "known_status st \<Longrightarrow>
   conforms runes (Suc n) transaction_status_schema (JString (string_of_status st))"
  by (cases st) (simp_all add: known_status_def transaction_status_schema_def)

lemma kind_instance [instances]:
  "known_kind k \<Longrightarrow> conforms runes (Suc n) transaction_kind_schema (JString (string_of_kind k))"
  by (cases k) (simp_all add: known_kind_def transaction_kind_schema_def)

lemma direction_instance [instances]:
  "known_direction dir \<Longrightarrow>
   conforms runes (Suc n) ledger_direction_schema (JString (string_of_direction dir))"
  by (auto simp: known_direction_def ledger_direction_schema_def)

lemma result_instance [instances]:
  "known_status (pr_status r) \<Longrightarrow>
   conforms runes (Suc (Suc (Suc (Suc n)))) process_wager_result_schema (result_json r)"
  by (simp add: process_wager_result_schema_def result_json_def time_json_def instances)

lemma transaction_instance [instances]:
  "known_status (tv_status v) \<Longrightarrow> known_kind (tv_kind v) \<Longrightarrow>
   conforms runes (Suc (Suc (Suc (Suc n)))) transaction_view_schema (transaction_json v)"
  by (simp add: transaction_view_schema_def transaction_json_def time_json_def instances)

lemma entry_instance [instances]:
  "known_direction (lv_direction v) \<Longrightarrow>
   conforms runes (Suc (Suc (Suc (Suc n)))) ledger_entry_view_schema (entry_json v)"
  by (simp add: ledger_entry_view_schema_def entry_json_def time_json_def instances)

lemma entries_instance [instances]:
  "\<forall>v \<in> set vs. known_direction (lv_direction v) \<Longrightarrow>
   list_all (conforms runes (Suc (Suc (Suc (Suc (Suc n))))) (Ref ''application.LedgerEntryView'')) (map entry_json vs)"
  by (induction vs) (simp_all add: entry_instance)

lemma page_instance [instances]:
  "\<forall>v \<in> set (page_items p). known_direction (lv_direction v) \<Longrightarrow>
   conforms runes (Suc (Suc (Suc (Suc (Suc (Suc (Suc n))))))) ledger_page_schema (page_json p)"
  by (simp add: ledger_page_schema_def page_json_def entries_instance del: list.pred_map)

lemma reconciliation_instance [instances]:
  "conforms runes (Suc (Suc (Suc (Suc n)))) reconciliation_view_schema (reconciliation_json v)"
  by (simp add: reconciliation_view_schema_def reconciliation_json_def time_json_def instances)

lemma instance_of_eq: "instance_of runes name v = conforms runes (Suc (Suc (Suc (Suc (Suc (Suc (Suc (Suc 0)))))))) (Ref name) v"
proof -
  have "8 = Suc (Suc (Suc (Suc (Suc (Suc (Suc (Suc 0)))))))" by simp
  then show ?thesis by (simp only: instance_of_def)
qed

end
