(* ===== verification/Failures.thy ===== *)
theory Failures
  imports Metrics
begin

text \<open>
  Which errors the use cases behind the HTTP routes can fail with: the reads never with a
  conflict, the opening of a wallet never with \<open>ErrNotFound\<close>.
\<close>

section \<open>The errors of the use cases\<close>

text \<open>Whether a computation fails only with errors of a class, and how that composes.\<close>

definition fails_with :: "(err \<Rightarrow> bool) \<Rightarrow> 'a res \<Rightarrow> bool" where
  "fails_with P r \<longleftrightarrow> (\<forall>e. r = Inl e \<longrightarrow> P e)"

named_theorems failing

lemma fails_Inr [failing]: "fails_with P (Inr x)"
  and fails_Inl [failing]: "P e \<Longrightarrow> fails_with P (Inl e)"
  by (simp_all add: fails_with_def)

lemma fails_bind [failing]:
  "fails_with P r \<Longrightarrow> (\<And>x. fails_with P (f x)) \<Longrightarrow> fails_with P (res_bind r f)"
  by (auto simp: fails_with_def res_bind_eq_Inl)

lemma fails_if [failing]:
  "(b \<Longrightarrow> fails_with P r) \<Longrightarrow> (\<not> b \<Longrightarrow> fails_with P r') \<Longrightarrow> fails_with P (if b then r else r')"
  by simp

lemma fails_option [failing]:
  "(x = None \<Longrightarrow> fails_with P r) \<Longrightarrow> (\<And>y. fails_with P (f y)) \<Longrightarrow> fails_with P (case x of None \<Rightarrow> r | Some y \<Rightarrow> f y)"
  by (cases x) simp_all

text \<open>The errors of the domain; HTTP answers them with 400 or 503.\<close>

fun domain_error :: "err \<Rightarrow> bool" where
  "domain_error ErrNotFound \<longleftrightarrow> False"
| "domain_error ErrConflict \<longleftrightarrow> False"
| "domain_error ErrIdempotencyPayloadConflict \<longleftrightarrow> False"
| "domain_error ErrExternalTransactionConflict \<longleftrightarrow> False"
| "domain_error ErrInboxPayloadConflict \<longleftrightarrow> False"
| "domain_error ErrInvalidCursor \<longleftrightarrow> False"
| "domain_error ErrDatabase \<longleftrightarrow> False"
| "domain_error _ \<longleftrightarrow> True"

lemma domain_error_status: "domain_error e \<Longrightarrow> fst (write_error e) \<in> {400, 503}"
  by (cases e) simp_all

lemma fails_new_money: "fails_with domain_error (new_money_from_minor iso4217 k cur)"
  by (auto simp: fails_with_def new_money_from_minor_def)

lemma fails_validate_money: "fails_with domain_error (validate_money iso4217 m)"
  by (auto simp: fails_with_def validate_money_def)

lemma fails_rehydrate_wallet: "fails_with domain_error (rehydrate_wallet iso4217 wid player b v cr up)"
  by (auto simp: fails_with_def rehydrate_wallet_def split: sum.splits)

lemma fails_validate_amount: "fails_with domain_error (validate_amount_for_kind iso4217 k m)"
  unfolding validate_amount_for_kind_def by (intro failing fails_validate_money) simp_all

lemma fails_rehydrate_wager: "fails_with domain_error (rehydrate_wager iso4217 s)"
  unfolding rehydrate_wager_def by (intro failing fails_validate_money fails_validate_amount) simp_all

lemma fails_scan_wallet: "fails_with domain_error (scan_wallet iso4217 r)"
  unfolding scan_wallet_def by (intro failing fails_new_money fails_rehydrate_wallet)

lemma fails_scan_transaction: "fails_with domain_error (scan_transaction iso4217 r)"
  unfolding scan_transaction_def
  by (auto split: option.split intro!: failing fails_new_money fails_rehydrate_wager)

lemma fails_money_add: "fails_with domain_error (money_add iso4217 m m')"
  and fails_money_subtract: "fails_with domain_error (money_subtract iso4217 m m')"
  and fails_zero_money: "fails_with domain_error (zero_money iso4217 cur)"
  by (auto simp: fails_with_def money_add_def money_subtract_def money_negate_def compatible_def zero_money_def res_bind_eq_Inl
      new_money_from_minor_def validate_money_def Let_def split: if_splits)

lemma fails_parse_money: "fails_with domain_error (parse_money iso4217 amount cur)"
  by (auto simp: fails_with_def parse_money_def parse_non_negative_minor_def Let_def res_bind_eq_Inl
      split: if_splits option.splits list.splits)

lemma fails_new_wallet: "fails_with domain_error (new_wallet iso4217 wid player initial now)"
  by (auto simp: fails_with_def new_wallet_def split: sum.splits)

lemma fails_new_entry: "fails_with domain_error (new_ledger_entry iso4217 lid wid tid dir m before after now)"
  by (auto simp: fails_with_def new_ledger_entry_def split: direction.splits sum.splits option.splits if_splits)

text \<open>The same for the statements of a transaction.\<close>

definition tx_fails :: "(err \<Rightarrow> bool) \<Rightarrow> 'a tx \<Rightarrow> bool" where
  "tx_fails P m \<longleftrightarrow> (\<forall>s. fails_with P (m s))"

lemma tx_fails_return [failing]: "tx_fails P (tx_return x)"
  and tx_fails_uuid [failing]: "tx_fails P new_uuid"
  and tx_fails_lift [failing]: "fails_with P r \<Longrightarrow> tx_fails P (tx_lift r)"
  by (auto simp: tx_fails_def fails_with_def tx_return_def new_uuid_def tx_lift_def split: sum.splits)

lemma tx_fails_bind [failing]: "tx_fails P m \<Longrightarrow> (\<And>x. tx_fails P (f x)) \<Longrightarrow> tx_fails P (tx_bind m f)"
  by (auto simp: tx_fails_def fails_with_def tx_bind_def split: sum.splits)

lemma tx_fails_if [failing]: "tx_fails P m \<Longrightarrow> tx_fails P m' \<Longrightarrow> tx_fails P (if b then m else m')"
  by simp

lemma tx_fails_exec [failing]: "P ErrDatabase \<Longrightarrow> (\<And>d. fails_with P (st d)) \<Longrightarrow> tx_fails P (exec st)"
  by (auto simp: tx_fails_def fails_with_def exec_def split: sum.splits)

lemma tx_fails_select [failing]: "P ErrDatabase \<Longrightarrow> (\<And>d. fails_with P (q d)) \<Longrightarrow> tx_fails P (select q)"
  unfolding select_def by (intro failing) (auto simp: fails_with_def split: sum.splits)

lemma within_transaction_fails:
  assumes "P ErrDatabase" and "tx_fails P m" shows "fails_with P (fst (within_transaction c n m d))"
  using assms by (auto simp: tx_fails_def fails_with_def within_transaction_def exec_def split: sum.splits if_splits)

section \<open>The statuses of the routes\<close>

text \<open>Errors of reads: no conflict among them. Errors of an opening: nothing is not found.\<close>

definition read_error :: "err \<Rightarrow> bool" where
  "read_error e \<longleftrightarrow> domain_error e \<or> e = ErrNotFound \<or> e = ErrInvalidCursor \<or> e = ErrDatabase"

definition opening_error :: "err \<Rightarrow> bool" where
  "opening_error e \<longleftrightarrow> domain_error e \<or> e = ErrConflict \<or> e = ErrDatabase"

lemma fails_weaken: "fails_with P r \<Longrightarrow> (\<And>e. P e \<Longrightarrow> Q e) \<Longrightarrow> fails_with Q r"
  by (simp add: fails_with_def)

lemma read_of_domain: "fails_with domain_error r \<Longrightarrow> fails_with read_error r"
  and opening_of_domain: "fails_with domain_error r \<Longrightarrow> fails_with opening_error r"
  by (auto intro: fails_weaken simp: read_error_def opening_error_def)

lemmas read_failing = failing read_of_domain [OF fails_scan_wallet] read_of_domain [OF fails_scan_transaction]
  read_of_domain [OF fails_new_money] read_of_domain [OF fails_money_subtract]

lemma fails_get_wallet: "fails_with read_error (get_wallet iso4217 wid d)"
  unfolding get_wallet_def by (intro read_failing) (simp add: read_error_def)

lemma fails_get: "fails_with read_error (get sv wid d)"
  unfolding get_def by (intro read_failing fails_get_wallet)

lemma fails_query_transaction: "fails_with read_error (query_transaction sv tid d)"
  unfolding query_transaction_def get_transaction_def by (intro read_failing) (simp add: read_error_def)

lemma fails_query_provider_transaction: "fails_with read_error (query_provider_transaction sv p ext d)"
  unfolding query_provider_transaction_def get_provider_transaction_def
  by (intro read_failing) (simp add: read_error_def)

lemma fails_scan_rows: "fails_with read_error (scan_rows iso4217 ls)"
  by (induction ls) (auto simp: scan_ledger_row_def intro!: read_failing)

lemma fails_ledger_pages: "fails_with read_error (ledger_pages sv cr wid v limit d)"
  unfolding ledger_pages_def read_cursor_def list_ledger_def Let_def
  by (intro read_failing fails_get_wallet fails_scan_rows) (simp_all add: read_error_def)

lemma fails_reconcile: "fails_with read_error (reconcile sv c wid d)"
proof -
  have "tx_fails read_error (reconcile_tx sv wid)"
    unfolding reconcile_tx_def read_wallet_def sum_ledger_def Let_def case_prod_beta
    by (intro read_failing) (simp_all add: read_error_def)
  then show ?thesis
    unfolding reconcile_def within_read_only_def by (intro within_transaction_fails) (simp_all add: read_error_def)
qed

lemmas opening_failing = failing opening_of_domain [OF fails_zero_money] opening_of_domain [OF fails_new_entry]

lemma fails_create_tx: "tx_fails opening_error (create_tx sv w initial co now)"
proof -
  have "tx_fails opening_error (insert_txn_row r)" for r
    unfolding insert_txn_row_def txn_guards_def
    by (intro failing) (auto simp: fails_with_def opening_error_def)
  then show ?thesis
    unfolding create_tx_def insert_wallet_def insert_opening_def insert_ledger_def insert_outbox_def Let_def
    by (intro opening_failing) (simp_all add: opening_error_def)
qed

lemma fails_create: "fails_with opening_error (fst (create sv c cmd d))"
proof (cases "\<not> sv_valid_wallet sv cmd \<or> is_negative (wc_initial cmd)")
  case True
  then show ?thesis by (auto simp: create_def fails_with_def opening_error_def)
next
  case False
  show ?thesis
  proof (cases "new_wallet (sv_iso sv) (c_ids c 0) (wc_player cmd) (wc_initial cmd) (c_now c)")
    case (Inl e)
    with fails_new_wallet [of "sv_iso sv"] False show ?thesis
      by (auto simp: create_def fails_with_def opening_error_def)
  next
    case (Inr w)
    have tx: "fails_with opening_error (fst (within_transaction c n (create_tx sv w (wc_initial cmd) co (c_now c)) d))" for n co
      by (rule within_transaction_fails [OF _ fails_create_tx]) (simp add: opening_error_def)
    with Inr False show ?thesis
      by (auto simp: create_def Let_def fails_with_def split: prod.splits sum.splits) (metis fst_conv)+
  qed
qed

end
