(* ===== verification/Contract.thy ===== *)
theory Contract
  imports Swagger Failures
begin

text \<open>
  The service against its published description: the routes (\<open>httpapi/routes.go\<close>) and their
  security, the answers with their statuses and schemas, and the requests.
\<close>

section \<open>Routes\<close>

datatype guard = Open | Authenticated | Internal_Role

text \<open>The registrations of \<open>Routes\<close> in their order, with the middlewares of their group.\<close>

definition registered_routes :: "(string \<times> string \<times> guard) list" where
  "registered_routes =
     [(''/health/live'', ''get'', Open), (''/health/ready'', ''get'', Open), (''/metrics'', ''any'', Open),
      (''/swagger'', ''get'', Open), (''/swagger/*'', ''any'', Open),
      (''/wagering/transactions'', ''post'', Authenticated),
      (''/providers/{providerId}/wagering/transactions/{externalTransactionId}'', ''get'', Authenticated),
      (''/wallets'', ''post'', Internal_Role), (''/wallets/{walletId}'', ''get'', Internal_Role),
      (''/wallets/{walletId}/ledger'', ''get'', Internal_Role),
      (''/wallets/{walletId}/reconciliation'', ''post'', Internal_Role),
      (''/wagering/transactions/{transactionId}'', ''get'', Internal_Role)]"

fun endpoint_route :: "endpoint \<Rightarrow> (string \<times> string) option" where
  "endpoint_route ProcessWagerAt = Some (''/wagering/transactions'', ''post'')"
| "endpoint_route (ProviderTransactionAt provider ext) =
     Some (''/providers/{providerId}/wagering/transactions/{externalTransactionId}'', ''get'')"
| "endpoint_route CreateWalletAt = Some (''/wallets'', ''post'')"
| "endpoint_route (GetWalletAt wid) = Some (''/wallets/{walletId}'', ''get'')"
| "endpoint_route (LedgerAt wid) = Some (''/wallets/{walletId}/ledger'', ''get'')"
| "endpoint_route (ReconcileAt wid) = Some (''/wallets/{walletId}/reconciliation'', ''post'')"
| "endpoint_route (TransactionAt tid) = Some (''/wagering/transactions/{transactionId}'', ''get'')"
| "endpoint_route _ = None"

definition find_operation :: "string \<times> string \<Rightarrow> operation option" where
  "find_operation r = map_of (map (\<lambda>(path, mth, op). ((path, mth), op)) documented_operations) r"

definition operation_of :: "endpoint \<Rightarrow> operation option" where
  "operation_of e = (case endpoint_route e of None \<Rightarrow> None | Some r \<Rightarrow> find_operation r)"

lemma operation_of_simps [simp]:
  "operation_of ProcessWagerAt = Some process_wager_operation"
  "operation_of (ProviderTransactionAt provider ext) = Some provider_transaction_operation"
  "operation_of CreateWalletAt = Some create_wallet_operation"
  "operation_of (GetWalletAt wid) = Some wallet_operation"
  "operation_of (LedgerAt wid) = Some ledger_operation"
  "operation_of (ReconcileAt wid) = Some reconciliation_operation"
  "operation_of (TransactionAt tid) = Some transaction_operation"
  "operation_of RouteNotFound = None" "operation_of MethodNotAllowed = None"
  by (simp_all add: operation_of_def find_operation_def documented_operations_def)

text \<open>The scheme that the description names for a guard.\<close>

fun guard_security :: "guard \<Rightarrow> string list" where
  "guard_security Open = []"
| "guard_security Authenticated = [''ProviderOAuth'']"
| "guard_security Internal_Role = [''InternalOAuth'']"

lemmas operation_defs =
  live_operation_def ready_operation_def provider_transaction_operation_def process_wager_operation_def
  transaction_operation_def create_wallet_operation_def wallet_operation_def ledger_operation_def
  reconciliation_operation_def

text \<open>
  The description lists the routes of the router: the documented operations are exactly the
  registered routes other than the metrics and the description itself, each with the security
  scheme of its guard, which is the internal one exactly for the routes that demand the internal
  role; and every scheme, and every schema that an operation or a schema refers to, is defined.
\<close>

lemma description_lists_the_routes:
  "set (map (\<lambda>(path, mth, op). (path, mth, op_security op)) documented_operations) =
     (\<lambda>(path, mth, g). (path, mth, guard_security g)) `
       {r \<in> set registered_routes. fst r \<notin> {''/metrics'', ''/swagger'', ''/swagger/*''}} \<and>
   (\<forall>e op. operation_of e = Some op \<longrightarrow> (op_security op = [''InternalOAuth''] \<longleftrightarrow> internal_route e)) \<and>
   (\<forall>(path, mth, op) \<in> set documented_operations.
      set (op_security op) \<subseteq> fst ` set security_definitions \<and>
      snd ` set (op_responses op) \<subseteq> fst ` set swagger_definitions)"
proof (intro conjI allI impI)
  show "set (map (\<lambda>(path, mth, op). (path, mth, op_security op)) documented_operations) =
     (\<lambda>(path, mth, g). (path, mth, guard_security g)) `
       {r \<in> set registered_routes. fst r \<notin> {''/metrics'', ''/swagger'', ''/swagger/*''}}"
  proof -
    have "{r \<in> set registered_routes. fst r \<notin> {''/metrics'', ''/swagger'', ''/swagger/*''}} =
        set (filter (\<lambda>r. fst r \<notin> {''/metrics'', ''/swagger'', ''/swagger/*''}) registered_routes)" by simp
    moreover have "filter (\<lambda>r. fst r \<notin> {''/metrics'', ''/swagger'', ''/swagger/*''}) registered_routes =
       [(''/health/live'', ''get'', Open), (''/health/ready'', ''get'', Open),
        (''/wagering/transactions'', ''post'', Authenticated),
        (''/providers/{providerId}/wagering/transactions/{externalTransactionId}'', ''get'', Authenticated),
        (''/wallets'', ''post'', Internal_Role), (''/wallets/{walletId}'', ''get'', Internal_Role),
        (''/wallets/{walletId}/ledger'', ''get'', Internal_Role),
        (''/wallets/{walletId}/reconciliation'', ''post'', Internal_Role),
        (''/wagering/transactions/{transactionId}'', ''get'', Internal_Role)]" by (simp add: registered_routes_def)
    ultimately show ?thesis
      by (simp only: list.set list.map documented_operations_def prod.case operation_defs operation.simps
          guard_security.simps image_insert image_empty) (simp only: insert_commute)
  qed
  show "op_security op = [''InternalOAuth''] \<longleftrightarrow> internal_route e" if "operation_of e = Some op" for e op
    using that by (cases e) (auto simp: operation_defs)
  show "\<forall>(path, mth, op) \<in> set documented_operations.
      set (op_security op) \<subseteq> fst ` set security_definitions \<and>
      snd ` set (op_responses op) \<subseteq> fst ` set swagger_definitions"
    by (simp add: documented_operations_def operation_defs security_definitions_def swagger_definitions_def)
qed

section \<open>Answers\<close>

text \<open>The statuses that the handlers can give beside those that the description lists.\<close>

fun undocumented :: "endpoint \<Rightarrow> nat set" where
  "undocumented ProcessWagerAt = {404}"
| "undocumented CreateWalletAt = {}"
| "undocumented _ = {503}"

definition documented_answer :: "(string \<Rightarrow> nat) \<Rightarrow> string \<Rightarrow> operation \<Rightarrow> nat \<Rightarrow> answer_body \<Rightarrow> bool" where
  "documented_answer runes message op st body \<longleftrightarrow>
     (\<exists>name. (st, name) \<in> set (op_responses op) \<and> instance_of runes name (body_json message body))"

definition allowed_answer :: "(string \<Rightarrow> nat) \<Rightarrow> string \<Rightarrow> endpoint \<Rightarrow> nat \<Rightarrow> answer_body \<Rightarrow> bool" where
  "allowed_answer runes message e st body \<longleftrightarrow>
     (\<exists>op. operation_of e = Some op \<and> documented_answer runes message op st body) \<or>
     st \<in> undocumented e \<and> (\<exists>code. body = ProblemBody code)"

lemma problem_is_instance: "instance_of runes ''httpapi.ProblemResponse'' (problem_json code message)"
  by (simp add: instance_of_eq instances)

lemma allowed_problem:
  "operation_of e = Some op \<Longrightarrow> (st, ''httpapi.ProblemResponse'') \<in> set (op_responses op) \<or> st \<in> undocumented e \<Longrightarrow>
   allowed_answer runes message e st (ProblemBody code)"
  using problem_is_instance by (auto simp: allowed_answer_def documented_answer_def)

lemma allowed_result:
  "operation_of e = Some op \<Longrightarrow> (st, name) \<in> set (op_responses op) \<Longrightarrow>
   instance_of runes name (body_json message body) \<Longrightarrow> allowed_answer runes message e st body"
  by (auto simp: allowed_answer_def documented_answer_def)

lemma refused_allowed:
  assumes "admit he q = Inl r" and "operation_of (hq_endpoint q) = Some op"
  shows "allowed_answer runes message (hq_endpoint q) (fst (refuse r)) (snd (refuse r))"
proof -
  have "fst r \<in> {401, 503} \<or> fst r = 403 \<and> internal_route (hq_endpoint q)"
    using assms(1) by (auto simp: admit_def authenticate_def require_internal_def
        split: sum.splits list.splits option.splits if_splits)
  then show ?thesis
    unfolding refuse_def fst_conv snd_conv
    by (intro allowed_problem [OF assms(2)]) (use assms(2) in \<open>cases "hq_endpoint q"; auto simp: operation_defs\<close>)
qed

lemma write_error_body: "snd (write_error e) = ProblemBody (case snd (write_error e) of ProblemBody c \<Rightarrow> c)"
  by (cases e) simp_all

lemma read_error_status: "read_error e \<Longrightarrow> fst (write_error e) \<in> {400, 404, 503}"
  by (cases e) (simp_all add: read_error_def)

lemma opening_error_status: "opening_error e \<Longrightarrow> fst (write_error e) \<in> {400, 409, 503}"
  by (cases e) (simp_all add: opening_error_def)

text \<open>A read: its errors, and its result with the schema of the success.\<close>

lemma answered_allowed:
  assumes "fails_with read_error r" and "operation_of e = Some op"
    and "{(400, ''httpapi.ProblemResponse''), (404, ''httpapi.ProblemResponse'')} \<subseteq> set (op_responses op)"
    and "503 \<in> undocumented e" and "(200, name) \<in> set (op_responses op)"
    and "\<And>x. r = Inr x \<Longrightarrow> instance_of runes name (body_json message (f x))"
  shows "allowed_answer runes message e (fst (answered f (reading hc r))) (snd (answered f (reading hc r)))"
proof (cases "reading hc r")
  case (Inl err)
  then have "read_error err" using assms(1) by (auto simp: reading_def fails_with_def read_error_def split: if_splits)
  from read_error_status [OF this] assms(3,4) Inl show ?thesis
    by (simp only: answered_def sum.case, subst write_error_body) (rule allowed_problem [OF assms(2)], auto)
next
  case (Inr x)
  then have "r = Inr x" by (auto simp: reading_def split: if_splits)
  with Inr assms(6) show ?thesis by (auto simp: answered_def intro: allowed_result [OF assms(2,5)])
qed

lemma transaction_view_instance:
  assumes "scan_transaction iso4217 r = Inr t"
  shows "instance_of runes ''application.TransactionView'' (transaction_json (transaction_view_of t))"
proof -
  from assms have "wager_ok iso4217 t" by (auto simp: scan_transaction_def rehydrate_wager_ok)
  then have "known_status (wt_status t)" "known_kind (wt_kind t)"
    by (auto simp: wager_ok_def status_ok_def known_status_def known_kind_def external_kind_def)
  then show ?thesis by (simp add: transaction_view_of_def instance_of_eq instances)
qed

lemma query_instance:
  "query_transaction sv tid d = Inr v \<Longrightarrow>
   instance_of runes ''application.TransactionView'' (transaction_json v)"
  "query_provider_transaction sv provider ext d = Inr v \<Longrightarrow>
   instance_of runes ''application.TransactionView'' (transaction_json v)"
  using transaction_view_instance
  by (auto simp: query_transaction_def query_provider_transaction_def get_transaction_def
      get_provider_transaction_def split: option.splits)

lemma scan_rows_direction:
  "scan_rows iso4217 ls = Inr rs \<Longrightarrow> map rec_direction rs = map lr_direction ls"
  by (induction ls arbitrary: rs) (auto simp: scan_ledger_row_def)

lemma list_ledger_rows:
  assumes "list_ledger cr iso4217 wid cursor k d = Inr rs"
  shows "\<exists>ls. scan_rows iso4217 ls = Inr rs \<and> set ls \<subseteq> set (ledger d)"
proof -
  have sub: "set (take k (newest_first (filter p (filter q (ledger d))))) \<subseteq> set (ledger d)" for p q
    using set_take_subset [of k "newest_first (filter p (filter q (ledger d)))"] by auto
  have "set (take k (newest_first (filter q (ledger d)))) \<subseteq> set (ledger d)" for q
    using sub [of "\<lambda>_. True" q] by simp
  with assms sub show ?thesis
    unfolding list_ledger_def Let_def by (auto simp only: split: option.splits sum.splits) blast+
qed

lemma pages_instance:
  assumes inv: "db_inv iso4217 d" and p: "ledger_pages sv cr wid v limit d = Inr p"
  shows "instance_of runes ''application.LedgerPage'' (page_json p)"
proof -
  have rows: "known_direction (lr_direction l)" if "l \<in> set (ledger d)" for l
    using inv that by (auto simp: db_inv_def ledger_inv_def ledger_checks_def known_direction_def)
  from p obtain cursor records where l: "list_ledger cr (sv_iso sv) wid cursor (page_limit limit + 1) d = Inr records"
    and items: "page_items p = map entry_view (take (page_limit limit) records)" by (auto simp: ledger_pages_def)
  from list_ledger_rows [OF l] obtain ls
    where ls: "scan_rows (sv_iso sv) ls = Inr records" "set ls \<subseteq> set (ledger d)" by blast
  have "known_direction dir" if "dir \<in> set (map rec_direction records)" for dir
    using that ls(2) rows unfolding scan_rows_direction [OF ls(1)] by auto
  then have "\<forall>r \<in> set records. known_direction (rec_direction r)" by simp
  then have "\<forall>e \<in> set (page_items p). known_direction (lv_direction e)"
    by (auto simp: items entry_view_def dest: in_set_takeD)
  then show ?thesis by (simp add: instance_of_eq instances)
qed

lemma wager_allowed:
  assumes reach: "reachable sv (d, ms)" and serve: "serve_http sv he hc q d = (a, d')" and q: "hq_endpoint q = ProcessWagerAt"
  shows "allowed_answer runes message ProcessWagerAt (an_status a) (an_body a)"
proof -
  have problem: "allowed_answer runes message ProcessWagerAt st body" if "problem st body" for st body
  proof -
    from that obtain code where "body = ProblemBody code" "st \<in> {400, 401, 403, 404, 409, 503}"
      by (auto simp: problem_def)
    then show ?thesis using allowed_problem [of ProcessWagerAt process_wager_operation st]
      by (auto simp: process_wager_operation_def)
  qed
  show ?thesis
    using serve q
  proof (cases rule: wager_route_cases)
    case refused
    then show ?thesis by (simp add: problem)
  next
    case (failed cmd e)
    then show ?thesis by (simp add: problem)
  next
    case (answered p cmd r)
    have inv: "db_inv (sv_iso sv) d" using reachable_db_inv [OF reach] by simp
    obtain t where t: "stored_as sv cmd d' t" "answers r t" using process_stored [OF inv answered(3)] by blast
    have "reachable sv (d', ms)"
      using reachable_served [OF reach] served.intros [of "ProcessWager (hc_call hc) cmd" sv "(d, ms)"] answered(3) by simp
    from reachable_stored [OF this] t have st: "pr_status r = StatusPendingReference \<or> terminal_status (pr_status r)"
      by (auto simp: stored_ok_def stored_as_def answers_def)
    then have "known_status (pr_status r)" by (auto simp: known_status_def terminal_status_def)
    then have "instance_of runes ''application.ProcessWagerResult'' (body_json message (WagerBody r))"
      by (simp add: instance_of_eq instances)
    moreover have "(outcome_status (pr_status r), ''application.ProcessWagerResult'') \<in> set (op_responses process_wager_operation)"
      using st by (auto simp: outcome_status_def process_wager_operation_def terminal_status_def Let_def)
    ultimately show ?thesis
      unfolding answered(4,5) by (intro allowed_result [OF operation_of_simps(1)])
  qed
qed

lemma opening_allowed:
  "allowed_answer runes message CreateWalletAt (fst (fst (create_wallet sv he hc rid q d)))
     (snd (fst (create_wallet sv he hc rid q d)))"
proof -
  have problem: "allowed_answer runes message CreateWalletAt st (ProblemBody code)" if "st \<in> {400, 409, 503}" for st code
    using that by (intro allowed_problem [OF operation_of_simps(3)]) (auto simp: create_wallet_operation_def)
  have failed: "allowed_answer runes message CreateWalletAt (fst (write_error e)) (snd (write_error e))"
    if "opening_error e" for e
    using opening_error_status [OF that] by (subst write_error_body) (rule problem)
  have "instance_of runes ''application.WalletView'' (wallet_json v)" for v by (simp add: instance_of_eq instances)
  then have made: "allowed_answer runes message CreateWalletAt 201 (WalletBody v)" for v
    by (intro allowed_result [OF operation_of_simps(3), of _ "''application.WalletView''"])
      (simp_all add: create_wallet_operation_def)
  have parse: "opening_error e" if "parse_money iso4217 amount cur = Inl e" for e iso4217 amount cur
    using fails_parse_money [of iso4217 amount cur] that by (simp add: fails_with_def opening_error_def)
  have create: "opening_error e" if "create sv c cmd d = (Inl e, d')" for e c cmd d'
    using fails_create [of sv c cmd d] that by (simp add: fails_with_def)
  show ?thesis
    using problem failed made parse create
    by (auto simp: create_wallet_def split: option.splits sum.splits prod.splits)
qed

text \<open>The routes that only read.\<close>

lemma read_routes_allowed:
  assumes inv: "db_inv (sv_iso sv) d" and e: "e \<noteq> ProcessWagerAt" "e \<noteq> CreateWalletAt" "operation_of e = Some op"
  shows "allowed_answer runes message e (fst (fst (route sv he hc p rid q e d))) (snd (fst (route sv he hc p rid q e d)))"
proof -
  have problem: "allowed_answer runes message e st (ProblemBody code)"
    if "st = 400 \<or> st = 403 \<and> (\<exists>provider ext. e = ProviderTransactionAt provider ext)" for st code
    using that e by (intro allowed_problem [OF e(3)]) (cases e; auto simp: operation_defs)
  note answered = answered_allowed [OF _ e(3)]
  have view: "instance_of runes ''application.WalletView'' (wallet_json v)"
    "instance_of runes ''application.ReconciliationView'' (reconciliation_json w)" for v w
    by (simp_all add: instance_of_eq instances)
  show ?thesis
  proof (cases e)
    case (ProviderTransactionAt provider ext)
    with answered [OF fails_query_provider_transaction, where name = "''application.TransactionView''" and f = TransactionBody and message = message]
    show ?thesis using problem query_instance [where runes = runes] e(3)
      by (auto simp: get_provider_transaction_handler_def operation_defs)
  next
    case (GetWalletAt wid)
    with answered [OF fails_get, where name = "''application.WalletView''" and f = WalletBody and message = message]
    show ?thesis using problem view e(3) by (auto simp: get_wallet_handler_def operation_defs)
  next
    case (LedgerAt wid)
    with answered [OF fails_ledger_pages, where name = "''application.LedgerPage''" and f = LedgerBody and message = message]
    show ?thesis using problem pages_instance [OF inv] e(3)
      by (auto simp: get_ledger_def operation_defs split: option.split)
  next
    case (ReconcileAt wid)
    with answered [OF fails_reconcile, where name = "''application.ReconciliationView''" and f = ReconciliationBody and message = message and hc = "hc\<lparr>hc_read_fails := False\<rparr>"]
    show ?thesis using problem view e(3) by (auto simp: reconcile_handler_def operation_defs reading_def)
  next
    case (TransactionAt tid)
    with answered [OF fails_query_transaction, where name = "''application.TransactionView''" and f = TransactionBody and message = message]
    show ?thesis using problem query_instance [where runes = runes] e(3) by (auto simp: get_transaction_handler_def operation_defs)
  qed (use e in simp_all)
qed



text \<open>The statuses left out of the description do occur.\<close>

lemma unknown_wallet_is_undocumented:
  "process sample_service (sample_call 6 [''t1'', ''l1'', ''e2'', ''e3'']) bet_cmd empty_db = (Inl ErrNotFound, empty_db) \<and>
   fst (write_error ErrNotFound) \<notin> fst ` set (op_responses process_wager_operation)"
  by (simp add: process_wager_operation_def process_simps run_simps empty_db_def)

lemma failing_read_is_undocumented:
  assumes "he_uuid he wid" and "hc_read_fails hc"
  shows "fst (get_wallet_handler sv he hc wid d) = 503 \<and> 503 \<notin> fst ` set (op_responses wallet_operation)"
  using assms by (simp add: get_wallet_handler_def answered_def reading_def wallet_operation_def)

section \<open>Requests\<close>

text \<open>
  C39: The validated requests match the published description: a wager or wallet request that
  passes the validation is an instance of its documented schema; and for a wallet named by a
  UUID the ledger route refuses exactly the limits that are no integers or are outside
  the documented bounds, and takes the documented default for an absent one.
\<close>

theorem requests_match_the_description:
  "(wager_request_valid vd g \<longrightarrow> instance_of (vd_runes vd) ''httpapi.WagerRequest'' (wager_request_json g)) \<and>
   (wallet_request_valid vd w \<longrightarrow> instance_of (vd_runes vd) ''httpapi.CreateWalletRequest'' (wallet_request_json w)) \<and>
   (he_uuid he wid \<and> hq_limit q \<noteq> [] \<longrightarrow>
      (get_ledger sv he hc q wid d = (400, ProblemBody ''INVALID_LIMIT'') \<longleftrightarrow>
       (\<forall>n. atoi (hq_limit q) = Some n \<longrightarrow>
          \<not> conforms (vd_runes vd) 1 (pa_schema (op_parameters ledger_operation ! 2)) (JNumber n)))) \<and>
   (hq_limit q = [] \<longrightarrow> (\<exists>lo hi n. pa_schema (op_parameters ledger_operation ! 2) = IntegerSchema lo hi (Some n) \<and>
      get_ledger sv he hc q wid d = get_ledger sv he hc (q\<lparr>hq_limit := format_nat (nat n)\<rparr>) wid d))"
proof (intro conjI impI)
  show "instance_of (vd_runes vd) ''httpapi.WagerRequest'' (wager_request_json g)" if "wager_request_valid vd g"
    using that
    by (auto simp: instance_of_eq wager_request_schema_def money_request_schema_def wager_request_json_def
        money_request_json_def wager_request_valid_def named_def one_of_kinds_def reference_given_def)
  show "instance_of (vd_runes vd) ''httpapi.CreateWalletRequest'' (wallet_request_json w)" if "wallet_request_valid vd w"
    by (simp add: instance_of_eq create_wallet_request_schema_def money_request_schema_def wallet_request_json_def
        money_request_json_def)
  have limit: "conforms runes 1 (pa_schema (op_parameters ledger_operation ! 2)) (JNumber n) \<longleftrightarrow> 1 \<le> n \<and> n \<le> 100" for runes n
    unfolding One_nat_def by (simp add: ledger_operation_def)
  have other: "answered LedgerBody r \<noteq> (400, ProblemBody ''INVALID_LIMIT'')" for r
    by (cases r) (auto simp: answered_def elim: write_error.elims)
  show "get_ledger sv he hc q wid d = (400, ProblemBody ''INVALID_LIMIT'') \<longleftrightarrow>
       (\<forall>n. atoi (hq_limit q) = Some n \<longrightarrow>
          \<not> conforms (vd_runes vd) 1 (pa_schema (op_parameters ledger_operation ! 2)) (JNumber n))"
    if "he_uuid he wid \<and> hq_limit q \<noteq> []"
    using that other by (auto simp: get_ledger_def limit [unfolded One_nat_def] split: option.splits)
  show "\<exists>lo hi n. pa_schema (op_parameters ledger_operation ! 2) = IntegerSchema lo hi (Some n) \<and>
      get_ledger sv he hc q wid d = get_ledger sv he hc (q\<lparr>hq_limit := format_nat (nat n)\<rparr>) wid d" if "hq_limit q = []"
  proof -
    have "format_nat (nat 50) = ''50''" "atoi ''50'' = Some 50" by code_simp+
    then have "get_ledger sv he hc q wid d = get_ledger sv he hc (q\<lparr>hq_limit := format_nat (nat 50)\<rparr>) wid d"
      using that by (simp add: get_ledger_def)
    then show ?thesis by (intro exI [of _ "Some 1"] exI [of _ "Some 100"] exI [of _ 50]) (simp add: ledger_operation_def)
  qed
qed

definition sample_wager_request :: wager_request where
  "sample_wager_request =
     \<lparr>gq_external = ''x1'', gq_game = ''g'', gq_kind = ''BET'',
      gq_money = \<lparr>mq_amount = ''25.00'', mq_currency = ''BRL''\<rparr>, gq_player = ''p'', gq_provider = ''v'',
      gq_ref_external = [], gq_round = ''r'', gq_wallet = ''w''\<rparr>"

lemma requests_match_the_description_witness:
  "instance_of length ''httpapi.WagerRequest'' (wager_request_json sample_wager_request) \<and>
   instance_of length ''httpapi.CreateWalletRequest'' (wallet_request_json
     \<lparr>wq_initial = \<lparr>mq_amount = ''25.00'', mq_currency = ''BRL''\<rparr>, wq_player = ''p''\<rparr>)"
proof -
  have "wager_request_valid sample_validators sample_wager_request"
    using sample_texts_notblank
    by (simp add: sample_wager_request_def wager_request_valid_def named_def one_of_kinds_def
        money_request_valid_def uuid_given_def reference_given_def sample_validators_def)
  moreover have "wallet_request_valid sample_validators
      \<lparr>wq_initial = \<lparr>mq_amount = ''25.00'', mq_currency = ''BRL''\<rparr>, wq_player = ''p''\<rparr>"
    by (simp add: wallet_request_valid_def money_request_valid_def uuid_given_def sample_validators_def)
  ultimately show ?thesis
    using requests_match_the_description [of sample_validators sample_wager_request
        "\<lparr>wq_initial = \<lparr>mq_amount = ''25.00'', mq_currency = ''BRL''\<rparr>, wq_player = ''p''\<rparr>"
        sample_env "''w''" "sample_request (LedgerAt ''w'')" sample_service "sample_hc bet_call" db_opened]
    by (simp add: sample_validators_def)
qed

text \<open>
  The converse fails: the schema of a wager request does not require the texts that the
  validation demands, so that a request without a game is an instance and is refused.
\<close>

lemma game_is_required_undocumented:
  "instance_of runes ''httpapi.WagerRequest''
     (JObject [(''kind'', JString ''BET''), (''money'', money_request_json m), (''playerId'', JString p),
       (''walletId'', JString w)]) \<and>
   (gq_game g = [] \<longrightarrow> \<not> wager_request_valid vd g)"
proof
  show "instance_of runes ''httpapi.WagerRequest''
     (JObject [(''kind'', JString ''BET''), (''money'', money_request_json m), (''playerId'', JString p),
       (''walletId'', JString w)])"
    by (simp add: instance_of_eq wager_request_schema_def money_request_schema_def money_request_json_def)
  have "\<not> notblank []" unfolding notblank_def by code_simp
  then show "gq_game g = [] \<longrightarrow> \<not> wager_request_valid vd g" by (simp add: wager_request_valid_def named_def)
qed

end
