(* ===== verification/Faults.thy ===== *)
theory Faults
  imports Sample
begin

text \<open>
  What a failing statement does to a use case. A fault of the session is a number of
  statements after which the driver fails. The theory compares the run with such a fault to
  the run without: a computation \<open>surfaces\<close> its faults when the failure of any of its
  statements becomes the error of the whole, whichever branch the computation is in, and a
  fault that is due later leaves the computation as it is. The rules follow the combinators
  of \<open>TxStore\<close>, so the statement for a use case goes through each of its statements.
\<close>

section \<open>Computations that pass their faults on\<close>

definition with_fault :: "nat \<Rightarrow> session \<Rightarrow> session" where
  "with_fault k s = s\<lparr>s_fault := Some k\<rparr>"

lemma with_fault_simps [simp]: "s_fault (with_fault k s) = Some k" "s_db (with_fault k s) = s_db s"
  by (simp_all add: with_fault_def)

definition later :: "nat \<Rightarrow> err + 'a \<times> session \<Rightarrow> err + 'a \<times> session" where
  "later k r = (case r of Inl e \<Rightarrow> Inl e | Inr (x, s) \<Rightarrow> Inr (x, with_fault k s))"

definition trips :: "'a tx \<Rightarrow> session \<Rightarrow> nat \<Rightarrow> bool" where
  "trips m s n \<longleftrightarrow>
     (\<forall>k. m (with_fault k s) = (if k < n then Inl ErrDatabase else later (k - n) (m s))) \<and>
     (\<forall>x s'. m s = Inr (x, s') \<longrightarrow> steady s')"

definition surfaces :: "'a tx \<Rightarrow> bool" where
  "surfaces m \<longleftrightarrow> (\<forall>s. steady s \<longrightarrow> (\<exists>n. trips m s n))"

named_theorems surfaced

lemma surfacesE:
  assumes "surfaces m" and "steady s" obtains n where "trips m s n"
  using assms unfolding surfaces_def by blast

lemma trips_early: "trips m s n \<Longrightarrow> m (with_fault k s) = (if k < n then Inl ErrDatabase else later (k - n) (m s))"
  and trips_steady: "trips m s n \<Longrightarrow> m s = Inr (x, s') \<Longrightarrow> steady s'"
  unfolding trips_def by blast+

lemma surfaces_return [surfaced]: "surfaces (tx_return x)"
  by (auto simp: surfaces_def trips_def tx_return_def later_def intro!: exI [of _ 0])

lemma surfaces_fail [surfaced]: "surfaces (tx_fail e)"
  by (auto simp: surfaces_def trips_def tx_fail_def later_def intro!: exI [of _ 0])

lemma surfaces_lift [surfaced]: "surfaces (tx_lift r)"
  by (cases r) (auto simp: surfaces_def trips_def tx_lift_def later_def intro!: exI [of _ 0])

lemma surfaces_uuid [surfaced]: "surfaces new_uuid"
  by (auto simp: surfaces_def trips_def new_uuid_def later_def with_fault_def steady_def intro!: exI [of _ 0])

lemma surfaces_exec [surfaced]: "surfaces (exec st)"
  by (auto simp: surfaces_def trips_def exec_def later_def with_fault_def steady_def
      intro!: exI [of _ 1] split: sum.splits)

lemma surfaces_select [surfaced]: "surfaces (select q)"
  by (simp add: select_def surfaces_exec)

lemma trips_bind:
  assumes m: "trips m s n" and f: "\<And>x s'. m s = Inr (x, s') \<Longrightarrow> trips (f x) s' n'"
    and none: "\<And>e. m s = Inl e \<Longrightarrow> n' = 0"
  shows "trips (tx_bind m f) s (n + n')"
  unfolding trips_def
proof (intro conjI allI impI)
  fix k
  show "tx_bind m f (with_fault k s) =
    (if k < n + n' then Inl ErrDatabase else later (k - (n + n')) (tx_bind m f s))"
  proof (cases "m s")
    case (Inl e)
    with none show ?thesis by (simp add: tx_bind_def trips_early [OF m] later_def)
  next
    case (Inr xs)
    obtain x s' where xs: "xs = (x, s')" by fastforce
    then show ?thesis
      by (auto simp: tx_bind_def trips_early [OF m] trips_early [OF f [OF Inr [unfolded xs]]] later_def Inr)
  qed
qed (auto simp: tx_bind_ok dest!: f dest: trips_steady)

lemma surfaces_bind [surfaced]:
  assumes m: "surfaces m" and f: "\<And>x. surfaces (f x)"
  shows "surfaces (tx_bind m f)"
  unfolding surfaces_def
proof (intro allI impI)
  fix s :: session assume s: "steady s"
  obtain n where n: "trips m s n" using m s by (rule surfacesE)
  show "\<exists>n. trips (tx_bind m f) s n"
  proof (cases "m s")
    case (Inl e)
    with trips_bind [OF n, of f 0] show ?thesis by auto
  next
    case (Inr xs)
    obtain x s' where xs: "xs = (x, s')" by fastforce
    obtain n' where "trips (f x) s' n'"
      using f trips_steady [OF n Inr [unfolded xs]] by (rule surfacesE)
    with trips_bind [OF n, of f n'] Inr xs show ?thesis by auto
  qed
qed

lemma surfaces_if [surfaced]: "(b \<Longrightarrow> surfaces m) \<Longrightarrow> (\<not> b \<Longrightarrow> surfaces m') \<Longrightarrow> surfaces (if b then m else m')"
  by simp

lemma surfaces_option [surfaced]:
  "surfaces m \<Longrightarrow> (\<And>y. surfaces (f y)) \<Longrightarrow> surfaces (case x of None \<Rightarrow> m | Some y \<Rightarrow> f y)"
  by (cases x) simp_all

lemma surfaces_sum [surfaced]:
  "(\<And>e. surfaces (f e)) \<Longrightarrow> (\<And>y. surfaces (g y)) \<Longrightarrow> surfaces (case x of Inl e \<Rightarrow> f e | Inr y \<Rightarrow> g y)"
  by (cases x) simp_all

lemma surfaces_prod [surfaced]:
  "(\<And>y z. surfaces (f y z)) \<Longrightarrow> surfaces (case x of (y, z) \<Rightarrow> f y z)"
  by (cases x) simp

section \<open>The statements and the use cases\<close>

lemma surfaces_claim [surfaced]: "surfaces (claim_inbox i now)"
  unfolding claim_inbox_def by (intro surfaced)

lemma surfaces_complete [surfaced]: "surfaces (complete_inbox_if x now)"
  unfolding complete_inbox_if_def complete_inbox_def Let_def by (intro surfaced)

lemma surfaces_writes [surfaced]:
  "surfaces (insert_wallet w)" "surfaces (update_wallet w)" "surfaces (insert_opening tid w m now)"
  "surfaces (insert_transaction t)" "surfaces (update_transaction t)" "surfaces (insert_ledger e)"
  "surfaces (insert_outbox ev)" "surfaces (acquire_idempotency_lock p key)"
  unfolding insert_wallet_def update_wallet_def insert_opening_def insert_transaction_def
    insert_txn_row_def update_transaction_def insert_ledger_def insert_outbox_def
    acquire_idempotency_lock_def Let_def
  by (rule surfaces_exec)+

lemma surfaces_reads [surfaced]:
  "surfaces (lock_wallet i wid)" "surfaces (lock_transaction i tid)"
  "surfaces (find_by_idempotency i p key)" "surfaces (find_by_external_id i p ext)"
  "surfaces (successful_reversal_exists tid)"
  unfolding lock_wallet_def lock_transaction_def find_by_idempotency_def find_by_external_id_def
    successful_reversal_exists_def
  by (rule surfaces_select)+

lemma surfaces_save [surfaced]: "surfaces (save_transaction fresh t)"
  unfolding save_transaction_def by (intro surfaced)

lemma surfaces_emit [surfaced]: "surfaces (emit ty a co ca now dat)"
  unfolding emit_def by (intro surfaced)

lemma surfaces_reject [surfaced]: "surfaces (reject_tx sv t w code co ca now fresh)"
  unfolding reject_tx_def by (intro surfaced)

lemma surfaces_settle [surfaced]: "surfaces (settle_tx sv t dir before after w co ca now fresh)"
  unfolding settle_tx_def record_movement_def by (intro surfaced)

lemma surfaces_finalize [surfaced]: "surfaces (finalize sv t w r co ca now fresh)"
  unfolding finalize_def by (intro surfaced)

lemma surfaces_reference [surfaced]: "surfaces (reference_failure t r)"
  unfolding reference_failure_def by (intro surfaced)

lemma surfaces_resolved [surfaced]: "surfaces (resolved_tx sv t w r co ca now fresh)"
  unfolding resolved_tx_def decide_tx_def by (intro surfaced)

lemma surfaces_record [surfaced]: "surfaces (record_new sv cmd t w co ca now)"
  unfolding record_new_def decide_tx_def pending_event_def by (intro surfaced)

lemma surfaces_replay [surfaced]: "surfaces (replay_result sv t)"
  unfolding replay_result_def by (intro surfaced)

lemma surfaces_process: "surfaces (process_tx sv cmd co ca now)"
  unfolding process_tx_def process_unclaimed_def by (intro surfaced)

lemma surfaces_create: "surfaces (create_tx sv w initial co now)"
  unfolding create_tx_def by (intro surfaced)

lemma surfaces_pending: "surfaces (resolve_pending_tx sv tid now)"
  unfolding resolve_pending_tx_def by (intro surfaced)

lemma surfaces_failure: "surfaces (record_failure_tx sv tid now)"
  unfolding record_failure_tx_def by (intro surfaced)

section \<open>All or nothing\<close>

text \<open>
  \<open>f\<close> is a use case as a function of its call, \<open>d\<close> the tables it starts from. Without
  faults it takes \<open>n\<close> trips to the database, the begin and the commit among them: the
  failure of any of these is answered as an error and changes nothing, and a fault that is
  due after the last one is not noticed. A run that succeeds takes two trips at least.
\<close>

definition all_or_nothing :: "(call \<Rightarrow> db \<Rightarrow> 'a res \<times> db) \<Rightarrow> call \<Rightarrow> db \<Rightarrow> bool" where
  "all_or_nothing f c d \<longleftrightarrow>
     (let undisturbed = f (c\<lparr>c_fault := None\<rparr>) d
      in (\<forall>e. fst undisturbed = Inl e \<longrightarrow> snd undisturbed = d) \<and>
         (\<exists>n. (\<forall>k. f (c\<lparr>c_fault := Some k\<rparr>) d = (if k < n then (Inl ErrDatabase, d) else undisturbed)) \<and>
              (\<forall>x. fst undisturbed = Inr x \<longrightarrow> 2 \<le> n)))"

lemma within_all_or_nothing:
  assumes m: "surfaces m" and c: "\<not> c_ack_lost c"
  shows "all_or_nothing (\<lambda>c. within_transaction c drawn m) c d"
proof -
  let ?s = "\<lparr>s_db = d, s_ids = c_ids c, s_drawn = drawn, s_fault = None\<rparr>"
  let ?free = "within_transaction (c\<lparr>c_fault := None\<rparr>) drawn m d"
  have st: "steady ?s" by (simp add: steady_def)
  obtain n where t: "trips m ?s n" using m st by (rule surfacesE)
  note n = trips_early [OF t] and ok = trips_steady [OF t]
  have start: "within_transaction (c\<lparr>c_fault := Some k\<rparr>) drawn m d = (if k = 0 then (Inl ErrDatabase, d)
      else case m (with_fault (k - 1) ?s) of
             Inl e \<Rightarrow> (Inl e, d)
           | Inr (x, s) \<Rightarrow> if s_fault s = Some 0 \<or> \<not> deferred_ok d (s_db s) then (Inl ErrDatabase, d)
               else (Inr x, s_db s))" for k
    using c by (auto simp: within_transaction_def exec_def with_fault_def split: sum.splits)
  have free: "?free = (case m ?s of
             Inl e \<Rightarrow> (Inl e, d)
           | Inr (x, s) \<Rightarrow> if \<not> deferred_ok d (s_db s) then (Inl ErrDatabase, d) else (Inr x, s_db s))"
    using c ok by (auto simp: within_transaction_def exec_def steady_def split: sum.splits prod.splits)
  have "fst ?free = Inl e \<Longrightarrow> snd ?free = d" for e
    by (auto simp: free split: sum.splits prod.splits if_splits)
  moreover have "\<exists>n. (\<forall>k. within_transaction (c\<lparr>c_fault := Some k\<rparr>) drawn m d =
      (if k < n then (Inl ErrDatabase, d) else ?free)) \<and> (\<forall>x. fst ?free = Inr x \<longrightarrow> 2 \<le> n)"
  proof (cases "m ?s")
    case (Inl e)
    then show ?thesis by (auto simp: start free n later_def intro!: exI [of _ "Suc n"])
  next
    case (Inr xs)
    obtain x s' where "xs = (x, s')" by fastforce
    with Inr show ?thesis
      by (auto simp: start free n later_def intro!: exI [of _ "Suc (Suc n)"])
  qed
  ultimately show ?thesis unfolding all_or_nothing_def Let_def by blast
qed

text \<open>A refusal before the transaction takes no trip.\<close>

lemma all_or_nothing_refused:
  assumes "\<And>k. f (c\<lparr>c_fault := k\<rparr>) d = (Inl e, d)" shows "all_or_nothing f c d"
  unfolding all_or_nothing_def Let_def assms by (intro conjI exI [of _ 0]) simp_all

lemma all_or_nothing_cong:
  "(\<And>k. f (c\<lparr>c_fault := k\<rparr>) d = g (c\<lparr>c_fault := k\<rparr>) d) \<Longrightarrow> all_or_nothing g c d \<Longrightarrow> all_or_nothing f c d"
  by (simp add: all_or_nothing_def)

text \<open>The answer of a use case may be a view of the answer of the transaction.\<close>

lemma all_or_nothing_view:
  assumes "all_or_nothing g c d"
    and "\<And>k. f (c\<lparr>c_fault := k\<rparr>) d = map_prod (map_sum id view) id (g (c\<lparr>c_fault := k\<rparr>) d)"
  shows "all_or_nothing f c d"
proof -
  have l: "map_sum id view r = Inl e \<longleftrightarrow> r = Inl e" for r e by (cases r) auto
  have r: "map_sum id view r = Inr x \<longleftrightarrow> (\<exists>y. r = Inr y \<and> x = view y)" for r x by (cases r) auto
  from assms(1) show ?thesis
    unfolding all_or_nothing_def Let_def assms(2) by (auto simp: l r)
qed

lemma process_all_or_nothing:
  assumes "\<not> c_ack_lost c" shows "all_or_nothing (\<lambda>c. process sv c cmd) c d"
proof (cases "sv_valid sv cmd")
  case False
  then show ?thesis by (intro all_or_nothing_refused) (simp add: process_def)
next
  case True
  let ?co = "if cmd_correlation cmd = [] then c_ids c 0 else cmd_correlation cmd"
  let ?ca = "case cmd_inbox cmd of None \<Rightarrow> [] | Some i \<Rightarrow> in_message i"
  let ?drawn = "if cmd_correlation cmd = [] then 1 else 0 :: nat"
  have "all_or_nothing (\<lambda>c'. within_transaction c' ?drawn (process_tx sv cmd ?co ?ca (c_now c))) c d"
    using surfaces_process assms by (rule within_all_or_nothing)
  then show ?thesis by (rule all_or_nothing_cong [rotated]) (simp add: process_def Let_def True)
qed

lemma create_all_or_nothing:
  assumes "\<not> c_ack_lost c" shows "all_or_nothing (\<lambda>c. create sv c cmd) c d"
proof (cases "\<not> sv_valid_wallet sv cmd \<or> is_negative (wc_initial cmd)")
  case True
  then show ?thesis by (intro all_or_nothing_refused) (simp add: create_def)
next
  case valid: False
  show ?thesis
  proof (cases "new_wallet (sv_iso sv) (c_ids c 0) (wc_player cmd) (wc_initial cmd) (c_now c)")
    case (Inl e)
    with valid show ?thesis by (intro all_or_nothing_refused) (simp add: create_def)
  next
    case (Inr w)
    let ?co = "if wc_correlation cmd = [] then c_ids c 1 else wc_correlation cmd"
    let ?drawn = "if wc_correlation cmd = [] then 2 else 1 :: nat"
    have "all_or_nothing (\<lambda>c'. within_transaction c' ?drawn (create_tx sv w (wc_initial cmd) ?co (c_now c))) c d"
      using surfaces_create assms by (rule within_all_or_nothing)
    then show ?thesis using valid Inr
      by (elim all_or_nothing_view [where view = "\<lambda>_. wallet_view_of w"])
        (auto simp: create_def Let_def split: prod.splits sum.splits)
  qed
qed

text \<open>
  C19: No use case that writes swallows the failure of a trip to the database. When the
  acknowledgement of the commit is not lost, there is for each of \<open>Create\<close>, \<open>Process\<close>,
  \<open>ResolvePendingReference\<close> and \<open>RecordPendingReferenceFailure\<close>, from any tables, a number
  of trips, the begin and the commit among them, such that the failure of any one of them is
  answered as an error and leaves the tables of the start, and a run in which none of them
  fails is the undisturbed one; and an undisturbed run that answers an error has changed
  nothing either.
\<close>

theorem failures_surface:
  assumes "\<not> c_ack_lost c"
  shows "all_or_nothing (\<lambda>c. create sv c wcmd) c d \<and> all_or_nothing (\<lambda>c. process sv c cmd) c d \<and>
    all_or_nothing (\<lambda>c. resolve_pending_reference sv c tid) c d \<and>
    all_or_nothing (\<lambda>c. record_pending_reference_failure sv c tid) c d"
proof (intro conjI)
  have r: "all_or_nothing (\<lambda>c'. within_transaction c' 0 (resolve_pending_tx sv tid (c_now c))) c d"
    using surfaces_pending assms by (rule within_all_or_nothing)
  have f: "all_or_nothing (\<lambda>c'. within_transaction c' 0 (record_failure_tx sv tid (c_now c))) c d"
    using surfaces_failure assms by (rule within_all_or_nothing)
  show "all_or_nothing (\<lambda>c. resolve_pending_reference sv c tid) c d"
    by (rule all_or_nothing_cong [OF _ r]) (simp add: resolve_pending_reference_def)
  show "all_or_nothing (\<lambda>c. record_pending_reference_failure sv c tid) c d"
    by (rule all_or_nothing_cong [OF _ f]) (simp add: record_pending_reference_failure_def)
qed (rule create_all_or_nothing process_all_or_nothing, rule assms)+

text \<open>
  The bet of the sample fails when its wallet is updated, so it fails at every earlier trip,
  and the tables stay.
\<close>

lemma failures_surface_witness:
  "map (\<lambda>k. process sample_service (sample_call 6 [''t1'', ''l1'', ''e2'', ''e3'']\<lparr>c_fault := Some k\<rparr>)
     bet_cmd db_opened) [0..<7] = replicate 7 (Inl ErrDatabase, db_opened)"
proof -
  let ?c = "sample_call 6 [''t1'', ''l1'', ''e2'', ''e3'']"
  have c: "\<not> c_ack_lost ?c" "?c\<lparr>c_fault := None\<rparr> = ?c" by (simp_all add: sample_call_def)
  from failures_surface [OF c(1), of sample_service _ db_opened bet_cmd]
  obtain n where n: "\<And>k. process sample_service (?c\<lparr>c_fault := Some k\<rparr>) bet_cmd db_opened =
      (if k < n then (Inl ErrDatabase, db_opened) else process sample_service ?c bet_cmd db_opened)"
    unfolding all_or_nothing_def Let_def c(2) by blast
  from sample_fault have "6 < n" by (simp add: n sample_process_bet split: if_splits)
  then have "map (\<lambda>k. process sample_service (?c\<lparr>c_fault := Some k\<rparr>) bet_cmd db_opened) [0..<7] =
    map (\<lambda>_. (Inl ErrDatabase, db_opened)) [0..<7]" by (intro map_cong) (auto simp: n)
  then show ?thesis by (simp add: map_replicate_const)
qed

end
