(* ===== verification/Spec2Isabelle.thy ===== *)
theory Spec2Isabelle
  imports Metrics Leases Tracing Contract Faults
begin

text \<open>
  A verification development for the wallet and wager service of this repository (Go,
  \<open>src/internal\<close>).

  \<^bold>\<open>The program.\<close> Game providers send wager commands (\<open>BET\<close>, \<open>WIN\<close>, \<open>LOSS\<close>, \<open>REFUND\<close>,
  \<open>ROLLBACK\<close>) over HTTP (\<open>transport/httpapi\<close>) or SQS (\<open>infrastructure/messaging/consumer.go\<close>).
  \<open>WagerService\<close> (\<open>application/wager_service.go\<close>) decides each of them once, moves the balance of
  a wallet, appends a ledger entry and stores integration events in an outbox, all in one
  PostgreSQL transaction (\<open>infrastructure/postgres\<close>). A command whose reference is missing waits
  and is resolved by a worker (\<open>reference_worker.go\<close>). \<open>WalletService\<close>
  (\<open>application/wallet_service.go\<close>) opens wallets, pages through their ledgers and reconciles
  them. The outbox worker (\<open>outbox_worker.go\<close>) leases stored events and publishes them.

  \<^bold>\<open>The model of the domain.\<close> \<open>Prelude\<close> has the sentinel errors as one datatype and results as
  \<open>err + 'a\<close>, \<open>int64\<close> as 64-bit words read through \<open>sint\<close>, and the locales of state machines.
  \<open>Money\<close>, \<open>Wallet\<close> and \<open>Transaction\<close> are \<open>domain/money.go\<close>, \<open>wallet.go\<close> with \<open>ledger.go\<close>, and
  \<open>transaction.go\<close> with \<open>failure_code.go\<close>; \<open>Contracts\<close> is the data of \<open>application/contracts.go\<close>,
  \<open>events.go\<close> and \<open>ports.go\<close>.

  \<^bold>\<open>The model of the store.\<close> \<open>Store\<close> has the tables as lists of rows with the constraints,
  indexes, foreign keys and triggers of \<open>migrations/*.sql\<close>; \<open>TxStore\<close> has each statement of
  \<open>store.go\<close> in a monad of state and errors. A call carries its clock, the identifiers it draws,
  the number of the statement at which the database fails (if any), and whether the
  acknowledgement of its commit is lost. \<open>Backoff\<close> has the three retry loops.

  \<^bold>\<open>The model of the use cases and workers.\<close> \<open>WagerService\<close>, \<open>WalletService\<close>, \<open>Paging\<close>
  (\<open>ListLedger\<close> and \<open>Ledger\<close>), \<open>Cursor\<close> over \<open>Encoding\<close> (base64) and \<open>Calendar\<close> (RFC 3339),
  \<open>Outbox\<close> (\<open>publishOutbox\<close>), \<open>Pending\<close> (\<open>resolveReferences\<close>), \<open>Consumer\<close> (\<open>handleMessage\<close>) and
  \<open>Queues\<close> (\<open>sqs.go\<close>, \<open>consume\<close>). \<open>System\<close> composes them: \<open>serve\<close> answers one request of any
  use case or one pass of a worker, \<open>served\<close> is the step relation, \<open>reachable\<close> what it reaches
  from the empty database. A delivery and a run of the consumer are runs of such requests.

  \<^bold>\<open>The model of the edges.\<close> \<open>Auth\<close> (\<open>auth.go\<close>), \<open>Http\<close> (handlers, router, middleware, mapping of
  errors), \<open>Health\<close> (readiness, recorded statuses, recovered panics), \<open>Config\<close> (\<open>config.go\<close>, in
  the state monad of the library), \<open>Validation\<close> (the tags of the request types and
  \<open>validator.go\<close>) and \<open>Metrics\<close> (\<open>metrics.go\<close> and the calls that feed it). \<open>Json\<close> is the JSON of
  answers and requests (the tags of \<open>contracts.go\<close>, \<open>dto_response.go\<close>, \<open>dto_request.go\<close>), \<open>Swagger\<close>
  the published description (\<open>docs/swagger/docs.go\<close>: operations, schemas, security schemes).

  \<^bold>\<open>The model of the process.\<close> \<open>Lifecycle\<close> is the composition (\<open>composition/module.go\<close>): which part
  needs which, the hooks that the parts append (\<open>pool.go\<close>, \<open>auth.go\<close>, \<open>sqs.go\<close>, \<open>server.go\<close>, the
  three \<open>Register\<close> functions) with their errors, and the goroutines of the workers as a step
  relation. \<open>Tracing\<close> is the set-up of telemetry and clients (\<open>tracing.go\<close>, \<open>logging.go\<close>,
  \<open>pool.go\<close>, \<open>NewSQSClient\<close>, \<open>NewServer\<close>).

  \<^bold>\<open>The proofs.\<close> \<open>StoreLaws\<close> says what each statement did to the tables. \<open>Accounting\<close> has the
  steps a commit may make and the invariant they keep (\<open>db_inv\<close>: wallets are the replay of their
  ledger, one entry per movement, reversals fit what they reverse, events mirror the tables), and
  the order in which nothing is undone (\<open>db_below\<close>). \<open>Settlement\<close> and \<open>WalletService\<close> show that
  every use case makes only such steps; \<open>System\<close> lifts this to reachable states. \<open>Guarantees\<close>
  reads the invariant off. \<open>Faults\<close> compares a run with a failing statement to the run without:
  no use case swallows a failure. \<open>Bank\<close> relates it to an abstract bank through the locale
  \<open>refinement\<close>. \<open>Frames\<close>, \<open>Invariants\<close> and \<open>Provenance\<close> are three ways to follow what a use case
  leaves alone from the statements it is made of. \<open>Processing\<close>, \<open>Outcomes\<close> and \<open>Verdicts\<close> give
  the outcome of every new command over HTTP (\<open>new_command\<close>); \<open>Replay\<close> and \<open>Redelivery\<close> the
  outcome of a repeated one on both transports.
  \<open>Leases\<close> shows that the workers of the outbox exclude each other, and a run in which events
  of one wallet overtake each other. \<open>Lifecycle\<close> shows that at every point of a run workers and
  server live inside the parts they use. \<open>Failures\<close> gives the errors each use case behind a route
  can fail with, \<open>Contract\<close> compares the service with its description: routes and security,
  statuses and bodies of the answers, requests and limits.
  \<open>Sample\<close> is a concrete run, evaluated statement by statement, on which the witnesses stand.

  \<^bold>\<open>Interfaces.\<close> \<open>machine\<close>, \<open>lifecycle\<close>, \<open>monotone_machine\<close> (state machines with an invariant,
  final states, an order), \<open>retry_schedule\<close> and \<open>retry_parameters\<close> (what workers rely on and what
  the configuration guarantees), \<open>statement_invariant\<close> (a predicate that each statement keeps) and
  \<open>refinement\<close>; each is interpreted on the model of the code. The cursor is an instance of
  \<open>linorder\<close>, so that pages are sorted by the order of the query.

  \<^bold>\<open>Bounds.\<close> Amounts, balances, versions and durations are 64-bit words with Go's wrapping
  operators, visibility timeouts 32-bit words; integers of Go's \<open>int\<close> are read from texts of at
  most 64 bits and kept as \<open>int\<close>. Loops end by a measure (the attempts left, the length of the
  text, the goroutines still to start). Only \<open>Swagger.conforms\<close> has fuel, the depth to which
  references are followed: \<open>instance_of\<close> gives it 8, the depth of the deepest schema
  (\<open>application.LedgerPage\<close>), and a value that needs more is no instance, so that \<open>instance_of\<close>
  never holds for want of fuel. The loops of the workers are lists of passes; that a waiting
  transaction is decided is proved for every run with more passes that select it than attempts
  are left (\<open>passes\<close>). The counters of attempts are bounded as their \<open>integer\<close> columns are: a
  row above 2147483647 is refused.

  \<^bold>\<open>Parameters.\<close> Code of others is an argument: the ISO 4217 table, SHA-256, the JSON
  decoders, the \<open>uuid\<close>, \<open>url\<close>, \<open>hostname_port\<close> and \<open>hexadecimal\<close> formats of the validator, token
  verification and discovery, \<open>url.Parse\<close>, \<open>strconv.ParseFloat\<close> and the floating-point fractions
  of durations, the conversion of cursor parameters by PostgreSQL, and the answers of SQS. The
  order in which \<open>fx\<close> runs constructors and hooks is a hypothesis as its documentation states it
  (\<open>constructed\<close>, \<open>fx_run\<close>), and a start meets a \<open>world\<close> that answers pings, discovery and SQS.

  \<^bold>\<open>Not modelled.\<close> Concurrency inside the database: a transaction runs alone on the tables, as
  its locks and the serialisation of PostgreSQL are meant to achieve; a lost race shows as a
  failing statement. The rounding of instants to microseconds by PostgreSQL, and
  its refusal of NUL characters in \<open>text\<close> and \<open>jsonb\<close>. The bytes of JSON texts (kept as values), the decoder of requests, and the texts of messages. The places where
  spans and log lines are written and the exposition of metrics: calls into libraries without
  a decision of the program, as is \<open>main\<close>, which hands the module to \<open>fx\<close>. The summaries and
  examples of the description. Process crashes are covered as far as they are a call whose
  acknowledgement is lost or a worker that stops between two steps.
\<close>

end
